(* ===== verification/Prelude.thy ===== *)
theory Prelude
  imports Main "HOL-Library.Word" "HOL-Library.AList" "HOL-Library.Monad_Syntax"
begin

section \<open>Prelude: machine integers, byte order, shared lemmas\<close>

text \<open>
  The names of the C integer types, the little-endian byte order of the BPF and x86 targets
  (\<open>bpf_ntohs\<close> and \<open>bpf_htons\<close> swap the two bytes there), and the generic lemmas on lists,
  words and association lists that the components share. Three collections of simplification
  rules grow through the development: \<open>byte_simps\<close> (byte order), \<open>map_simps\<close>
  (BPF maps after an operation) and \<open>pkt_simps\<close> (packet buffers after a store).
\<close>

named_theorems byte_simps "byte order round trips"
named_theorems map_simps "reading a BPF map after an operation"
named_theorems pkt_simps "reading a packet buffer after a store"

unbundle bit_operations_syntax

type_synonym u8 = "8 word"
type_synonym u16 = "16 word"
type_synonym u32 = "32 word"
type_synonym u64 = "64 word"
type_synonym bytes = "u8 list"

subsection \<open>Little-endian encoding\<close>

definition bytes16 :: "u16 \<Rightarrow> bytes" where
  "bytes16 w = [ucast w, ucast (drop_bit 8 w)]"

fun le16 :: "bytes \<Rightarrow> u16" where
  "le16 [a, b] = ucast a OR push_bit 8 (ucast b)"
| "le16 _ = 0"

definition bytes32 :: "u32 \<Rightarrow> bytes" where
  "bytes32 w = [ucast w, ucast (drop_bit 8 w), ucast (drop_bit 16 w), ucast (drop_bit 24 w)]"

fun le32 :: "bytes \<Rightarrow> u32" where
  "le32 [a, b, c, d] =
     ucast a OR push_bit 8 (ucast b) OR push_bit 16 (ucast c) OR push_bit 24 (ucast d)"
| "le32 _ = 0"

definition bswap16 :: "u16 \<Rightarrow> u16" where
  "bswap16 w = push_bit 8 w OR drop_bit 8 w"

lemma length_bytes16 [simp]: "length (bytes16 w) = 2"
  by (simp add: bytes16_def)

lemma length_bytes32 [simp]: "length (bytes32 w) = 4"
  by (simp add: bytes32_def)

lemma le16_bytes16 [simp, byte_simps]: "le16 (bytes16 w) = w"
  unfolding bytes16_def le16.simps
  by (rule bit_word_eqI) (auto simp: bit_simps)

lemma le32_bytes32 [simp, byte_simps]: "le32 (bytes32 w) = w"
proof (rule bit_word_eqI)
  fix n assume "n < LENGTH(32)"
  then consider "n < 8" | "8 \<le> n" "n < 16" | "16 \<le> n" "n < 24" | "24 \<le> n" "n < 32"
    by (simp, linarith)
  then show "bit (le32 (bytes32 w)) n \<longleftrightarrow> bit w n"
    by cases (auto simp: bytes32_def bit_simps)
qed

lemma bytes32_inj: "bytes32 v = bytes32 w \<longleftrightarrow> v = w"
  by (metis le32_bytes32)

lemma bswap16_bswap16 [simp, byte_simps]: "bswap16 (bswap16 w) = w"
  unfolding bswap16_def
  by (rule bit_word_eqI) (auto simp: bit_simps)

subsection \<open>Words\<close>

lemma unat_plus_one:
  "unat (w :: 'a::len word) + 1 < 2 ^ LENGTH('a) \<Longrightarrow> unat (w + 1) = unat w + 1"
  by (simp add: unat_word_ariths)

lemma signed_take_bit_31: "0 \<le> k \<Longrightarrow> k < 2147483648 \<Longrightarrow> signed_take_bit 31 k = (k :: int)"
  by (intro signed_take_bit_int_eq_self) simp_all

lemma sint_eq_unat:
  assumes "unat w < 2147483648"
  shows "sint (w :: u32) = int (unat w)"
proof -
  have "uint w = int (unat w)" by simp
  then have "signed_take_bit 31 (uint w) = uint w"
    using assms by (intro signed_take_bit_31) linarith+
  then show ?thesis by (simp only: sint_uint) simp
qed

subsection \<open>Association lists\<close>

lemma delete_None: "map_of m k = None \<Longrightarrow> AList.delete k m = m"
  by (induction m) (auto split: if_splits)

lemma update_keys_absent:
  "map_of m k = None \<Longrightarrow> AList.update k v m = m @ [(k, v)]"
  by (induction m) (auto split: if_splits)

lemma length_update_present:
  "map_of m k \<noteq> None \<Longrightarrow> length (AList.update k v m) = length m"
  by (induction m) (auto split: if_splits)

lemma distinct_fst_update:
  "distinct (map fst m) \<Longrightarrow> distinct (map fst (AList.update k v m))"
  by (rule distinct_update)

lemma length_delete_present:
  "distinct (map fst m) \<Longrightarrow> map_of m k \<noteq> None \<Longrightarrow> Suc (length (AList.delete k m)) = length m"
  by (induction m) (auto simp: delete_None split: if_splits)

end
