(* ===== verification/Maglev.thy ===== *)
theory Maglev
  imports Prelude
begin

section \<open>Maglev lookup tables\<close>

text \<open>
  \<open>ConsistentHashInstance::generatePermutations\<close> and \<open>populateLookupTable\<close> of
  \<open>controlplane/src/algorithm/consistent_hash.cpp\<close>. A table is a list of \<open>int32_t\<close> with \<open>-1\<close>
  for an empty slot. \<open>None\<close> is an access outside a vector, which C++ does not check.
\<close>

text \<open>
  One backend's row: \<open>(offset + j * skip) % m\<close>. The two hashes are 32-bit and the table has at
  most \<open>2^32\<close> slots, so that the 64-bit arithmetic does not wrap.
\<close>

definition permutation_row :: "u32 \<Rightarrow> u32 \<Rightarrow> nat \<Rightarrow> nat list" where
  "permutation_row hash1 hash2 m =
     (let offset = unat hash1 mod m;
          skip = unat hash2 mod (m - 1) + 1
      in map (\<lambda>j. (offset + j * skip) mod m) [0..<m])"

record populate_state =
  next_index :: "nat list"
  tmp_lookup :: "int list"
  curr_lookup :: "int list"
  count :: nat

text \<open>\<open>pos = permutation[next]; while (tmp_lookup[pos] >= 0) { ++next; pos = permutation[next]; }\<close>\<close>

function find_slot :: "nat list \<Rightarrow> int list \<Rightarrow> nat \<Rightarrow> (nat \<times> nat) option" where
  "find_slot permutation tmp next =
     (if next < length permutation \<and> permutation ! next < length tmp
      then (let pos = permutation ! next
            in if tmp ! pos \<ge> 0 then find_slot permutation tmp (next + 1) else Some (pos, next))
      else None)"
  by pat_completeness auto
termination
  by (relation "measure (\<lambda>(permutation, _, next). length permutation - next)") auto

declare find_slot.simps [simp del]

text \<open>The body of the \<open>for\<close> loop.\<close>

definition place :: "nat list list \<Rightarrow> nat \<Rightarrow> populate_state \<Rightarrow> populate_state option" where
  "place permutations i st =
     (case find_slot (permutations ! i) (tmp_lookup st) (next_index st ! i) of
        None \<Rightarrow> None
      | Some (pos, next) \<Rightarrow>
          Some (st\<lparr>tmp_lookup := (tmp_lookup st)[pos := int i],
                   curr_lookup := (curr_lookup st)[pos := int i],
                   next_index := (next_index st)[i := next + 1],
                   count := count st + 1\<rparr>))"

function place_round :: "nat \<Rightarrow> nat \<Rightarrow> nat list list \<Rightarrow> nat \<Rightarrow> populate_state \<Rightarrow> populate_state option" where
  "place_round m n permutations i st =
     (if i < n
      then (case place permutations i st of
              None \<Rightarrow> None
            | Some st \<Rightarrow> if count st = m then Some st else place_round m n permutations (i + 1) st)
      else Some st)"
  by pat_completeness auto
termination
  by (relation "measure (\<lambda>(_, n, _, i, _). n - i)") auto

declare place_round.simps [simp del]

text \<open>The \<open>while\<close> loop: it does not end when there are no backends.\<close>

partial_function (option) place_all ::
    "nat \<Rightarrow> nat \<Rightarrow> nat list list \<Rightarrow> populate_state \<Rightarrow> populate_state option" where
  "place_all m n permutations st =
     (if count st < m
      then Option.bind (place_round m n permutations 0 st) (place_all m n permutations)
      else Some st)"

definition populate_table :: "nat \<Rightarrow> nat list list \<Rightarrow> int list \<Rightarrow> int list option" where
  "populate_table m permutations curr_tab =
     map_option curr_lookup
       (place_all m (length permutations) permutations
         \<lparr>next_index = replicate (length permutations) 0, tmp_lookup = replicate m (-1),
          curr_lookup = curr_tab, count = 0\<rparr>)"

subsection \<open>Rows are permutations\<close>

text \<open>What a prime table size gives.\<close>

definition coprime_size :: "nat \<Rightarrow> bool" where
  "coprime_size m \<longleftrightarrow> 1 < m \<and> (\<forall>k. 0 < k \<longrightarrow> k < m \<longrightarrow> coprime k m)"

lemma length_permutation_row [simp]: "length (permutation_row h1 h2 m) = m"
  by (simp add: permutation_row_def Let_def)

lemma inj_row:
  assumes "coprime s (m :: nat)" and "i < m" "j < m" and "(a + i * s) mod m = (a + j * s) mod m"
  shows "i = j"
proof -
  have dvd: "m dvd j - i" if "i \<le> j" "(a + i * s) mod m = (a + j * s) mod m" for i j
  proof -
    have "m dvd (a + j * s) - (a + i * s)"
      using that mod_eq_dvd_iff_nat [of "a + i * s" "a + j * s" m] by simp
    then have "m dvd (j - i) * s" by (simp add: diff_mult_distrib)
    then show ?thesis using assms(1) coprime_commute coprime_dvd_mult_left_iff by blast
  qed
  have "i \<le> j \<or> j \<le> i" by linarith
  then show ?thesis
  proof
    assume "i \<le> j"
    then show ?thesis using dvd [of i j] assms(2-4) nat_dvd_not_less [of "j - i" m] by fastforce
  next
    assume "j \<le> i"
    then show ?thesis using dvd [of j i] assms(2-4) nat_dvd_not_less [of "i - j" m] by fastforce
  qed
qed

lemma permutation_row_perm:
  assumes "coprime_size m"
  shows "distinct (permutation_row h1 h2 m)" "set (permutation_row h1 h2 m) = {..<m}"
proof -
  define a where "a = unat h1 mod m"
  define s where "s = unat h2 mod (m - 1) + 1"
  have m: "1 < m" using assms by (simp add: coprime_size_def)
  then have "unat h2 mod (m - 1) < m - 1" by simp
  then have "0 < s \<and> s < m" using m unfolding s_def by linarith
  then have "coprime s m" using assms by (simp add: coprime_size_def)
  then have inj: "inj_on (\<lambda>j. (a + j * s) mod m) {..<m}"
    by (auto intro!: inj_onI dest: inj_row)
  have row: "permutation_row h1 h2 m = map (\<lambda>j. (a + j * s) mod m) [0..<m]"
    by (simp add: permutation_row_def a_def s_def Let_def)
  show "distinct (permutation_row h1 h2 m)"
    using inj by (simp add: row distinct_map atLeast0LessThan)
  have "(\<lambda>j. (a + j * s) mod m) ` {..<m} \<subseteq> {..<m}" using m by auto
  then have "(\<lambda>j. (a + j * s) mod m) ` {..<m} = {..<m}" using inj by (intro endo_inj_surj) simp_all
  then show "set (permutation_row h1 h2 m) = {..<m}" by (simp add: row atLeast0LessThan)
qed

subsection \<open>One placement\<close>

lemma find_slot_free:
  assumes "set perm = {..<length tmp}"
  shows "next \<le> k \<Longrightarrow> k < length perm \<Longrightarrow> tmp ! (perm ! k) < 0 \<Longrightarrow>
    \<exists>pos nx. find_slot perm tmp next = Some (pos, nx) \<and> next \<le> nx \<and> nx < length perm
      \<and> pos = perm ! nx \<and> pos < length tmp \<and> tmp ! pos < 0
      \<and> (\<forall>j. next \<le> j \<longrightarrow> j < nx \<longrightarrow> 0 \<le> tmp ! (perm ! j))"
proof (induction "length perm - next" arbitrary: "next" rule: less_induct)
  case less
  have lt: "next < length perm" "perm ! next < length tmp"
    using less.prems assms nth_mem [of "next" perm] by auto
  show ?case
  proof (cases "0 \<le> tmp ! (perm ! next)")
    case True
    then have "next + 1 \<le> k" using less.prems by (metis Suc_eq_plus1 le_neq_implies_less less_eq_Suc_le not_le)
    moreover have "find_slot perm tmp next = find_slot perm tmp (next + 1)"
      using True lt by (simp add: find_slot.simps [of perm tmp "next"])
    ultimately obtain pos nx where r: "find_slot perm tmp next = Some (pos, nx)" "next + 1 \<le> nx"
        "nx < length perm" "pos = perm ! nx" "pos < length tmp" "tmp ! pos < 0"
        "\<forall>j. next + 1 \<le> j \<longrightarrow> j < nx \<longrightarrow> 0 \<le> tmp ! (perm ! j)"
      using less.hyps [OF _ _ less.prems(2,3), of "next + 1"] diff_less_mono2 [of "next" "next + 1" "length perm"] lt(1)
      by auto
    moreover have "0 \<le> tmp ! (perm ! j)" if "next \<le> j" "j < nx" for j
      using that r(7) True by (cases "j = next") auto
    ultimately show ?thesis by auto
  next
    case False
    then show ?thesis using lt by (auto simp: find_slot.simps [of perm tmp "next"] Let_def)
  qed
qed

text \<open>The slots backend \<open>i\<close> has after \<open>t\<close> placements in turn.\<close>

definition turns :: "nat \<Rightarrow> nat \<Rightarrow> nat \<Rightarrow> nat" where
  "turns n i t = card {s. s < t \<and> s mod n = i}"

lemma turns_0 [simp]: "turns n i 0 = 0"
  by (simp add: turns_def)

lemma turns_Suc: "turns n i (Suc t) = turns n i t + (if t mod n = i then 1 else 0)"
proof -
  have "{s. s < Suc t \<and> s mod n = i} =
      (if t mod n = i then insert t {s. s < t \<and> s mod n = i} else {s. s < t \<and> s mod n = i})"
    by (auto simp: less_Suc_eq)
  then show ?thesis by (simp add: turns_def)
qed

lemma turns_eq: "i < n \<Longrightarrow> turns n i m = m div n + (if i < m mod n then 1 else 0)"
  by (induction m) (auto simp: turns_Suc div_Suc mod_Suc)

subsection \<open>The table after \<open>t\<close> placements\<close>

definition filled :: "int list \<Rightarrow> nat \<Rightarrow> nat set" where
  "filled tab m = {p. p < m \<and> 0 \<le> tab ! p}"

definition slots_of :: "int list \<Rightarrow> nat \<Rightarrow> nat \<Rightarrow> nat set" where
  "slots_of tab m i = {p. p < m \<and> tab ! p = int i}"

definition rows_ok :: "nat \<Rightarrow> nat list list \<Rightarrow> bool" where
  "rows_ok m perms \<longleftrightarrow> (\<forall>row \<in> set perms. length row = m \<and> distinct row \<and> set row = {..<m})"

definition populated :: "nat \<Rightarrow> nat list list \<Rightarrow> nat \<Rightarrow> populate_state \<Rightarrow> bool" where
  "populated m perms t st \<longleftrightarrow>
     count st = t \<and> t \<le> m
     \<and> length (next_index st) = length perms \<and> length (tmp_lookup st) = m \<and> length (curr_lookup st) = m
     \<and> (\<forall>p < m. curr_lookup st ! p = tmp_lookup st ! p \<and> tmp_lookup st ! p < int (length perms))
     \<and> card (filled (tmp_lookup st) m) = t
     \<and> (\<forall>i < length perms. card (slots_of (tmp_lookup st) m i) = turns (length perms) i t)
     \<and> (\<forall>i < length perms. \<forall>j < next_index st ! i. j < m \<longrightarrow> 0 \<le> tmp_lookup st ! (perms ! i ! j))"

lemma populated_start:
  "length c = m \<Longrightarrow> (\<And>p. p < m \<Longrightarrow> c ! p = -1) \<Longrightarrow>
     populated m perms 0 \<lparr>next_index = replicate (length perms) 0, tmp_lookup = replicate m (-1),
       curr_lookup = c, count = 0\<rparr>"
  by (auto simp: populated_def filled_def slots_of_def)

lemma finite_filled [simp]: "finite (filled tab m)" "finite (slots_of tab m i)"
  by (simp_all add: filled_def slots_of_def)

lemma filled_update:
  assumes "pos < m" "length tab = m" "tab ! pos < 0"
  shows "card (filled (tab[pos := int i]) m) = card (filled tab m) + 1"
    and "card (slots_of (tab[pos := int i]) m j) = card (slots_of tab m j) + (if i = j then 1 else 0)"
proof -
  have "filled (tab[pos := int i]) m = insert pos (filled tab m)" "pos \<notin> filled tab m"
    using assms by (auto simp: filled_def nth_list_update)
  then show "card (filled (tab[pos := int i]) m) = card (filled tab m) + 1" by simp
  have "slots_of (tab[pos := int i]) m j =
      (if i = j then insert pos (slots_of tab m j) else slots_of tab m j)" "pos \<notin> slots_of tab m j"
    using assms by (auto simp: slots_of_def nth_list_update)
  then show "card (slots_of (tab[pos := int i]) m j) = card (slots_of tab m j) + (if i = j then 1 else 0)"
    by simp
qed

text \<open>Before the table is full, a row finds a free slot.\<close>

lemma place_finds:
  assumes inv: "populated m perms t st" and rows: "rows_ok m perms" and i: "i < length perms" and t: "t < m"
  obtains pos nx where "find_slot (perms ! i) (tmp_lookup st) (next_index st ! i) = Some (pos, nx)"
    "next_index st ! i \<le> nx" "nx < m" "pos = perms ! i ! nx" "pos < m" "tmp_lookup st ! pos < 0"
    "\<forall>j. next_index st ! i \<le> j \<longrightarrow> j < nx \<longrightarrow> 0 \<le> tmp_lookup st ! (perms ! i ! j)"
proof -
  let ?row = "perms ! i" and ?tmp = "tmp_lookup st"
  have row: "length ?row = m" "set ?row = {..<m}" and len: "length ?tmp = m" "card (filled ?tmp m) = t"
    using rows i inv by (auto simp: rows_ok_def populated_def)
  have "\<exists>p < m. ?tmp ! p < 0"
  proof (rule ccontr)
    assume "\<not> ?thesis"
    then have "0 \<le> ?tmp ! x" if "x < m" for x using that not_le by blast
    then have "filled ?tmp m = {..<m}" by (auto simp: filled_def)
    then show False using len(2) t by simp
  qed
  then obtain p k where p: "?tmp ! p < 0" "k < m" "?row ! k = p" using row by (metis in_set_conv_nth lessThan_iff)
  have "next_index st ! i \<le> k" using inv i p by (auto simp: populated_def not_less [symmetric])
  then show ?thesis using find_slot_free [of ?row ?tmp "next_index st ! i" k] p row len(1) that by auto
qed

text \<open>Every entry of the rows before their positions stays taken.\<close>

lemma place_keeps_taken:
  assumes inv: "populated m perms t st" and rows: "rows_ok m perms" and i: "i < length perms"
    and pos: "pos = perms ! i ! nx" "pos < m"
    and between: "\<forall>j. next_index st ! i \<le> j \<longrightarrow> j < nx \<longrightarrow> 0 \<le> tmp_lookup st ! (perms ! i ! j)"
    and l: "l < length perms" and j: "j < (next_index st)[i := nx + 1] ! l" "j < m"
  shows "0 \<le> (tmp_lookup st)[pos := int i] ! (perms ! l ! j)"
proof -
  have "length (perms ! l) = m" "set (perms ! l) = {..<m}" using rows l by (auto simp: rows_ok_def)
  then have "perms ! l ! j < m" using nth_mem [of j "perms ! l"] j(2) by auto
  moreover have "perms ! l ! j = pos \<or> 0 \<le> tmp_lookup st ! (perms ! l ! j)"
  proof (cases "l = i")
    case True
    then have "j < next_index st ! i \<or> next_index st ! i \<le> j \<and> j < nx \<or> j = nx"
      using j(1) inv i by (auto simp: populated_def)
    then show ?thesis using True inv i pos(1) between j(2) by (auto simp: populated_def)
  next
    case False
    then show ?thesis using inv l j by (auto simp: populated_def)
  qed
  ultimately show ?thesis using inv pos(2) by (auto simp: populated_def nth_list_update)
qed

lemma place_step:
  assumes inv: "populated m perms t st" and rows: "rows_ok m perms"
    and i: "i < length perms" "t mod length perms = i" and t: "t < m"
  obtains st' where "place perms i st = Some st'" "populated m perms (Suc t) st'"
proof -
  let ?tmp = "tmp_lookup st"
  have len: "length ?tmp = m" "length (curr_lookup st) = m" "length (next_index st) = length perms"
      "count st = t" "card (filled ?tmp m) = t"
    using inv by (simp_all add: populated_def)
  obtain pos nx where f: "find_slot (perms ! i) ?tmp (next_index st ! i) = Some (pos, nx)" "next_index st ! i \<le> nx" "nx < m"
      "pos = perms ! i ! nx" "pos < m" "?tmp ! pos < 0"
      "\<forall>j. next_index st ! i \<le> j \<longrightarrow> j < nx \<longrightarrow> 0 \<le> ?tmp ! (perms ! i ! j)"
    by (rule place_finds [OF inv rows i(1) t])
  let ?st' = "st\<lparr>tmp_lookup := ?tmp[pos := int i], curr_lookup := (curr_lookup st)[pos := int i],
      next_index := (next_index st)[i := nx + 1], count := count st + 1\<rparr>"
  have "place perms i st = Some ?st'" by (simp add: place_def f(1))
  moreover have "populated m perms (Suc t) ?st'"
    unfolding populated_def
  proof (intro conjI allI impI)
    show "card (filled (tmp_lookup ?st') m) = Suc t"
      using filled_update(1) [OF f(5) len(1) f(6)] len(5) by simp
    show "card (slots_of (tmp_lookup ?st') m j) = turns (length perms) j (Suc t)" if "j < length perms" for j
      using filled_update(2) [OF f(5) len(1) f(6)] inv i(2) that by (simp add: populated_def turns_Suc)
    show "curr_lookup ?st' ! p = tmp_lookup ?st' ! p" if "p < m" for p
      using that inv len(1,2) f(5) by (simp add: populated_def nth_list_update)
    show "tmp_lookup ?st' ! p < int (length perms)" if "p < m" for p
      using that inv len(1) i(1) f(5) by (simp add: populated_def nth_list_update)
    show "0 \<le> tmp_lookup ?st' ! (perms ! l ! j)"
      if "l < length perms" "j < next_index ?st' ! l" "j < m" for l j
      using place_keeps_taken [OF inv rows i(1) f(4,5,7) that(1) _ that(3)] that(2) by simp
  qed (use len t in simp_all)
  ultimately show ?thesis by (rule that)
qed

lemma place_round_step:
  assumes rows: "rows_ok m perms"
  shows "populated m perms t st \<Longrightarrow> t < m \<Longrightarrow> i < length perms \<Longrightarrow> t mod length perms = i \<Longrightarrow>
    \<exists>st' t'. place_round m (length perms) perms i st = Some st' \<and> populated m perms t' st'
      \<and> t < t' \<and> (t' = m \<or> t' mod length perms = 0)"
proof (induction "length perms - i" arbitrary: i t st rule: less_induct)
  case less
  obtain st1 where p: "place perms i st = Some st1" "populated m perms (Suc t) st1"
    by (rule place_step [OF less.prems(1) rows less.prems(3,4,2)])
  have cnt: "count st1 = Suc t" using p(2) by (simp add: populated_def)
  have step: "place_round m (length perms) perms i st =
      (if Suc t = m then Some st1 else place_round m (length perms) perms (i + 1) st1)"
    using less.prems(3) p(1) cnt by (simp add: place_round.simps [of m "length perms" perms i st])
  consider "Suc t = m" | "Suc t < m" "i + 1 < length perms" | "Suc t < m" "i + 1 = length perms"
    using less.prems(2,3) by linarith
  then show ?case
  proof cases
    case 1
    then show ?thesis using step p(2) by auto
  next
    case 2
    moreover have "Suc t mod length perms = i + 1" using less.prems(4) 2(2) by (simp add: mod_Suc)
    moreover have "length perms - (i + 1) < length perms - i" using less.prems(3) by simp
    ultimately obtain st' t' where "place_round m (length perms) perms (i + 1) st1 = Some st'"
        "populated m perms t' st'" "Suc t < t'" "t' = m \<or> t' mod length perms = 0"
      using less.hyps [OF _ p(2) 2(1,2)] by auto
    then show ?thesis using step 2 by auto
  next
    case 3
    moreover have "Suc t mod length perms = 0" using less.prems(4) 3(2) by (simp add: mod_Suc)
    moreover have "place_round m (length perms) perms (i + 1) st1 = Some st1"
      unfolding 3(2) by (simp add: place_round.simps [of m "length perms" perms "length perms" st1])
    ultimately show ?thesis using step p(2) by auto
  qed
qed

lemma place_all_ends:
  assumes rows: "rows_ok m perms" and n: "0 < length perms"
  shows "populated m perms t st \<Longrightarrow> t = m \<or> t mod length perms = 0 \<Longrightarrow>
    \<exists>st'. place_all m (length perms) perms st = Some st' \<and> populated m perms m st'"
proof (induction "m - t" arbitrary: t st rule: less_induct)
  case less
  have cnt: "count st = t" "t \<le> m" using less.prems(1) by (simp_all add: populated_def)
  show ?case
  proof (cases "t = m")
    case True
    then show ?thesis using less.prems(1) cnt by (simp add: place_all.simps)
  next
    case False
    then have "t < m" "t mod length perms = 0" using less.prems(2) cnt(2) by simp_all
    then obtain st1 t1 where r: "place_round m (length perms) perms 0 st = Some st1"
        "populated m perms t1 st1" "t < t1" "t1 = m \<or> t1 mod length perms = 0"
      using place_round_step [OF rows less.prems(1) \<open>t < m\<close> n \<open>t mod length perms = 0\<close>] by auto
    then have "m - t1 < m - t" using \<open>t < m\<close> by simp
    from less.hyps [OF this r(2,4)] show ?thesis
      using \<open>t < m\<close> cnt r(1) by (simp add: place_all.simps [of _ _ _ st])
  qed
qed

text \<open>
  The table is complete: every slot holds a backend, and the slots are shared out as evenly as
  their number allows, the first backends getting the remainder.
\<close>

lemma populate_table_complete:
  assumes rows: "rows_ok m perms" and n: "0 < length perms" and c: "c = replicate m (-1)"
  obtains tab where "populate_table m perms c = Some tab" "length tab = m"
    "\<And>p. p < m \<Longrightarrow> 0 \<le> tab ! p \<and> tab ! p < int (length perms)"
    "\<And>i. i < length perms \<Longrightarrow>
       card (slots_of tab m i) = m div length perms + (if i < m mod length perms then 1 else 0)"
proof -
  let ?st = "\<lparr>next_index = replicate (length perms) 0, tmp_lookup = replicate m (-1),
       curr_lookup = c, count = 0\<rparr>"
  have "populated m perms 0 ?st" by (rule populated_start) (simp_all add: c)
  then obtain st where st: "place_all m (length perms) perms ?st = Some st" "populated m perms m st"
    using place_all_ends [OF rows n, of 0 ?st] by auto
  have tmp: "length (curr_lookup st) = m" "\<And>p. p < m \<Longrightarrow> curr_lookup st ! p = tmp_lookup st ! p"
      "\<And>p. p < m \<Longrightarrow> tmp_lookup st ! p < int (length perms)" "card (filled (tmp_lookup st) m) = m"
      "\<And>i. i < length perms \<Longrightarrow> card (slots_of (tmp_lookup st) m i) = turns (length perms) i m"
    using st(2) by (simp_all add: populated_def)
  have "filled (tmp_lookup st) m = {..<m}"
    using tmp(4) by (intro card_subset_eq) (auto simp: filled_def)
  then have "0 \<le> tmp_lookup st ! p" if "p < m" for p using that by (auto simp: filled_def)
  moreover have "slots_of (curr_lookup st) m i = slots_of (tmp_lookup st) m i" for i
    using tmp(2) by (auto simp: slots_of_def)
  ultimately show ?thesis using that [of "curr_lookup st"] st(1) tmp by (simp add: populate_table_def turns_eq)
qed

text \<open>The size the program uses.\<close>

definition HASHRING_SMALL :: nat where "HASHRING_SMALL = 65537"

lemma no_small_divisor: "list_all (\<lambda>d. 65537 mod d \<noteq> (0 :: int)) [2..256]"
  by code_simp

lemma small_divisor: "2 \<le> d \<Longrightarrow> d \<le> 256 \<Longrightarrow> \<not> d dvd (65537 :: nat)"
proof
  assume d: "2 \<le> d" "d \<le> 256" "d dvd (65537 :: nat)"
  then have "int d \<in> set [2..256]" by (simp only: set_upto atLeastAtMost_iff) linarith
  then have "65537 mod int d \<noteq> 0"
    by (rule bspec [OF no_small_divisor [unfolded list_all_iff], of "int d"])
  moreover have "int d dvd int 65537" using d(3) by (simp only: of_nat_dvd_iff)
  ultimately show False by (simp add: dvd_eq_mod_eq_0)
qed

lemma coprime_size_small: "coprime_size HASHRING_SMALL"
  unfolding coprime_size_def
proof (intro conjI allI impI)
  fix k :: nat assume k: "0 < k" "k < HASHRING_SMALL"
  define d where "d = gcd k HASHRING_SMALL"
  have d: "d dvd 65537" "d \<le> k" "0 < d"
    using k by (auto simp: d_def HASHRING_SMALL_def intro: gcd_le1_nat)
  then obtain e where e: "65537 = d * e" by (auto simp: dvd_def)
  have "d = 1"
  proof (rule ccontr)
    assume "d \<noteq> 1"
    then have "2 \<le> d" using d(3) by simp
    have "2 \<le> e"
    proof (rule ccontr)
      assume "\<not> 2 \<le> e"
      then have "e = 0 \<or> e = 1" by auto
      then show False using e d(2) k(2) by (auto simp: HASHRING_SMALL_def)
    qed
    have "d \<le> 256 \<or> e \<le> 256"
    proof (rule ccontr)
      assume "\<not> ?thesis"
      then have "257 * 257 \<le> d * e" by (intro mult_le_mono) simp_all
      then show False using e by simp
    qed
    then show False
      using small_divisor \<open>2 \<le> d\<close> \<open>2 \<le> e\<close> d(1) dvd_triv_right [of e d, folded e] by blast
  qed
  then show "coprime k HASHRING_SMALL" by (simp add: d_def coprime_iff_gcd_eq_1)
qed (simp add: HASHRING_SMALL_def)

end
