(* ===== verification/Xxh3.thy ===== *)
theory Xxh3
  imports Prelude
begin

section \<open>The backend hash\<close>

text \<open>
  The part of \<open>controlplane/include/algorithm/xxhash.h\<close> that \<open>hashBackend1\<close> and
  \<open>hashBackend2\<close> run: \<open>XXH3_64bits_withSeed\<close> of a 20-byte input takes the branch for 17 to 128
  bytes. Both the 128-bit and the portable multiplication are modelled, and both the unrolled
  and the small variant of the branch.
\<close>

definition XXH_PRIME64_1 :: u64 where "XXH_PRIME64_1 = 0x9E3779B185EBCA87"
definition PRIME_MX1 :: u64 where "PRIME_MX1 = 0x165667919E3779F9"

definition XXH3_kSecret :: bytes where
  "XXH3_kSecret =
    [0xb8, 0xfe, 0x6c, 0x39, 0x23, 0xa4, 0x4b, 0xbe, 0x7c, 0x01, 0x81, 0x2c, 0xf7, 0x21, 0xad, 0x1c,
     0xde, 0xd4, 0x6d, 0xe9, 0x83, 0x90, 0x97, 0xdb, 0x72, 0x40, 0xa4, 0xa4, 0xb7, 0xb3, 0x67, 0x1f,
     0xcb, 0x79, 0xe6, 0x4e, 0xcc, 0xc0, 0xe5, 0x78, 0x82, 0x5a, 0xd0, 0x7d, 0xcc, 0xff, 0x72, 0x21,
     0xb8, 0x08, 0x46, 0x74, 0xf7, 0x43, 0x24, 0x8e, 0xe0, 0x35, 0x90, 0xe6, 0x81, 0x3a, 0x26, 0x4c,
     0x3c, 0x28, 0x52, 0xbb, 0x91, 0xc3, 0x00, 0xcb, 0x88, 0xd0, 0x65, 0x8b, 0x1b, 0x53, 0x2e, 0xa3,
     0x71, 0x64, 0x48, 0x97, 0xa2, 0x0d, 0xf9, 0x4e, 0x38, 0x19, 0xef, 0x46, 0xa9, 0xde, 0xac, 0xd8,
     0xa8, 0xfa, 0x76, 0x3f, 0xe3, 0x9c, 0x34, 0x3f, 0xf9, 0xdc, 0xbb, 0xc7, 0xc7, 0x0b, 0x4f, 0x1d,
     0x8a, 0x51, 0xe0, 0x4b, 0xcd, 0xb4, 0x59, 0x31, 0xc8, 0x9f, 0x7e, 0xc9, 0xd9, 0x78, 0x73, 0x64,
     0xea, 0xc5, 0xac, 0x83, 0x34, 0xd3, 0xeb, 0xc3, 0xc5, 0x81, 0xa0, 0xff, 0xfa, 0x13, 0x63, 0xeb,
     0x17, 0x0d, 0xdd, 0x51, 0xb7, 0xf0, 0xda, 0x49, 0xd3, 0x16, 0x55, 0x26, 0x29, 0xd4, 0x68, 0x9e,
     0x2b, 0x16, 0xbe, 0x58, 0x7d, 0x47, 0xa1, 0xfc, 0x8f, 0xf8, 0xb8, 0xd1, 0x7a, 0xd0, 0x31, 0xce,
     0x45, 0xcb, 0x3a, 0x8f, 0x95, 0x16, 0x04, 0x28, 0xaf, 0xd7, 0xfb, 0xca, 0xbb, 0x4b, 0x40, 0x7e]"

text \<open>\<open>XXH_readLE64(base + off)\<close>.\<close>

definition readLE64 :: "bytes \<Rightarrow> nat \<Rightarrow> u64" where
  "readLE64 base off = foldr (\<lambda>b acc. ucast b OR push_bit 8 acc) (take 8 (drop off base)) 0"

subsection \<open>64 by 64 to 128 bits\<close>

record hash128 =
  low64 :: u64
  high64 :: u64

text \<open>With \<open>__uint128_t\<close>.\<close>

definition mult64to128 :: "u64 \<Rightarrow> u64 \<Rightarrow> hash128" where
  "mult64to128 lhs rhs =
     (let product = (ucast lhs :: 128 word) * ucast rhs
      in \<lparr>low64 = ucast product, high64 = ucast (drop_bit 64 product)\<rparr>)"

text \<open>The portable scalar method; \<open>XXH_mult32to64\<close> truncates its operands to 32 bits.\<close>

definition mult32to64 :: "u64 \<Rightarrow> u64 \<Rightarrow> u64" where
  "mult32to64 x y = (ucast (ucast x :: u32) :: u64) * ucast (ucast y :: u32)"

definition mult64to128_portable :: "u64 \<Rightarrow> u64 \<Rightarrow> hash128" where
  "mult64to128_portable lhs rhs =
     (let lo_lo = mult32to64 (lhs AND 0xFFFFFFFF) (rhs AND 0xFFFFFFFF);
          hi_lo = mult32to64 (drop_bit 32 lhs) (rhs AND 0xFFFFFFFF);
          lo_hi = mult32to64 (lhs AND 0xFFFFFFFF) (drop_bit 32 rhs);
          hi_hi = mult32to64 (drop_bit 32 lhs) (drop_bit 32 rhs);
          cross = drop_bit 32 lo_lo + (hi_lo AND 0xFFFFFFFF) + lo_hi;
          upper = drop_bit 32 hi_lo + drop_bit 32 cross + hi_hi;
          lower = push_bit 32 cross OR (lo_lo AND 0xFFFFFFFF)
      in \<lparr>low64 = lower, high64 = upper\<rparr>)"

definition mul128_fold64 :: "u64 \<Rightarrow> u64 \<Rightarrow> u64" where
  "mul128_fold64 lhs rhs =
     (let product = mult64to128 lhs rhs in low64 product XOR high64 product)"

subsection \<open>Mixing\<close>

definition xorshift64 :: "u64 \<Rightarrow> nat \<Rightarrow> u64" where
  "xorshift64 v64 shift = v64 XOR drop_bit shift v64"

definition xxh3_avalanche :: "u64 \<Rightarrow> u64" where
  "xxh3_avalanche h64 =
     (let h64 = xorshift64 h64 37;
          h64 = h64 * PRIME_MX1;
          h64 = xorshift64 h64 32
      in h64)"

text \<open>Input and secret are pointers: a byte list and an offset.\<close>

definition xxh3_mix16B :: "bytes \<Rightarrow> nat \<Rightarrow> bytes \<Rightarrow> nat \<Rightarrow> u64 \<Rightarrow> u64" where
  "xxh3_mix16B input i secret s seed64 =
     (let input_lo = readLE64 input i;
          input_hi = readLE64 input (i + 8)
      in mul128_fold64 (input_lo XOR (readLE64 secret s + seed64))
                       (input_hi XOR (readLE64 secret (s + 8) - seed64)))"

definition xxh3_len_17to128_64b :: "bytes \<Rightarrow> bytes \<Rightarrow> u64 \<Rightarrow> u64" where
  "xxh3_len_17to128_64b input secret seed =
     (let len = length input;
          mix = (\<lambda>i s. xxh3_mix16B input i secret s seed);
          acc = of_nat len * XXH_PRIME64_1;
          acc = (if len > 32
                 then (let acc = (if len > 64
                                  then (let acc = (if len > 96 then acc + mix 48 96 + mix (len - 64) 112
                                                   else acc)
                                        in acc + mix 32 64 + mix (len - 48) 80)
                                  else acc)
                       in acc + mix 16 32 + mix (len - 32) 48)
                 else acc);
          acc = acc + mix 0 0;
          acc = acc + mix (len - 16) 16
      in xxh3_avalanche acc)"

text \<open>The variant for \<open>XXH_SIZE_OPT >= 1\<close>: \<open>do { ... } while (i-- != 0)\<close>.\<close>

fun xxh3_small_loop :: "bytes \<Rightarrow> bytes \<Rightarrow> u64 \<Rightarrow> nat \<Rightarrow> u64 \<Rightarrow> u64" where
  "xxh3_small_loop input secret seed 0 acc =
     acc + xxh3_mix16B input 0 secret 0 seed
         + xxh3_mix16B input (length input - 16) secret 16 seed"
| "xxh3_small_loop input secret seed (Suc i) acc =
     xxh3_small_loop input secret seed i
       (acc + xxh3_mix16B input (16 * Suc i) secret (32 * Suc i) seed
            + xxh3_mix16B input (length input - 16 * (Suc i + 1)) secret (32 * Suc i + 16) seed)"

definition xxh3_len_17to128_small :: "bytes \<Rightarrow> bytes \<Rightarrow> u64 \<Rightarrow> u64" where
  "xxh3_len_17to128_small input secret seed =
     xxh3_avalanche
       (xxh3_small_loop input secret seed ((length input - 1) div 32) (of_nat (length input) * XXH_PRIME64_1))"

subsection \<open>The portable multiplication is the multiplication\<close>

lemma unat_and_32: "unat (w AND 0xFFFFFFFF :: u64) = unat w mod 4294967296"
proof -
  have "w AND 0xFFFFFFFF = take_bit 32 w" by (simp add: take_bit_eq_mask mask_eq_exp_minus_1)
  also have "unat (take_bit 32 w) = take_bit 32 (unat w)" by (rule unsigned_take_bit_eq)
  finally show ?thesis by (simp only: take_bit_eq_mod) simp
qed

lemma unat_drop_32: "unat (drop_bit 32 w :: u64) = unat w div 4294967296"
  by (simp add: unat_drop_bit_eq drop_bit_eq_div unat_div)

lemma u64_bound: "unat (w :: u64) < 18446744073709551616"
  using unsigned_less [of w, where ?'a = nat] by simp

lemma unat_add64: "unat a + unat b < 18446744073709551616 \<Longrightarrow> unat (a + b :: u64) = unat a + unat b"
  by (simp add: unat_word_ariths)

lemma product_bound: "a < 4294967296 \<Longrightarrow> b < (4294967296 :: nat) \<Longrightarrow> a * b \<le> 18446744065119617025"
  using mult_le_mono [of a 4294967295 b 4294967295] by simp

lemma unat_mult32to64:
  assumes "unat x < 4294967296" "unat y < 4294967296"
  shows "unat (mult32to64 x y) = unat x * unat y"
proof -
  have u: "unat (ucast (ucast w :: u32) :: u64) = unat w" if "unat w < 4294967296" for w :: u64
    using that by (simp only: unsigned_ucast_eq take_bit_eq_mod) (simp add: unat_mod)
  show ?thesis
    using product_bound [OF assms] u [OF assms(1)] u [OF assms(2)]
    by (simp add: mult32to64_def unat_word_ariths)
qed

lemma mask32: "0xFFFFFFFF = (mask 32 :: u64)"
  by (simp add: mask_eq_exp_minus_1)

lemma unat_push_32: "unat (push_bit 32 w :: u64) = 4294967296 * (unat w mod 4294967296)"
proof -
  have "unat (push_bit 32 w) = take_bit 64 (unat w * 4294967296)"
    by (subst unsigned_push_bit_eq) (simp add: push_bit_eq_mult)
  also have "\<dots> = (4294967296 * unat w) mod (4294967296 * 4294967296)"
    by (simp only: take_bit_eq_mod) (simp add: mult.commute)
  also have "\<dots> = 4294967296 * (unat w mod 4294967296)" by (rule mult_mod_right [symmetric])
  finally show ?thesis .
qed

text \<open>The schoolbook product of two numbers of two digits, with the carries of the code.\<close>

lemma schoolbook:
  fixes B a0 a1 b0 b1 :: nat
  defines "c \<equiv> a0 * b0 div B + a1 * b0 mod B + a0 * b1"
  shows "(B * a1 + a0) * (B * b1 + b0)
    = B * B * (a1 * b0 div B + c div B + a1 * b1) + (B * (c mod B) + a0 * b0 mod B)"
proof -
  define p1 p0 h1 h0 where d: "p1 = a0 * b0 div B" "p0 = a0 * b0 mod B" "h1 = a1 * b0 div B" "h0 = a1 * b0 mod B"
  have p: "a0 * b0 = B * p1 + p0" and h: "a1 * b0 = B * h1 + h0" by (simp_all add: d)
  have c: "p1 + h0 + a0 * b1 = B * (c div B) + c mod B" by (simp add: c_def d)
  have "(B * a1 + a0) * (B * b1 + b0) = B * B * (a1 * b1) + B * (a1 * b0) + B * (a0 * b1) + a0 * b0"
    by (simp add: algebra_simps)
  also have "\<dots> = B * B * (a1 * b1 + h1) + B * (p1 + h0 + a0 * b1) + p0"
    unfolding p h by (simp add: algebra_simps)
  also have "\<dots> = B * B * (h1 + c div B + a1 * b1) + (B * (c mod B) + p0)"
    unfolding c by (simp only: algebra_simps)
  finally show ?thesis by (simp only: d)
qed

lemma push_or_and_32: "unat (push_bit 32 c OR (l AND 0xFFFFFFFF) :: u64) = 4294967296 * (unat c mod 4294967296) + unat l mod 4294967296"
proof -
  have "push_bit 32 c OR (l AND 0xFFFFFFFF) = push_bit 32 c + (l AND 0xFFFFFFFF)"
    by (rule disjunctive_add [symmetric]) (auto simp: mask32 bit_simps)
  moreover have "unat c mod 4294967296 < 4294967296" "unat l mod 4294967296 < 4294967296" by simp_all
  ultimately show ?thesis by (simp add: unat_add64 unat_push_32 unat_and_32)
qed

text \<open>Nothing overflows on the way.\<close>

lemma portable_halves:
  fixes lhs rhs :: u64
  defines "a0 \<equiv> unat lhs mod 4294967296" and "a1 \<equiv> unat lhs div 4294967296"
    and "b0 \<equiv> unat rhs mod 4294967296" and "b1 \<equiv> unat rhs div 4294967296"
  defines "c \<equiv> a0 * b0 div 4294967296 + a1 * b0 mod 4294967296 + a0 * b1"
  shows "unat (high64 (mult64to128_portable lhs rhs)) = a1 * b0 div 4294967296 + c div 4294967296 + a1 * b1"
    "unat (low64 (mult64to128_portable lhs rhs)) = 4294967296 * (c mod 4294967296) + a0 * b0 mod 4294967296"
proof -
  have lt: "a0 < 4294967296" "a1 < 4294967296" "b0 < 4294967296" "b1 < 4294967296"
    using u64_bound [of lhs] u64_bound [of rhs]
    by (simp_all add: a0_def a1_def b0_def b1_def less_mult_imp_div_less)
  have mult: "unat (mult32to64 (lhs AND 0xFFFFFFFF) (rhs AND 0xFFFFFFFF)) = a0 * b0"
      "unat (mult32to64 (drop_bit 32 lhs) (rhs AND 0xFFFFFFFF)) = a1 * b0"
      "unat (mult32to64 (lhs AND 0xFFFFFFFF) (drop_bit 32 rhs)) = a0 * b1"
      "unat (mult32to64 (drop_bit 32 lhs) (drop_bit 32 rhs)) = a1 * b1"
    using lt by (simp_all add: unat_mult32to64 unat_and_32 unat_drop_32 a0_def a1_def b0_def b1_def)
  have le: "a0 * b0 \<le> 18446744065119617025" "a1 * b0 \<le> 18446744065119617025"
      "a0 * b1 \<le> 18446744065119617025" "a1 * b1 \<le> 18446744065119617025"
    using lt product_bound by simp_all
  have small: "a0 * b0 div 4294967296 < 4294967295" "a1 * b0 div 4294967296 < 4294967295"
      "a1 * b0 mod 4294967296 < 4294967296"
    using le(1,2) by (simp_all add: less_mult_imp_div_less)
  have cross: "unat (drop_bit 32 (mult32to64 (lhs AND 0xFFFFFFFF) (rhs AND 0xFFFFFFFF))
        + (mult32to64 (drop_bit 32 lhs) (rhs AND 0xFFFFFFFF) AND 0xFFFFFFFF)
        + mult32to64 (lhs AND 0xFFFFFFFF) (drop_bit 32 rhs)) = c"
    using small le(3) by (simp add: unat_add64 unat_drop_32 unat_and_32 mult c_def)
  have "c < 18446744073709551616" using u64_bound by (metis cross)
  then have "c div 4294967296 < 4294967296" by (simp add: less_mult_imp_div_less)
  then show "unat (high64 (mult64to128_portable lhs rhs)) = a1 * b0 div 4294967296 + c div 4294967296 + a1 * b1"
    using small(2) le(4) by (simp add: mult64to128_portable_def Let_def unat_add64 unat_drop_32 cross mult)
  show "unat (low64 (mult64to128_portable lhs rhs)) = 4294967296 * (c mod 4294967296) + a0 * b0 mod 4294967296"
    by (simp add: mult64to128_portable_def Let_def push_or_and_32 cross mult)
qed

lemma portable_product:
  fixes lhs rhs :: u64
  defines "r \<equiv> mult64to128_portable lhs rhs"
  shows "unat lhs * unat rhs = 18446744073709551616 * unat (high64 r) + unat (low64 r)"
  using schoolbook [of 4294967296 "unat lhs div 4294967296" "unat lhs mod 4294967296"
      "unat rhs div 4294967296" "unat rhs mod 4294967296"]
  by (simp add: r_def portable_halves)

lemma portable_low: "unat (low64 (mult64to128_portable lhs rhs)) = unat lhs * unat rhs mod 18446744073709551616"
  using u64_bound [of "low64 (mult64to128_portable lhs rhs)"] by (simp add: portable_product)

lemma portable_high: "unat (high64 (mult64to128_portable lhs rhs)) = unat lhs * unat rhs div 18446744073709551616"
  using u64_bound [of "low64 (mult64to128_portable lhs rhs)"] by (simp add: portable_product)

lemma unat_product128:
  "unat ((ucast (lhs :: u64) :: 128 word) * ucast (rhs :: u64)) = unat lhs * unat rhs"
proof -
  have "unat lhs * unat rhs \<le> 18446744073709551615 * 18446744073709551615"
    using u64_bound [of lhs] u64_bound [of rhs] by (intro mult_le_mono) simp_all
  moreover have "unat (ucast w :: 128 word) = unat w" for w :: u64
    using u64_bound [of w] by (simp only: unsigned_ucast_eq take_bit_eq_mod) simp
  ultimately show ?thesis by (simp add: unat_word_ariths)
qed

lemma unat_halves:
  "unat (ucast (w :: 128 word) :: u64) = unat w mod 18446744073709551616"
  "unat (ucast (drop_bit 64 w) :: u64) = unat w div 18446744073709551616 mod 18446744073709551616"
  by (simp_all only: unsigned_ucast_eq take_bit_eq_mod unat_drop_bit_eq) (simp_all add: drop_bit_eq_div)

lemma mult64to128_product:
  "unat (low64 (mult64to128 lhs rhs)) = unat lhs * unat rhs mod 18446744073709551616"
  "unat (high64 (mult64to128 lhs rhs)) = unat lhs * unat rhs div 18446744073709551616"
proof -
  have "unat lhs * unat rhs div 18446744073709551616 < 18446744073709551616"
    using u64_bound [of lhs] u64_bound [of rhs] mult_le_mono [of "unat lhs" 18446744073709551615 "unat rhs" 18446744073709551615]
    by (simp add: less_mult_imp_div_less)
  then show "unat (high64 (mult64to128 lhs rhs)) = unat lhs * unat rhs div 18446744073709551616"
    by (simp only: mult64to128_def Let_def hash128.select_convs unat_halves(2) unat_product128 mod_less)
  show "unat (low64 (mult64to128 lhs rhs)) = unat lhs * unat rhs mod 18446744073709551616"
    by (simp only: mult64to128_def Let_def hash128.simps unat_halves unat_product128)
qed

lemma mult64to128_is_portable: "mult64to128 lhs rhs = mult64to128_portable lhs rhs"
proof -
  have "low64 (mult64to128 lhs rhs) = low64 (mult64to128_portable lhs rhs)"
    by (rule unsigned_word_eqI [where ?'a = nat]) (simp only: mult64to128_product portable_low)
  moreover have "high64 (mult64to128 lhs rhs) = high64 (mult64to128_portable lhs rhs)"
    by (rule unsigned_word_eqI [where ?'a = nat]) (simp only: mult64to128_product portable_high)
  ultimately show ?thesis by (rule hash128.equality) simp
qed

subsection \<open>The unrolled branch is the loop\<close>

lemma small_is_unrolled:
  assumes "17 \<le> length input" "length input \<le> 128"
  shows "xxh3_len_17to128_small input secret seed = xxh3_len_17to128_64b input secret seed"
proof -
  let ?i = "(length input - 1) div 32"
  consider "length input \<le> 32" "?i = 0"
    | "32 < length input" "length input \<le> 64" "?i = Suc 0"
    | "64 < length input" "length input \<le> 96" "?i = Suc (Suc 0)"
    | "96 < length input" "?i = Suc (Suc (Suc 0))"
    using assms by linarith
  then show ?thesis
    by cases (simp_all only: xxh3_len_17to128_small_def xxh3_len_17to128_64b_def Let_def
        xxh3_small_loop.simps, simp_all)
qed

end
