(* ===== verification/Bpf_Maps.thy ===== *)
theory Bpf_Maps
  imports Prelude
begin

section \<open>BPF maps\<close>

text \<open>
  The map types \<open>xdp/balancer.bpf.c\<close> declares, with the helper calls the program makes on
  them. The helpers are the run-time library of a BPF program; their documented behaviour is:

  \<^item> \<open>BPF_MAP_TYPE_ARRAY\<close>: all indices below \<open>max_entries\<close> exist and start at zero; a lookup
    or an update beyond them fails. A map is a function from indices to values, and every
    operation takes the map's \<open>max_entries\<close>.
  \<^item> \<open>BPF_MAP_TYPE_PERCPU_ARRAY\<close>: one such array per CPU; the program sees the one of the CPU it
    runs on.
  \<^item> \<open>BPF_MAP_TYPE_HASH\<close>: at most \<open>max_entries\<close> keys; an update (\<open>BPF_ANY\<close>) of a present key
    replaces its value, an update of an absent key inserts it and fails when the map is full.
    A map is an association list in iteration order.
  \<^item> \<open>BPF_MAP_TYPE_LRU_HASH\<close>: the same, but inserting into a full map first evicts an entry. Which
    one the kernel evicts is a parameter (\<open>victim\<close>, a position in the list).

  A lookup in C returns a pointer into the map; a write through it is a replacement of the
  value of a present key.
\<close>

subsection \<open>Array maps\<close>

type_synonym 'v bpf_array = "nat \<Rightarrow> 'v"
type_synonym 'v bpf_percpu_array = "nat \<Rightarrow> nat \<Rightarrow> 'v"

definition array_lookup :: "nat \<Rightarrow> 'v bpf_array \<Rightarrow> u32 \<Rightarrow> 'v option" where
  "array_lookup max_entries m i = (if unat i < max_entries then Some (m (unat i)) else None)"

definition array_update :: "nat \<Rightarrow> 'v bpf_array \<Rightarrow> u32 \<Rightarrow> 'v \<Rightarrow> bool \<times> 'v bpf_array" where
  "array_update max_entries m i v =
     (if unat i < max_entries then (True, m(unat i := v)) else (False, m))"

text \<open>\<open>p = lookup(m, &i); if (p) *p = f(*p);\<close>\<close>

definition array_modify :: "nat \<Rightarrow> ('v \<Rightarrow> 'v) \<Rightarrow> u32 \<Rightarrow> 'v bpf_array \<Rightarrow> 'v bpf_array" where
  "array_modify max_entries f i m =
     (case array_lookup max_entries m i of
        None \<Rightarrow> m
      | Some v \<Rightarrow> m(unat i := f v))"

definition percpu_lookup :: "nat \<Rightarrow> 'v bpf_percpu_array \<Rightarrow> nat \<Rightarrow> u32 \<Rightarrow> 'v option" where
  "percpu_lookup max_entries m cpu i = array_lookup max_entries (m cpu) i"

definition percpu_modify ::
    "nat \<Rightarrow> nat \<Rightarrow> ('v \<Rightarrow> 'v) \<Rightarrow> u32 \<Rightarrow> 'v bpf_percpu_array \<Rightarrow> 'v bpf_percpu_array" where
  "percpu_modify max_entries cpu f i m = m(cpu := array_modify max_entries f i (m cpu))"

lemma array_lookup_modify [map_simps]:
  "array_lookup n (array_modify n f i m) j =
     (if i = j then map_option f (array_lookup n m j) else array_lookup n m j)"
  by (auto simp: array_lookup_def array_modify_def dest: unsigned_word_eqI)

lemma array_modify_apply [map_simps]:
  "array_modify n f i m j = (if j = unat i \<and> j < n then f (m j) else m j)"
  by (auto simp: array_lookup_def array_modify_def)

lemma percpu_modify_apply [map_simps]:
  "percpu_modify n cpu f i m c j =
     (if c = cpu \<and> j = unat i \<and> j < n then f (m c j) else m c j)"
  by (auto simp: percpu_modify_def array_modify_apply)

subsection \<open>Hash maps\<close>

type_synonym ('k, 'v) bpf_hash = "('k \<times> 'v) list"

definition hash_lookup :: "('k, 'v) bpf_hash \<Rightarrow> 'k \<Rightarrow> 'v option" where
  "hash_lookup m k = map_of m k"

definition hash_update :: "nat \<Rightarrow> ('k, 'v) bpf_hash \<Rightarrow> 'k \<Rightarrow> 'v \<Rightarrow> bool \<times> ('k, 'v) bpf_hash" where
  "hash_update max_entries m k v =
     (if map_of m k \<noteq> None \<or> length m < max_entries
      then (True, AList.update k v m) else (False, m))"

definition hash_delete :: "('k, 'v) bpf_hash \<Rightarrow> 'k \<Rightarrow> ('k, 'v) bpf_hash" where
  "hash_delete m k = AList.delete k m"

text \<open>A write through the pointer a lookup returned.\<close>

definition hash_write :: "('k, 'v) bpf_hash \<Rightarrow> 'k \<Rightarrow> 'v \<Rightarrow> ('k, 'v) bpf_hash" where
  "hash_write m k v = (if map_of m k \<noteq> None then AList.update k v m else m)"

text \<open>\<open>bpf_map_get_next_key(m, NULL, &k)\<close>: the first key, or failure on an empty map.\<close>

definition hash_first_key :: "('k, 'v) bpf_hash \<Rightarrow> 'k option" where
  "hash_first_key m = (case m of [] \<Rightarrow> None | (k, _) # _ \<Rightarrow> Some k)"

definition lru_update ::
    "nat \<Rightarrow> (('k, 'v) bpf_hash \<Rightarrow> nat) \<Rightarrow> ('k, 'v) bpf_hash \<Rightarrow> 'k \<Rightarrow> 'v \<Rightarrow> bool \<times> ('k, 'v) bpf_hash" where
  "lru_update max_entries victim m k v =
     (if map_of m k \<noteq> None \<or> length m < max_entries
      then (True, AList.update k v m)
      else (let i = victim m mod length m
            in (True, take i m @ drop (Suc i) m @ [(k, v)])))"

definition hash_ok :: "nat \<Rightarrow> ('k, 'v) bpf_hash \<Rightarrow> bool" where
  "hash_ok max_entries m \<longleftrightarrow> distinct (map fst m) \<and> length m \<le> max_entries"

subsection \<open>The interface the program relies on\<close>

text \<open>
  What every keyed map promises the program, LRU or not: an update that reports success is
  seen by the next lookup and invents nothing, a write through a pointer and a deletion touch
  one key only.
\<close>

locale bpf_keyed_map =
  fixes upd :: "'m \<Rightarrow> 'k \<Rightarrow> 'v \<Rightarrow> bool \<times> 'm"
    and lkp :: "'m \<Rightarrow> 'k \<Rightarrow> 'v option"
    and del :: "'m \<Rightarrow> 'k \<Rightarrow> 'm"
    and wr :: "'m \<Rightarrow> 'k \<Rightarrow> 'v \<Rightarrow> 'm"
    and ok :: "'m \<Rightarrow> bool"
  assumes upd_hit: "ok m \<Longrightarrow> upd m k v = (True, m') \<Longrightarrow> lkp m' k = Some v"
    and upd_fail: "ok m \<Longrightarrow> upd m k v = (False, m') \<Longrightarrow> m' = m"
    and upd_invents_nothing:
      "ok m \<Longrightarrow> upd m k v = (r, m') \<Longrightarrow> j \<noteq> k \<Longrightarrow> lkp m' j = Some w \<Longrightarrow> lkp m j = Some w"
    and upd_ok: "ok m \<Longrightarrow> upd m k v = (r, m') \<Longrightarrow> ok m'"
    and del_hit: "ok m \<Longrightarrow> lkp (del m k) k = None"
    and del_miss: "ok m \<Longrightarrow> j \<noteq> k \<Longrightarrow> lkp (del m k) j = lkp m j"
    and del_ok: "ok m \<Longrightarrow> ok (del m k)"
    and wr_hit: "ok m \<Longrightarrow> lkp m k \<noteq> None \<Longrightarrow> lkp (wr m k v) k = Some v"
    and wr_miss: "ok m \<Longrightarrow> j \<noteq> k \<Longrightarrow> lkp (wr m k v) j = lkp m j"
    and wr_ok: "ok m \<Longrightarrow> ok (wr m k v)"
begin

text \<open>A predicate on values is kept by every operation that stores values satisfying it.\<close>

lemma upd_all:
  assumes "ok m" and "upd m k v = (r, m')" and "P k v"
    and all: "\<And>j w. lkp m j = Some w \<Longrightarrow> P j w"
    and hit: "lkp m' j = Some w"
  shows "P j w"
proof (cases "j = k")
  case False
  with assms show ?thesis by (blast dest: upd_invents_nothing)
next
  case True
  show ?thesis
  proof (cases r)
    case True
    with assms upd_hit [of m k v m'] \<open>j = k\<close> show ?thesis by simp
  next
    case False
    with assms upd_fail [of m k v m'] show ?thesis by simp
  qed
qed

lemma del_all:
  assumes "ok m" and "\<And>j w. lkp m j = Some w \<Longrightarrow> P j w" and "lkp (del m k) j = Some w"
  shows "P j w"
  using assms by (cases "j = k") (simp_all add: del_hit del_miss)

lemma wr_all:
  assumes "ok m" and "P k v" and "\<And>j w. lkp m j = Some w \<Longrightarrow> P j w"
    and "lkp m k \<noteq> None" and "lkp (wr m k v) j = Some w"
  shows "P j w"
  using assms by (cases "j = k") (simp_all add: wr_hit wr_miss)

lemma upd_del_fresh: "ok m \<Longrightarrow> upd (del m k) k v = (True, m') \<Longrightarrow> lkp m' k = Some v"
  by (rule upd_hit [OF del_ok])

end

text \<open>A plain hash map adds that an update never loses another key.\<close>

locale bpf_exact_map = bpf_keyed_map +
  assumes upd_keeps: "ok m \<Longrightarrow> upd m k v = (r, m') \<Longrightarrow> j \<noteq> k \<Longrightarrow> lkp m' j = lkp m j"
    and upd_present: "ok m \<Longrightarrow> lkp m k \<noteq> None \<Longrightarrow> fst (upd m k v)"
begin

lemma upd_other: "ok m \<Longrightarrow> j \<noteq> k \<Longrightarrow> lkp (snd (upd m k v)) j = lkp m j"
  by (cases "upd m k v") (simp add: upd_keeps)

lemma upd_present_eq:
  "ok m \<Longrightarrow> lkp m k \<noteq> None \<Longrightarrow> lkp (snd (upd m k v)) j = (if j = k then Some v else lkp m j)"
  using upd_present [of m k v] upd_hit [of m k v] upd_other [of m j k v]
  by (cases "upd m k v") auto

end

subsection \<open>The model's maps implement the interface\<close>

lemma hash_update_lookup:
  assumes "hash_update n m k v = (r, m')"
  shows "hash_lookup m' j = (if r \<and> j = k then Some v else hash_lookup m j)"
  using assms by (auto simp: hash_update_def hash_lookup_def update_conv' split: if_splits)

lemma hash_update_fail: "hash_update n m k v = (False, m') \<Longrightarrow> m' = m"
  by (auto simp: hash_update_def split: if_splits)

lemma hash_update_present: "hash_lookup m k \<noteq> None \<Longrightarrow> fst (hash_update n m k v)"
  by (simp add: hash_update_def hash_lookup_def)

lemma hash_delete_lookup [map_simps]:
  "hash_lookup (hash_delete m k) j = (if j = k then None else hash_lookup m j)"
  by (simp add: hash_lookup_def hash_delete_def delete_conv')

lemma hash_write_lookup [map_simps]:
  "hash_lookup (hash_write m k v) j =
     (if j = k \<and> hash_lookup m k \<noteq> None then Some v else hash_lookup m j)"
  by (auto simp: hash_lookup_def hash_write_def update_conv')

lemma hash_ok_alist_update:
  assumes "hash_ok n m" and "map_of m k \<noteq> None \<or> length m < n"
  shows "hash_ok n (AList.update k v m)"
proof (cases "map_of m k")
  case None
  then show ?thesis using assms
    by (simp add: hash_ok_def update_keys_absent map_of_eq_None_iff)
next
  case (Some w)
  then show ?thesis using assms(1)
    by (simp add: hash_ok_def distinct_update length_update_present)
qed

lemma hash_ok_update: "hash_ok n m \<Longrightarrow> hash_update n m k v = (r, m') \<Longrightarrow> hash_ok n m'"
  using hash_ok_alist_update [of n m k v] by (auto simp: hash_update_def split: if_splits)

lemma hash_ok_delete [intro, simp]: "hash_ok n m \<Longrightarrow> hash_ok n (hash_delete m k)"
  unfolding hash_ok_def hash_delete_def
  by (meson distinct_delete length_delete_le order_trans)

lemma hash_ok_write [intro, simp]: "hash_ok n m \<Longrightarrow> hash_ok n (hash_write m k v)"
  using hash_ok_alist_update [of n m k v] by (auto simp: hash_write_def)

interpretation hm: bpf_exact_map "hash_update n" hash_lookup hash_delete hash_write "hash_ok n"
  for n
proof
  show "\<And>m k v. hash_lookup m k \<noteq> None \<Longrightarrow> fst (hash_update n m k v)"
    by (rule hash_update_present)
qed (auto simp: hash_update_lookup map_simps dest: hash_update_fail intro: hash_ok_update)

lemma map_of_cut:
  "distinct (map fst m) \<Longrightarrow> map_of (take i m @ drop (Suc i) m) j = Some w \<Longrightarrow> map_of m j = Some w"
proof (induction m arbitrary: i)
  case (Cons p m)
  show ?case
  proof (cases i)
    case 0
    then show ?thesis using Cons.prems
      by (auto dest: map_of_SomeD simp: image_iff)
  next
    case (Suc i')
    then show ?thesis using Cons.prems Cons.IH [of i'] by (auto split: if_splits)
  qed
qed simp

lemma lru_update_lookup:
  assumes "hash_ok n m" and "lru_update n victim m k v = (r, m')"
  shows "r" and "hash_lookup m' k = Some v"
    and "j \<noteq> k \<Longrightarrow> hash_lookup m' j = Some w \<Longrightarrow> hash_lookup m j = Some w"
proof -
  let ?i = "victim m mod length m"
  have cut: "map_of (take ?i m @ drop (Suc ?i) m) k' = Some x \<Longrightarrow> map_of m k' = Some x" for k' x
    using map_of_cut [of m ?i k' x] assms(1) by (simp add: hash_ok_def)
  show "r" using assms(2) by (auto simp: lru_update_def Let_def split: if_splits)
  show "hash_lookup m' k = Some v"
    using assms(2) cut [of k]
    by (auto simp: lru_update_def Let_def hash_lookup_def update_conv' map_add_def
        simp flip: append_assoc split: if_splits option.splits)
  show "j \<noteq> k \<Longrightarrow> hash_lookup m' j = Some w \<Longrightarrow> hash_lookup m j = Some w"
    using assms(2) cut [of j w]
    by (auto simp: lru_update_def Let_def hash_lookup_def update_conv' map_add_def
        simp flip: append_assoc split: if_splits option.splits)
qed

lemma hash_ok_lru_update:
  assumes ok: "hash_ok n m" and "0 < n" and upd: "lru_update n victim m k v = (r, m')"
  shows "hash_ok n m'"
proof (cases "map_of m k \<noteq> None \<or> length m < n")
  case True
  then show ?thesis using ok upd hash_ok_alist_update [of n m k v]
    by (auto simp: lru_update_def)
next
  case False
  let ?i = "victim m mod length m"
  have len: "length m = n" and fresh: "k \<notin> fst ` set m"
    using False ok by (auto simp: hash_ok_def map_of_eq_None_iff)
  with \<open>0 < n\<close> have i: "?i < length m" by (metis mod_less_divisor)
  have m': "m' = take ?i m @ drop (Suc ?i) m @ [(k, v)]"
    using False upd by (auto simp: lru_update_def Let_def)
  have "distinct (map fst (take ?i m @ drop (Suc ?i) m))"
    using ok i by (simp add: hash_ok_def flip: take_map drop_map)
      (metis (no_types, lifting) distinct_append distinct_drop distinct_take
        length_map less_or_eq_imp_le set_take_disj_set_drop_if_distinct Suc_n_not_le_n nat_le_linear)
  moreover have "k \<notin> fst ` set (take ?i m @ drop (Suc ?i) m)"
    using fresh by (auto dest: in_set_takeD in_set_dropD)
  ultimately show ?thesis using m' len i by (auto simp: hash_ok_def)
qed

interpretation lru: bpf_keyed_map "lru_update n victim" hash_lookup hash_delete hash_write
    "\<lambda>m. 0 < n \<and> hash_ok n m"
  for n victim
  by unfold_locales
    (auto simp: map_simps dest: lru_update_lookup(1,2) lru_update_lookup(3) hash_ok_lru_update)

end
