(* ===== verification/Balancer_State.thy ===== *)
theory Balancer_State
  imports Bpf_Maps
begin

section \<open>The state of the XDP program\<close>

text \<open>
  The structs and the maps \<open>xdp/balancer.bpf.c\<close> declares (lines 13 to 265), the environment of
  one run of the program, and the invariant of the maps.

  A union of an IPv4 and an IPv6 address is the 16 bytes it occupies: the IPv4 member is the
  first four of them, little-endian. Keys are compared by the kernel as bytes, so the padding
  of \<open>struct service_key\<close> is a field; \<open>__s32\<close> values are 32-bit words read with \<open>sint\<close>.
\<close>

definition BALANCER_RR :: u8 where "BALANCER_RR = 0x00"
definition BALANCER_WRR :: u8 where "BALANCER_WRR = 0x01"
definition BALANCER_CH :: u8 where "BALANCER_CH = 0x02"

definition TCP_STATE_TIMEOUT :: u64 where "TCP_STATE_TIMEOUT = 60000000000"
definition DDOS_WINDOW_NS :: u64 where "DDOS_WINDOW_NS = 10000000000"

definition IPPROTO_TCP :: u8 where "IPPROTO_TCP = 6"
definition IPPROTO_UDP :: u8 where "IPPROTO_UDP = 17"

lemmas balancer_alg_defs = BALANCER_RR_def BALANCER_WRR_def BALANCER_CH_def

subsection \<open>Structs\<close>

record service_key =
  vip6 :: bytes
  sk_port :: u16
  sk_protocol :: u8
  sk_ip_version :: u8
  sk_pad :: bytes

record service_info =
  backend_count :: u32
  backend_start_idx :: u32
  algorithm :: u8
  service_idx :: u32

record backend =
  be_addr :: bytes
  be_port :: u16
  mac :: bytes
  active :: u8
  be_ip_version :: u8
  weight :: u8

record wrr_state =
  current_index :: u32
  current_weight_counter :: u32

record ch_stats_data =
  total_lookups :: u64
  stable_lookups :: u64
  unstable_lookups :: u64
  merge_count :: u64
  update_count :: u64
  last_update_time :: u64

record session_state_key =
  src_ipv6 :: bytes
  dst_ipv6 :: bytes
  src_port :: u16
  dst_port :: u16

record session_state_val =
  ss_backend_idx :: u32
  ss_service_idx :: u32
  created :: u64
  timeout :: u64

record summary_packets_data =
  total_packets :: u64
  tcp_syn_packets :: u64
  prepared_packets :: u64
  connections :: u32
  total_bytes :: u64

record syn_counter =
  syn_count :: u64
  ack_count :: u64
  window_start :: u64
  sc_total_packets :: u64

record ddos_config =
  syn_threshold :: u32
  syn_ack_ratio :: u32
  global_syn_threshold :: u32
  ban_duration_ns :: u64

record global_syn_stats =
  gs_syn_count :: u64
  gs_window_start :: u64
  dropped_total :: u64

text \<open>The IPv4 views of the address unions.\<close>

definition vip4 :: "service_key \<Rightarrow> u32" where
  "vip4 k = le32 (take 4 (vip6 k))"

definition src_ipv4 :: "session_state_key \<Rightarrow> u32" where
  "src_ipv4 k = le32 (take 4 (src_ipv6 k))"

definition dst_ipv4 :: "session_state_key \<Rightarrow> u32" where
  "dst_ipv4 k = le32 (take 4 (dst_ipv6 k))"

text \<open>\<open>memset(&key, 0, sizeof key); key.vip4 = a\<close>, and the IPv6 \<open>memcpy\<close>.\<close>

definition addr_of_v4 :: "u32 \<Rightarrow> bytes" where
  "addr_of_v4 a = bytes32 a @ replicate 12 0"

lemma length_addr_of_v4 [simp]: "length (addr_of_v4 a) = 16"
  by (simp add: addr_of_v4_def)

lemma le32_addr_of_v4 [simp, byte_simps]: "le32 (take 4 (addr_of_v4 a)) = a"
  by (simp add: addr_of_v4_def)

subsection \<open>Maps\<close>

definition MAX_SERVICES :: nat where "MAX_SERVICES = 256"
definition MAX_BACKENDS :: nat where "MAX_BACKENDS = 1024"
definition MAX_CH_SLOTS :: nat where "MAX_CH_SLOTS = 65537"
definition MAX_CH_BACKENDS :: nat where "MAX_CH_BACKENDS = 257"
definition MAX_CH_CONFIG :: nat where "MAX_CH_CONFIG = 4"
definition MAX_SESSIONS :: nat where "MAX_SESSIONS = 65536"
definition MAX_SYN_TRACKER :: nat where "MAX_SYN_TRACKER = 65536"
definition MAX_BLACKLIST :: nat where "MAX_BLACKLIST = 16384"

lemmas max_defs = MAX_SERVICES_def MAX_BACKENDS_def MAX_CH_SLOTS_def MAX_CH_BACKENDS_def
  MAX_CH_CONFIG_def MAX_SESSIONS_def MAX_SYN_TRACKER_def MAX_BLACKLIST_def

record xdp_maps =
  services_first :: "(service_key, service_info) bpf_hash"
  services_second :: "(service_key, service_info) bpf_hash"
  atomic_index :: "u64 bpf_array"
  backends_first :: "backend bpf_array"
  backends_second :: "backend bpf_array"
  rr_index :: "(service_key, u32) bpf_hash"
  wrr_state_map :: "(service_key, wrr_state) bpf_hash"
  ch_curr_lookup :: "u32 bpf_array"
  ch_prev_lookup :: "u32 bpf_array"
  ch_backends :: "backend bpf_array"
  ch_config :: "u32 bpf_array"
  ch_stats_map :: "ch_stats_data bpf_array"
  tcp_session_state :: "(session_state_key, session_state_val) bpf_hash"
  backends_packets_stats :: "summary_packets_data bpf_percpu_array"
  services_packets_stats :: "summary_packets_data bpf_percpu_array"
  syn_tracker :: "(u32, syn_counter) bpf_hash"
  blacklist :: "(u32, u64) bpf_hash"
  ddos_cfg :: "ddos_config bpf_array"
  global_syn :: "global_syn_stats bpf_array"

text \<open>
  What the program gets from the kernel in one run: the CPU it runs on, the value
  \<open>bpf_ktime_get_ns\<close> returns at each of its three call sites (in \<open>ddos_check_v4\<close>, when
  \<open>find_tcp_backend\<close> finds a session, when it creates one), and the entry an LRU insertion
  evicts.
\<close>

record xdp_env =
  cpu :: nat
  ktime_ddos :: u64
  ktime_hit :: u64
  ktime_new :: u64
  lru_victim :: "(u32, syn_counter) bpf_hash \<Rightarrow> nat"

subsection \<open>Counters\<close>

definition count_packet :: "u32 \<Rightarrow> summary_packets_data \<Rightarrow> summary_packets_data" where
  "count_packet packet_len p =
     p\<lparr>total_packets := total_packets p + 1,
       prepared_packets := prepared_packets p + 1,
       total_bytes := total_bytes p + ucast packet_len\<rparr>"

definition backend_stats ::
    "xdp_env \<Rightarrow> (summary_packets_data \<Rightarrow> summary_packets_data) \<Rightarrow> u32 \<Rightarrow> xdp_maps \<Rightarrow> xdp_maps" where
  "backend_stats env f i st =
     st\<lparr>backends_packets_stats :=
          percpu_modify MAX_BACKENDS (cpu env) f i (backends_packets_stats st)\<rparr>"

definition service_stats ::
    "xdp_env \<Rightarrow> (summary_packets_data \<Rightarrow> summary_packets_data) \<Rightarrow> u32 \<Rightarrow> xdp_maps \<Rightarrow> xdp_maps" where
  "service_stats env f i st =
     st\<lparr>services_packets_stats :=
          percpu_modify MAX_SERVICES (cpu env) f i (services_packets_stats st)\<rparr>"

subsection \<open>The active half of the double buffer\<close>

definition services_map :: "xdp_maps \<Rightarrow> u64 \<Rightarrow> (service_key, service_info) bpf_hash" where
  "services_map st idx = (if idx = 0 then services_first st else services_second st)"

definition backends_map :: "xdp_maps \<Rightarrow> u64 \<Rightarrow> backend bpf_array" where
  "backends_map st idx = (if idx = 0 then backends_first st else backends_second st)"

text \<open>The maps as the loader creates them: hash maps empty, arrays zeroed.\<close>

definition zero_backend :: backend where
  "zero_backend = \<lparr>be_addr = replicate 16 0, be_port = 0, mac = replicate 6 0, active = 0,
     be_ip_version = 0, weight = 0\<rparr>"

definition zero_stats :: summary_packets_data where
  "zero_stats = \<lparr>total_packets = 0, tcp_syn_packets = 0, prepared_packets = 0,
     connections = 0, total_bytes = 0\<rparr>"

definition initial_maps :: xdp_maps where
  "initial_maps =
     \<lparr>services_first = [], services_second = [], atomic_index = (\<lambda>_. 0),
      backends_first = (\<lambda>_. zero_backend), backends_second = (\<lambda>_. zero_backend),
      rr_index = [], wrr_state_map = [],
      ch_curr_lookup = (\<lambda>_. 0), ch_prev_lookup = (\<lambda>_. 0), ch_backends = (\<lambda>_. zero_backend),
      ch_config = (\<lambda>_. 0),
      ch_stats_map = (\<lambda>_. \<lparr>total_lookups = 0, stable_lookups = 0, unstable_lookups = 0,
        merge_count = 0, update_count = 0, last_update_time = 0\<rparr>),
      tcp_session_state = [],
      backends_packets_stats = (\<lambda>_ _. zero_stats), services_packets_stats = (\<lambda>_ _. zero_stats),
      syn_tracker = [], blacklist = [],
      ddos_cfg = (\<lambda>_. \<lparr>syn_threshold = 0, syn_ack_ratio = 0, global_syn_threshold = 0,
        ban_duration_ns = 0\<rparr>),
      global_syn = (\<lambda>_. \<lparr>gs_syn_count = 0, gs_window_start = 0, dropped_total = 0\<rparr>)\<rparr>"

subsection \<open>The invariant of the maps\<close>

text \<open>
  No hash map holds a key twice or outgrows its capacity, backends carry 16-byte addresses and
  6-byte MAC addresses.
\<close>

definition backend_ok :: "backend \<Rightarrow> bool" where
  "backend_ok b \<longleftrightarrow> length (be_addr b) = 16 \<and> length (mac b) = 6"

definition maps_ok :: "xdp_maps \<Rightarrow> bool" where
  "maps_ok st \<longleftrightarrow>
     hash_ok MAX_SERVICES (services_first st) \<and> hash_ok MAX_SERVICES (services_second st)
     \<and> hash_ok MAX_SERVICES (rr_index st) \<and> hash_ok MAX_SERVICES (wrr_state_map st)
     \<and> hash_ok MAX_SESSIONS (tcp_session_state st)
     \<and> hash_ok MAX_SYN_TRACKER (syn_tracker st) \<and> hash_ok MAX_BLACKLIST (blacklist st)
     \<and> (\<forall>i. backend_ok (backends_first st i)) \<and> (\<forall>i. backend_ok (backends_second st i))
     \<and> (\<forall>i. backend_ok (ch_backends st i))"

lemma backend_ok_zero [simp]: "backend_ok zero_backend"
  by (simp add: backend_ok_def zero_backend_def)

lemma maps_ok_initial: "maps_ok initial_maps"
  by (simp add: maps_ok_def initial_maps_def hash_ok_def)

lemma maps_ok_backend_stats [simp]: "maps_ok (backend_stats env f i st) = maps_ok st"
  by (simp add: maps_ok_def backend_stats_def)

lemma maps_ok_service_stats [simp]: "maps_ok (service_stats env f i st) = maps_ok st"
  by (simp add: maps_ok_def service_stats_def)

lemma backends_map_ok: "maps_ok st \<Longrightarrow> backend_ok (backends_map st idx i)"
  by (simp add: maps_ok_def backends_map_def)

end
