(* ===== verification/Ch_Instance.thy ===== *)
theory Ch_Instance
  imports Maglev Xxh3 Balancer_State
begin

section \<open>A consistent-hash instance of the control plane\<close>

text \<open>
  \<open>ConsistentHashInstance\<close> of \<open>controlplane/src/algorithm/consistent_hash.cpp\<close>: one Maglev table
  per service, the table in force before the last change of the backends, and the merge timer
  that makes the change final. The operations run under the instance's mutex and are steps of
  one state. \<open>None\<close> is undefined behaviour of the C++ program (a vector read out of range, a
  division by zero), \<open>int32_t\<close> table entries are integers.
\<close>

definition MAGLEV_SEED_1 :: u64 where "MAGLEV_SEED_1 = 0x5bd1e995"
definition MAGLEV_SEED_2 :: u64 where "MAGLEV_SEED_2 = 0x9747b28c"

record instance_config =
  hashring_size :: u32
  merge_timeout_ticks :: u32

definition default_instance_config :: instance_config where
  "default_instance_config = \<lparr>hashring_size = of_nat HASHRING_SMALL, merge_timeout_ticks = 180\<rparr>"

record instance_stats =
  st_merge_count :: u64
  st_update_count :: u64
  current_backends_count :: u32

record lookup_result =
  lr_stable :: bool
  lr_curr :: "int option"
  lr_prev :: "int option"

record ch_instance =
  m_config :: instance_config
  m_stats :: instance_stats
  m_backends :: "backend list"
  m_currLookup :: "int list"
  m_prevLookup :: "int list"
  m_needsMerge :: bool
  m_mergeTimer :: u32

definition new_instance :: "instance_config \<Rightarrow> ch_instance" where
  "new_instance config =
     \<lparr>m_config = config,
      m_stats = \<lparr>st_merge_count = 0, st_update_count = 0, current_backends_count = 0\<rparr>,
      m_backends = [],
      m_currLookup = replicate (unat (hashring_size config)) (-1),
      m_prevLookup = replicate (unat (hashring_size config)) (-1),
      m_needsMerge = False, m_mergeTimer = 0\<rparr>"

subsection \<open>Hashing a backend\<close>

text \<open>The packed, zero-initialised \<open>hash_input\<close>: 20 bytes.\<close>

definition hash_input :: "backend \<Rightarrow> bytes" where
  "hash_input backend =
     (if be_ip_version backend = 4 then take 4 (be_addr backend) @ replicate 12 0 else be_addr backend)
     @ bytes16 (be_port backend) @ [be_ip_version backend, 0]"

definition hashBackend1 :: "backend \<Rightarrow> u32" where
  "hashBackend1 backend =
     ucast (xxh3_len_17to128_64b (hash_input backend) XXH3_kSecret MAGLEV_SEED_1)"

definition hashBackend2 :: "backend \<Rightarrow> u32" where
  "hashBackend2 backend =
     ucast (xxh3_len_17to128_64b (hash_input backend) XXH3_kSecret MAGLEV_SEED_2)"

definition generatePermutations :: "nat \<Rightarrow> backend list \<Rightarrow> nat list list" where
  "generatePermutations m backends =
     map (\<lambda>b. permutation_row (hashBackend1 b) (hashBackend2 b) m) backends"

subsection \<open>The operations\<close>

definition clear_instance :: "ch_instance \<Rightarrow> ch_instance" where
  "clear_instance inst =
     inst\<lparr>m_backends := [],
          m_currLookup := map (\<lambda>_. -1) (m_currLookup inst),
          m_prevLookup := map (\<lambda>_. -1) (m_prevLookup inst),
          m_needsMerge := False, m_mergeTimer := 0\<rparr>"

definition updateBackends :: "backend list \<Rightarrow> ch_instance \<Rightarrow> ch_instance option" where
  "updateBackends backends inst =
     (if backends = [] then Some (clear_instance inst)
      else
        (let m = unat (hashring_size (m_config inst))
         in if m_currLookup inst = [] \<or> m = 1 then None
            else
              (let new_prev =
                     (if m_currLookup inst ! 0 \<noteq> -1 \<and> \<not> m_needsMerge inst then m_currLookup inst
                      else if m_needsMerge inst then m_prevLookup inst
                      else replicate m (-1));
                   permutations = generatePermutations m backends
               in case populate_table m permutations (replicate m (-1)) of
                    None \<Rightarrow> None
                  | Some new_curr \<Rightarrow>
                      Some (inst\<lparr>m_backends := backends,
                                 m_currLookup := new_curr,
                                 m_prevLookup := new_prev,
                                 m_stats := (m_stats inst)\<lparr>
                                   st_update_count := st_update_count (m_stats inst) + 1,
                                   current_backends_count := of_nat (length backends)\<rparr>,
                                 m_mergeTimer := 0,
                                 m_needsMerge := True\<rparr>))))"

definition to_opt :: "int \<Rightarrow> int option" where
  "to_opt v = (if v \<ge> 0 then Some v else None)"

definition slot :: "u32 \<Rightarrow> ch_instance \<Rightarrow> nat" where
  "slot key_hash inst = unat (key_hash mod hashring_size (m_config inst))"

definition lookup_instance :: "u32 \<Rightarrow> ch_instance \<Rightarrow> lookup_result" where
  "lookup_instance key_hash inst =
     (if m_backends inst = [] then \<lparr>lr_stable = False, lr_curr = None, lr_prev = None\<rparr>
      else
        (let index = slot key_hash inst;
             curr_val = m_currLookup inst ! index;
             prev_val = m_prevLookup inst ! index;
             stable = (prev_val = -1 \<or> curr_val = prev_val)
         in \<lparr>lr_stable = stable, lr_curr = to_opt curr_val, lr_prev = to_opt prev_val\<rparr>))"

definition lookupCurr :: "u32 \<Rightarrow> ch_instance \<Rightarrow> int option" where
  "lookupCurr key_hash inst =
     (if m_backends inst = [] then None else to_opt (m_currLookup inst ! slot key_hash inst))"

definition lookupPrev :: "u32 \<Rightarrow> ch_instance \<Rightarrow> int option" where
  "lookupPrev key_hash inst =
     (if m_backends inst = [] then None else to_opt (m_prevLookup inst ! slot key_hash inst))"

definition isStable :: "u32 \<Rightarrow> ch_instance \<Rightarrow> bool" where
  "isStable key_hash inst =
     (if m_prevLookup inst ! 0 = -1 then True
      else m_currLookup inst ! slot key_hash inst = m_prevLookup inst ! slot key_hash inst)"

definition merge_instance :: "ch_instance \<Rightarrow> ch_instance" where
  "merge_instance inst =
     (if \<not> m_needsMerge inst then inst
      else inst\<lparr>m_prevLookup := m_currLookup inst,
                m_needsMerge := False, m_mergeTimer := 0,
                m_stats := (m_stats inst)\<lparr>st_merge_count := st_merge_count (m_stats inst) + 1\<rparr>\<rparr>)"

definition tickMergeTimer :: "ch_instance \<Rightarrow> bool \<times> ch_instance" where
  "tickMergeTimer inst =
     (if \<not> m_needsMerge inst then (False, inst)
      else
        (let ticks = m_mergeTimer inst + 1;
             inst = inst\<lparr>m_mergeTimer := ticks\<rparr>
         in if ticks \<ge> merge_timeout_ticks (m_config inst) then (True, merge_instance inst)
            else (False, inst)))"

definition getHashRingState :: "ch_instance \<Rightarrow> (int \<times> int) list" where
  "getHashRingState inst =
     map (\<lambda>i. (m_currLookup inst ! i, m_prevLookup inst ! i)) [0..<unat (hashring_size (m_config inst))]"

subsection \<open>Tables\<close>

text \<open>No slot is used, or every slot holds one of \<open>n\<close> backends and the slots are shared evenly.\<close>

definition empty_table :: "nat \<Rightarrow> int list \<Rightarrow> bool" where
  "empty_table m tab \<longleftrightarrow> tab = replicate m (-1)"

definition full_table :: "nat \<Rightarrow> nat \<Rightarrow> int list \<Rightarrow> bool" where
  "full_table m n tab \<longleftrightarrow>
     length tab = m \<and> (\<forall>p < m. 0 \<le> tab ! p \<and> tab ! p < int n)
     \<and> (\<forall>i < n. card (slots_of tab m i) = m div n + (if i < m mod n then 1 else 0))"

lemma full_table_nth: "full_table m n tab \<Longrightarrow> p < m \<Longrightarrow> 0 \<le> tab ! p"
  by (simp add: full_table_def)

lemma map_const_replicate: "map (\<lambda>_. c) xs = replicate (length xs) c"
  by (simp add: map_replicate_const)

lemma generatePermutations_ok:
  assumes "coprime_size m"
  shows "rows_ok m (generatePermutations m backends)"
  using permutation_row_perm [OF assms] by (auto simp: rows_ok_def generatePermutations_def)

lemma new_table_full:
  assumes "coprime_size m" "backends \<noteq> []"
  obtains tab where "populate_table m (generatePermutations m backends) (replicate m (-1)) = Some tab"
    "full_table m (length backends) tab"
proof -
  have n: "length (generatePermutations m backends) = length backends"
    by (simp add: generatePermutations_def)
  have "0 < length (generatePermutations m backends)" using assms(2) by (simp add: n)
  from populate_table_complete [OF generatePermutations_ok [OF assms(1)] this refl]
  obtain tab where "populate_table m (generatePermutations m backends) (replicate m (-1)) = Some tab"
    "length tab = m" "\<forall>p < m. 0 \<le> tab ! p \<and> tab ! p < int (length backends)"
    "\<forall>i < length backends. card (slots_of tab m i) = m div length backends + (if i < m mod length backends then 1 else 0)"
    unfolding n by metis
  then show ?thesis by (intro that) (simp_all add: full_table_def)
qed

subsection \<open>The states an instance reaches\<close>

inductive ch_step :: "ch_instance \<Rightarrow> ch_instance \<Rightarrow> bool" where
  step_update: "updateBackends backends inst = Some inst' \<Longrightarrow> ch_step inst inst'"
| step_tick: "tickMergeTimer inst = (merged, inst') \<Longrightarrow> ch_step inst inst'"
| step_merge: "ch_step inst (merge_instance inst)"
| step_clear: "ch_step inst (clear_instance inst)"

inductive_cases ch_stepE: "ch_step inst inst'"

inductive ch_reachable :: "instance_config \<Rightarrow> ch_instance \<Rightarrow> bool" for config where
  reach_new: "ch_reachable config (new_instance config)"
| reach_step: "ch_reachable config inst \<Longrightarrow> ch_step inst inst' \<Longrightarrow> ch_reachable config inst'"

definition ring :: "ch_instance \<Rightarrow> nat" where
  "ring inst = unat (hashring_size (m_config inst))"

text \<open>
  Without backends both tables are empty. With backends the current table is complete; the
  previous one is the current one, except between a change and its merge, when it is the table
  before the change, empty or complete for some number of backends.
\<close>

definition tables_ok :: "ch_instance \<Rightarrow> bool" where
  "tables_ok inst \<longleftrightarrow>
     (if m_backends inst = []
      then empty_table (ring inst) (m_currLookup inst) \<and> empty_table (ring inst) (m_prevLookup inst)
           \<and> \<not> m_needsMerge inst
      else full_table (ring inst) (length (m_backends inst)) (m_currLookup inst)
           \<and> (if m_needsMerge inst
              then empty_table (ring inst) (m_prevLookup inst)
                   \<or> (\<exists>n > 0. full_table (ring inst) n (m_prevLookup inst))
              else m_prevLookup inst = m_currLookup inst))"

definition timer_ok :: "ch_instance \<Rightarrow> bool" where
  "timer_ok inst \<longleftrightarrow>
     (if m_needsMerge inst
      then m_mergeTimer inst = 0 \<or> m_mergeTimer inst < merge_timeout_ticks (m_config inst)
      else m_mergeTimer inst = 0)"

definition instance_ok :: "ch_instance \<Rightarrow> bool" where
  "instance_ok inst \<longleftrightarrow> coprime_size (ring inst) \<and> tables_ok inst \<and> timer_ok inst"

lemmas instance_ok_defs = instance_ok_def tables_ok_def timer_ok_def

lemma ring_upd [simp]:
  "ring (inst\<lparr>m_stats := s\<rparr>) = ring inst" "ring (inst\<lparr>m_backends := b\<rparr>) = ring inst"
  "ring (inst\<lparr>m_currLookup := t\<rparr>) = ring inst" "ring (inst\<lparr>m_prevLookup := t\<rparr>) = ring inst"
  "ring (inst\<lparr>m_needsMerge := n\<rparr>) = ring inst" "ring (inst\<lparr>m_mergeTimer := k\<rparr>) = ring inst"
  "ring (new_instance config) = unat (hashring_size config)"
  by (simp_all add: ring_def new_instance_def)

lemma coprime_size_gt: "coprime_size m \<Longrightarrow> 1 < m"
  by (simp add: coprime_size_def)

lemma instance_ok_new: "coprime_size (unat (hashring_size config)) \<Longrightarrow> instance_ok (new_instance config)"
  by (simp add: instance_ok_defs empty_table_def) (simp add: new_instance_def)

lemma tables_length:
  assumes "instance_ok inst"
  shows "length (m_currLookup inst) = ring inst" "length (m_prevLookup inst) = ring inst"
  using assms by (auto simp: instance_ok_def tables_ok_def empty_table_def full_table_def split: if_splits)

lemma instance_ok_clear:
  assumes "instance_ok inst"
  shows "instance_ok (clear_instance inst)"
  using assms [unfolded instance_ok_def] tables_length [OF assms]
  by (simp add: instance_ok_defs clear_instance_def empty_table_def map_const_replicate)

lemma instance_ok_merge: "instance_ok inst \<Longrightarrow> instance_ok (merge_instance inst)"
  by (auto simp: instance_ok_defs merge_instance_def split: if_splits)

lemma instance_ok_tick: "instance_ok inst \<Longrightarrow> tickMergeTimer inst = (b, inst') \<Longrightarrow> instance_ok inst'"
  by (auto simp: tickMergeTimer_def merge_instance_def instance_ok_defs Let_def split: if_splits)

text \<open>The table that stays the previous one when the backends change.\<close>

definition settled_table :: "ch_instance \<Rightarrow> int list" where
  "settled_table inst = (if m_needsMerge inst then m_prevLookup inst else m_currLookup inst)"

lemma settled_table_cases:
  assumes "instance_ok inst"
  shows "empty_table (ring inst) (settled_table inst) \<or> (\<exists>n > 0. full_table (ring inst) n (settled_table inst))"
  using assms by (auto simp: instance_ok_def tables_ok_def settled_table_def split: if_splits)

text \<open>An update never fails, and this is all it does.\<close>

lemma updateBackends_ok:
  assumes ok: "instance_ok inst" and ne: "backends \<noteq> []"
  obtains tab where
    "full_table (ring inst) (length backends) tab"
    "updateBackends backends inst =
       Some (inst\<lparr>m_backends := backends, m_currLookup := tab, m_prevLookup := settled_table inst,
         m_stats := (m_stats inst)\<lparr>st_update_count := st_update_count (m_stats inst) + 1,
                                   current_backends_count := of_nat (length backends)\<rparr>,
         m_mergeTimer := 0, m_needsMerge := True\<rparr>)"
proof -
  have m: "1 < ring inst" using ok by (simp only: instance_ok_def coprime_size_gt)
  obtain tab where tab: "populate_table (ring inst) (generatePermutations (ring inst) backends)
      (replicate (ring inst) (-1)) = Some tab" "full_table (ring inst) (length backends) tab"
    using new_table_full [of "ring inst" backends] ok ne by (auto simp: instance_ok_def)
  have nempty: "m_currLookup inst \<noteq> []" using tables_length(1) [OF ok] m by auto
  have prev: "(if m_currLookup inst ! 0 \<noteq> -1 \<and> \<not> m_needsMerge inst then m_currLookup inst
      else if m_needsMerge inst then m_prevLookup inst else replicate (ring inst) (-1)) = settled_table inst"
  proof (cases "m_backends inst = []")
    case True
    then show ?thesis using ok m by (auto simp: instance_ok_def tables_ok_def settled_table_def empty_table_def)
  next
    case False
    then have "0 \<le> m_currLookup inst ! 0"
      using ok m full_table_nth by (auto simp: instance_ok_def tables_ok_def)
    then show ?thesis by (auto simp: settled_table_def)
  qed
  show ?thesis
    by (rule that [OF tab(2)])
      (use ne m nempty tab(1) prev in \<open>simp add: updateBackends_def Let_def ring_def [symmetric]\<close>)
qed

lemma instance_ok_update:
  assumes ok: "instance_ok inst" and upd: "updateBackends backends inst = Some inst'"
  shows "instance_ok inst'"
proof (cases "backends = []")
  case True
  then show ?thesis using ok upd by (auto simp: updateBackends_def instance_ok_clear)
next
  case False
  then obtain tab where "full_table (ring inst) (length backends) tab"
    "updateBackends backends inst =
       Some (inst\<lparr>m_backends := backends, m_currLookup := tab, m_prevLookup := settled_table inst,
         m_stats := (m_stats inst)\<lparr>st_update_count := st_update_count (m_stats inst) + 1,
                                   current_backends_count := of_nat (length backends)\<rparr>,
         m_mergeTimer := 0, m_needsMerge := True\<rparr>)"
    by (rule updateBackends_ok [OF ok])
  then show ?thesis using upd False ok settled_table_cases [OF ok]
    by (auto simp: instance_ok_defs)
qed

lemma instance_ok_step: "ch_step inst inst' \<Longrightarrow> instance_ok inst \<Longrightarrow> instance_ok inst'"
  by (erule ch_stepE) (auto intro: instance_ok_update instance_ok_tick instance_ok_merge instance_ok_clear)

lemma reachable_ok:
  assumes "ch_reachable config inst" "coprime_size (unat (hashring_size config))"
  shows "instance_ok inst"
  using assms by induction (auto intro: instance_ok_new instance_ok_step)

subsection \<open>Lookups\<close>

lemma slot_less: "instance_ok inst \<Longrightarrow> slot h inst < ring inst"
proof -
  assume "instance_ok inst"
  then have "0 < unat (hashring_size (m_config inst))" by (simp add: instance_ok_def coprime_size_def ring_def)
  then show ?thesis by (simp add: slot_def ring_def unat_mod)
qed

lemma lookupCurr_backend:
  assumes "instance_ok inst" "m_backends inst \<noteq> []"
  obtains i where "lookupCurr h inst = Some i" "0 \<le> i" "i < int (length (m_backends inst))"
    "m_currLookup inst ! slot h inst = i"
  using assms slot_less [OF assms(1), of h]
  by (auto simp: instance_ok_def tables_ok_def full_table_def lookupCurr_def to_opt_def)

subsection \<open>The merge timer\<close>

definition tick :: "ch_instance \<Rightarrow> ch_instance" where
  "tick inst = snd (tickMergeTimer inst)"

lemma tick_early:
  assumes "m_needsMerge inst" "m_mergeTimer inst = of_nat k"
    and "Suc k < unat (merge_timeout_ticks (m_config inst))"
  shows "tick inst = inst\<lparr>m_mergeTimer := of_nat (Suc k)\<rparr>"
proof -
  have "unat (of_nat (Suc k) :: u32) = Suc k"
    using assms(3) unsigned_less [of "merge_timeout_ticks (m_config inst)", where ?'a = nat]
    by (simp add: unat_of_nat del: of_nat_Suc)
  then have "\<not> merge_timeout_ticks (m_config inst) \<le> (of_nat (Suc k) :: u32)"
    using assms(3) by (simp add: word_le_nat_alt)
  then show ?thesis using assms(1,2) by (simp add: tick_def tickMergeTimer_def Let_def add.commute)
qed

lemma tick_waits:
  assumes "m_needsMerge inst" "m_mergeTimer inst = 0" "k < unat (merge_timeout_ticks (m_config inst))"
  shows "(tick ^^ k) inst = inst\<lparr>m_mergeTimer := of_nat k\<rparr>"
  using assms(3)
proof (induction k)
  case 0
  then show ?case using assms(2) by (simp flip: assms(2))
next
  case (Suc k)
  then have "(tick ^^ Suc k) inst = tick (inst\<lparr>m_mergeTimer := of_nat k\<rparr>)" by simp
  also have "\<dots> = inst\<lparr>m_mergeTimer := of_nat (Suc k)\<rparr>"
    using assms(1) Suc.prems by (subst tick_early) simp_all
  finally show ?case .
qed

lemma tick_merges:
  assumes "m_needsMerge inst" "m_mergeTimer inst = 0" "0 < unat (merge_timeout_ticks (m_config inst))"
  shows "(tick ^^ unat (merge_timeout_ticks (m_config inst))) inst = merge_instance inst"
proof -
  define t where "t = unat (merge_timeout_ticks (m_config inst))"
  then obtain k where k: "t = Suc k" using assms(3) gr0_implies_Suc by blast
  have "of_nat t = merge_timeout_ticks (m_config inst)" by (simp add: t_def)
  then have last_tick: "of_nat k + 1 = merge_timeout_ticks (m_config inst)"
    by (simp add: k add.commute)
  have "(tick ^^ t) inst = tick ((tick ^^ k) inst)" by (simp add: k)
  also have "(tick ^^ k) inst = inst\<lparr>m_mergeTimer := of_nat k\<rparr>"
    by (rule tick_waits [OF assms(1,2)]) (simp add: k flip: t_def)
  also have "tick (inst\<lparr>m_mergeTimer := of_nat k\<rparr>) = merge_instance inst"
    using assms(1) by (simp add: tick_def tickMergeTimer_def merge_instance_def Let_def last_tick)
  finally show ?thesis by (simp only: t_def)
qed

end
