(* ===== verification/Schedulers.thy ===== *)
theory Schedulers
  imports Balancer_State
begin

section \<open>Round robin and weighted round robin\<close>

text \<open>
  \<open>rr_balancer_handle\<close>, \<open>wrr_balancer_handle\<close> and the retry loop around them in
  \<open>find_tcp_backend\<close> and \<open>find_udp_backend\<close>. A handler gets the active backends map, the
  service and its key, and the caller's \<open>*last_index\<close>; it returns the backend pointer
  (\<open>None\<close> for a null pointer), the new \<open>*last_index\<close> and the maps.
\<close>

type_synonym pick_result = "backend option \<times> u32 \<times> xdp_maps"

definition rr_balancer_handle ::
    "backend bpf_array \<Rightarrow> service_info \<Rightarrow> service_key \<Rightarrow> u32 \<Rightarrow> xdp_maps \<Rightarrow> pick_result" where
  "rr_balancer_handle current_back_map info key last_index st =
     (case hash_lookup (rr_index st) key of
        Some cur \<Rightarrow>
          (let new_index = cur + 1;
               new_index = (if new_index \<ge> backend_count info then 0 else new_index);
               backend_search_index = backend_start_idx info + new_index;
               back = array_lookup MAX_BACKENDS current_back_map backend_search_index;
               st = st\<lparr>rr_index := snd (hash_update MAX_SERVICES (rr_index st) key new_index)\<rparr>
           in (back, backend_search_index, st))
      | None \<Rightarrow> (None, last_index, st))"

text \<open>
  The loop of \<open>wrr_balancer_handle\<close> on \<open>*state\<close>. \<open>(int)(info->backend_count * 2)\<close> is a
  32-bit product read as a signed number.
\<close>

function wrr_loop ::
    "backend bpf_array \<Rightarrow> service_info \<Rightarrow> nat \<Rightarrow> u32 \<Rightarrow> wrr_state \<Rightarrow> backend option \<times> u32 \<times> wrr_state" where
  "wrr_loop current_back_map info attempts last_index ws =
     (if \<not> attempts < 32 then (None, last_index, ws)
      else if int attempts \<ge> sint (backend_count info * 2) then (None, last_index, ws)
      else
        (let idx = backend_start_idx info + current_index ws;
             advanced = ws\<lparr>current_index := (current_index ws + 1) mod backend_count info,
                           current_weight_counter := 0\<rparr>;
             counter = current_weight_counter ws + 1
         in case array_lookup MAX_BACKENDS current_back_map idx of
              Some back \<Rightarrow>
                if active back \<noteq> 0 \<and> weight back > 0
                then (if counter < ucast (weight back)
                      then (Some back, idx, ws\<lparr>current_weight_counter := counter\<rparr>)
                      else (Some back, idx, advanced))
                else wrr_loop current_back_map info (attempts + 1) last_index advanced
            | None \<Rightarrow> wrr_loop current_back_map info (attempts + 1) last_index advanced))"
  by pat_completeness auto
termination
  by (relation "measure (\<lambda>(_, _, attempts, _, _). 32 - attempts)") auto

declare wrr_loop.simps [simp del]

text \<open>
  \<open>state\<close> points into \<open>wrr_state_map\<close>: what the loop leaves in \<open>*state\<close> is in the map
  afterwards, also when the loop gives up.
\<close>

definition wrr_balancer_handle ::
    "backend bpf_array \<Rightarrow> service_info \<Rightarrow> service_key \<Rightarrow> u32 \<Rightarrow> xdp_maps \<Rightarrow> pick_result" where
  "wrr_balancer_handle current_back_map info key last_index st =
     (let new_state = \<lparr>current_index = 0, current_weight_counter = 0\<rparr>;
          st = (if hash_lookup (wrr_state_map st) key = None
                then st\<lparr>wrr_state_map := snd (hash_update MAX_SERVICES (wrr_state_map st) key new_state)\<rparr>
                else st)
      in case hash_lookup (wrr_state_map st) key of
           None \<Rightarrow> (None, last_index, st)
         | Some ws \<Rightarrow>
             (let (back, idx, ws') = wrr_loop current_back_map info 0 last_index ws
              in (back, idx, st\<lparr>wrr_state_map := hash_write (wrr_state_map st) key ws'\<rparr>)))"

text \<open>
  \<open>do { backend = pick(...); if (++attempts > 4) { backend = 0; break; } }
  while (backend && !backend->active);\<close>
\<close>

function pick_loop ::
    "(u32 \<Rightarrow> xdp_maps \<Rightarrow> pick_result) \<Rightarrow> nat \<Rightarrow> u32 \<Rightarrow> xdp_maps \<Rightarrow> pick_result" where
  "pick_loop pick attempts last_index st =
     (let (backend, last_index, st) = pick last_index st;
          attempts' = attempts + 1
      in if attempts' > 4 then (None, last_index, st)
         else case backend of
                None \<Rightarrow> (None, last_index, st)
              | Some back \<Rightarrow>
                  if active back \<noteq> 0 then (Some back, last_index, st)
                  else pick_loop pick attempts' last_index st)"
  by pat_completeness auto
termination
  by (relation "measure (\<lambda>(_, attempts, _, _). 5 - attempts)") auto

declare pick_loop.simps [simp del]

subsection \<open>The contract of a scheduler\<close>

text \<open>
  A service's backends are the indices from \<open>backend_start_idx\<close>, \<open>backend_count\<close> of them,
  inside the backends map.
\<close>

definition info_ok :: "service_info \<Rightarrow> bool" where
  "info_ok info \<longleftrightarrow> 0 < unat (backend_count info)
     \<and> unat (backend_start_idx info) + unat (backend_count info) \<le> MAX_BACKENDS"

definition in_service :: "service_info \<Rightarrow> u32 \<Rightarrow> bool" where
  "in_service info i \<longleftrightarrow> unat (backend_start_idx info) \<le> unat i
     \<and> unat i < unat (backend_start_idx info) + unat (backend_count info)"

text \<open>A scheduler step changes its own cursor map only.\<close>

definition sched_frame :: "xdp_maps \<Rightarrow> xdp_maps \<Rightarrow> bool" where
  "sched_frame st st' \<longleftrightarrow>
     st\<lparr>rr_index := [], wrr_state_map := []\<rparr> = st'\<lparr>rr_index := [], wrr_state_map := []\<rparr>"

lemma sched_frame_refl [simp]: "sched_frame st st"
  by (simp add: sched_frame_def)

lemma sched_frame_trans: "sched_frame a b \<Longrightarrow> sched_frame b c \<Longrightarrow> sched_frame a c"
  by (simp add: sched_frame_def)

lemma sched_frame_fields:
  assumes "sched_frame st st'"
  shows "services_first st' = services_first st" "services_second st' = services_second st"
    "atomic_index st' = atomic_index st" "backends_first st' = backends_first st"
    "backends_second st' = backends_second st" "ch_backends st' = ch_backends st"
    "tcp_session_state st' = tcp_session_state st"
    "backends_packets_stats st' = backends_packets_stats st"
    "services_packets_stats st' = services_packets_stats st"
    "syn_tracker st' = syn_tracker st" "blacklist st' = blacklist st"
    "ddos_cfg st' = ddos_cfg st" "global_syn st' = global_syn st"
  using assms by (cases st; cases st'; simp add: sched_frame_def)+

locale scheduler =
  fixes pick :: "backend bpf_array \<Rightarrow> service_info \<Rightarrow> service_key \<Rightarrow> u32 \<Rightarrow> xdp_maps \<Rightarrow> pick_result"
    and cursor_ok :: "service_info \<Rightarrow> service_key \<Rightarrow> xdp_maps \<Rightarrow> bool"
  assumes pick_frame: "pick bm info key l st = (r, l', st') \<Longrightarrow> sched_frame st st'"
    and pick_maps_ok: "maps_ok st \<Longrightarrow> pick bm info key l st = (r, l', st') \<Longrightarrow> maps_ok st'"
    and pick_cursor_ok: "info_ok info \<Longrightarrow> cursor_ok info key st \<Longrightarrow>
      pick bm info key l st = (r, l', st') \<Longrightarrow> cursor_ok info key st'"
    and pick_in_service: "info_ok info \<Longrightarrow> cursor_ok info key st \<Longrightarrow>
      pick bm info key l st = (Some b, l', st') \<Longrightarrow> in_service info l' \<and> b = bm (unat l')"
    and pick_bounded: "pick bm info key l st = (Some b, l', st') \<Longrightarrow>
      array_lookup MAX_BACKENDS bm l' = Some b"
begin

text \<open>One turn of the retry loop.\<close>

lemma loop_cases:
  assumes "pick_loop (pick bm info key) n l st = (r, l', st')"
  obtains b where "pick bm info key l st = (b, l', st')" "r = None \<or> r = b"
      "\<And>x. r = Some x \<Longrightarrow> active x \<noteq> 0"
  | b l1 s where "pick bm info key l st = (Some b, l1, s)" "active b = 0" "n < 4"
      "pick_loop (pick bm info key) (n + 1) l1 s = (r, l', st')"
  using assms
  by (cases "pick bm info key l st", subst (asm) pick_loop.simps)
    (auto split: if_splits option.splits)

lemma loop_frame: "pick_loop (pick bm info key) n l st = (r, l', st') \<Longrightarrow> sched_frame st st'"
proof (induction "4 - n" arbitrary: n l st rule: less_induct)
  case less
  from less.prems show ?case
  proof (cases rule: loop_cases)
    case (1 b)
    from 1(1) show ?thesis by (rule pick_frame)
  next
    case (2 b l1 s)
    then show ?thesis using less.hyps [OF _ 2(4)] pick_frame [OF 2(1)]
      by (auto intro: sched_frame_trans)
  qed
qed

lemma loop_maps_ok:
  "maps_ok st \<Longrightarrow> pick_loop (pick bm info key) n l st = (r, l', st') \<Longrightarrow> maps_ok st'"
proof (induction "4 - n" arbitrary: n l st rule: less_induct)
  case less
  from less.prems(2) show ?case
  proof (cases rule: loop_cases)
    case (1 b)
    from less.prems(1) 1(1) show ?thesis by (rule pick_maps_ok)
  next
    case (2 b l1 s)
    then show ?thesis using less.hyps [OF _ pick_maps_ok [OF less.prems(1) 2(1)] 2(4)] by simp
  qed
qed

lemma loop_cursor_ok:
  assumes "info_ok info"
  shows "cursor_ok info key st \<Longrightarrow> pick_loop (pick bm info key) n l st = (r, l', st') \<Longrightarrow>
    cursor_ok info key st'"
proof (induction "4 - n" arbitrary: n l st rule: less_induct)
  case less
  from less.prems(2) show ?case
  proof (cases rule: loop_cases)
    case (1 b)
    from assms less.prems(1) 1(1) show ?thesis by (rule pick_cursor_ok)
  next
    case (2 b l1 s)
    then show ?thesis
      using less.hyps [OF _ pick_cursor_ok [OF assms less.prems(1) 2(1)] 2(4)] by simp
  qed
qed

text \<open>What the retry loop returns: an active backend of the service, and its index.\<close>

lemma loop_in_service:
  assumes "info_ok info"
  shows "cursor_ok info key st \<Longrightarrow> pick_loop (pick bm info key) n l st = (Some b, l', st') \<Longrightarrow>
    in_service info l' \<and> b = bm (unat l') \<and> active b \<noteq> 0"
proof (induction "4 - n" arbitrary: n l st rule: less_induct)
  case less
  from less.prems(2) show ?case
  proof (cases rule: loop_cases)
    case (1 b')
    then have "b' = Some b" by auto
    with pick_in_service [OF assms less.prems(1)] 1 show ?thesis by blast
  next
    case (2 b' l1 s)
    then have "4 - (n + 1) < 4 - n" by simp
    from less.hyps [OF this pick_cursor_ok [OF assms less.prems(1) 2(1)] 2(4)]
    show ?thesis .
  qed
qed

lemma loop_bounded:
  "pick_loop (pick bm info key) n l st = (Some b, l', st') \<Longrightarrow>
    array_lookup MAX_BACKENDS bm l' = Some b \<and> active b \<noteq> 0"
proof (induction "4 - n" arbitrary: n l st rule: less_induct)
  case less
  from less.prems show ?case
  proof (cases rule: loop_cases)
    case (1 b')
    then have "b' = Some b" by auto
    with pick_bounded 1 show ?thesis by blast
  next
    case (2 b' l1 s)
    then show ?thesis using less.hyps [OF _ 2(4)] by simp
  qed
qed

end

subsection \<open>Round robin keeps the contract\<close>

lemma rr_next_in_service:
  assumes "info_ok info" and "unat n < unat (backend_count info)"
  shows "in_service info (backend_start_idx info + n)"
    and "unat (backend_start_idx info + n) = unat (backend_start_idx info) + unat n"
proof -
  show "unat (backend_start_idx info + n) = unat (backend_start_idx info) + unat n"
    using assms by (simp add: info_ok_def max_defs unat_word_ariths)
  then show "in_service info (backend_start_idx info + n)"
    using assms by (simp add: in_service_def)
qed

lemma in_service_lookup:
  "info_ok info \<Longrightarrow> in_service info i \<Longrightarrow> array_lookup MAX_BACKENDS bm i = Some (bm (unat i))"
  by (simp add: info_ok_def in_service_def array_lookup_def)

lemma wrap_next_lt:
  "0 < unat c \<Longrightarrow> unat (if (n :: u32) \<ge> c then 0 else n) < unat c"
  by (simp add: word_le_nat_alt)

lemma array_lookup_eq: "array_lookup m bm i = Some b \<Longrightarrow> b = bm (unat i)"
  by (simp add: array_lookup_def split: if_splits)

interpretation rr: scheduler rr_balancer_handle "\<lambda>info key st. True"
proof
  fix bm info key l st r l' st'
  assume h: "rr_balancer_handle bm info key l st = (r, l', st')"
  show "sched_frame st st'"
    using h by (auto simp: rr_balancer_handle_def Let_def sched_frame_def split: option.splits)
  show "maps_ok st'" if "maps_ok st"
    using h that hash_ok_update [of MAX_SERVICES "rr_index st" key]
    by (auto simp: rr_balancer_handle_def Let_def maps_ok_def split: option.splits
        intro: hm.upd_ok [OF _ prod.collapse [symmetric]])
next
  fix bm info key l st b l' st'
  assume h: "rr_balancer_handle bm info key l st = (Some b, l', st')"
  show "array_lookup MAX_BACKENDS bm l' = Some b"
    using h by (auto simp: rr_balancer_handle_def Let_def split: option.splits)
  then show "in_service info l' \<and> b = bm (unat l')" if "info_ok info"
    using h that wrap_next_lt [of "backend_count info"] rr_next_in_service(1) [OF that]
    by (auto simp: rr_balancer_handle_def Let_def info_ok_def array_lookup_eq
        split: option.splits)
qed auto

subsection \<open>Weighted round robin keeps the contract\<close>

text \<open>One turn of the loop.\<close>

definition wrr_advance :: "service_info \<Rightarrow> wrr_state \<Rightarrow> wrr_state" where
  "wrr_advance info ws =
     ws\<lparr>current_index := (current_index ws + 1) mod backend_count info, current_weight_counter := 0\<rparr>"

definition usable :: "backend option \<Rightarrow> bool" where
  "usable b \<longleftrightarrow> (case b of None \<Rightarrow> False | Some back \<Rightarrow> active back \<noteq> 0 \<and> weight back > 0)"

definition wrr_idx :: "service_info \<Rightarrow> wrr_state \<Rightarrow> u32" where
  "wrr_idx info ws = backend_start_idx info + current_index ws"

definition wrr_at :: "backend bpf_array \<Rightarrow> service_info \<Rightarrow> wrr_state \<Rightarrow> backend option" where
  "wrr_at bm info ws = array_lookup MAX_BACKENDS bm (wrr_idx info ws)"

definition wrr_spent :: "backend \<Rightarrow> service_info \<Rightarrow> wrr_state \<Rightarrow> wrr_state" where
  "wrr_spent back info ws =
     (if current_weight_counter ws + 1 < ucast (weight back)
      then ws\<lparr>current_weight_counter := current_weight_counter ws + 1\<rparr> else wrr_advance info ws)"

definition wrr_stop :: "service_info \<Rightarrow> nat \<Rightarrow> bool" where
  "wrr_stop info n \<longleftrightarrow> \<not> n < 32 \<or> int n \<ge> sint (backend_count info * 2)"

lemma wrr_loop_turn:
  "wrr_loop bm info n l ws =
     (if wrr_stop info n then (None, l, ws)
      else if usable (wrr_at bm info ws)
      then (wrr_at bm info ws, wrr_idx info ws, wrr_spent (the (wrr_at bm info ws)) info ws)
      else wrr_loop bm info (n + 1) l (wrr_advance info ws))"
  unfolding wrr_loop.simps [of bm info n l ws] wrr_stop_def usable_def wrr_at_def wrr_idx_def
    wrr_spent_def wrr_advance_def Let_def
  by (simp split: option.split)

lemma wrr_loop_cases:
  assumes "wrr_loop bm info n l ws = (r, l', ws')"
  obtains "wrr_stop info n" "r = None" "l' = l" "ws' = ws"
  | b where "\<not> wrr_stop info n" "r = Some b" "wrr_at bm info ws = Some b" "usable (Some b)"
      "l' = wrr_idx info ws" "ws' = wrr_spent b info ws"
  | "\<not> wrr_stop info n" "n < 32" "\<not> usable (wrr_at bm info ws)"
      "wrr_loop bm info (n + 1) l (wrr_advance info ws) = (r, l', ws')"
proof -
  consider "wrr_stop info n" | b where "\<not> wrr_stop info n" "wrr_at bm info ws = Some b" "usable (Some b)"
    | "\<not> wrr_stop info n" "\<not> usable (wrr_at bm info ws)"
    by (cases "wrr_at bm info ws") (auto simp: usable_def)
  then show thesis
  proof cases
    case 1
    then show ?thesis using assms that(1) by (simp add: wrr_loop_turn [of bm info n l ws])
  next
    case (2 b)
    then show ?thesis using assms that(2) [of b] by (auto simp: wrr_loop_turn [of bm info n l ws])
  next
    case 3
    then have "n < 32" by (simp add: wrr_stop_def)
    with 3 show ?thesis using assms that(3) by (simp add: wrr_loop_turn [of bm info n l ws])
  qed
qed

definition wrr_cursor_ok :: "service_info \<Rightarrow> service_key \<Rightarrow> xdp_maps \<Rightarrow> bool" where
  "wrr_cursor_ok info key st \<longleftrightarrow>
     (\<forall>ws. hash_lookup (wrr_state_map st) key = Some ws \<longrightarrow>
        unat (current_index ws) < unat (backend_count info))"

lemma wrr_advance_lt:
  "info_ok info \<Longrightarrow> unat (current_index (wrr_advance info ws)) < unat (backend_count info)"
  by (simp add: wrr_advance_def info_ok_def unat_mod)

lemma wrr_loop_index:
  assumes "info_ok info"
  shows "wrr_loop bm info n l ws = (r, l', ws') \<Longrightarrow>
    unat (current_index ws) < unat (backend_count info) \<Longrightarrow>
    unat (current_index ws') < unat (backend_count info)
    \<and> (\<forall>b. r = Some b \<longrightarrow> in_service info l')"
proof (induction "32 - n" arbitrary: n ws rule: less_induct)
  case less
  from less.prems(1) show ?case
  proof (cases rule: wrr_loop_cases)
    case 1
    then show ?thesis using less.prems(2) by simp
  next
    case (2 b)
    then show ?thesis
      using less.prems(2) wrr_advance_lt [OF assms] rr_next_in_service(1) [OF assms less.prems(2)]
      by (simp add: wrr_spent_def wrr_idx_def)
  next
    case 3
    then show ?thesis using less.hyps [OF _ 3(4) wrr_advance_lt [OF assms]] by simp
  qed
qed

lemma wrr_loop_usable:
  "wrr_loop bm info n l ws = (Some b, l', ws') \<Longrightarrow>
     array_lookup MAX_BACKENDS bm l' = Some b \<and> usable (Some b)"
proof (induction "32 - n" arbitrary: n ws rule: less_induct)
  case less
  from less.prems show ?case
  proof (cases rule: wrr_loop_cases)
    case (2 b')
    then show ?thesis by (simp add: wrr_at_def)
  next
    case 3
    then show ?thesis using less.hyps [OF _ 3(4)] by simp
  qed simp
qed

text \<open>The handler in terms of the loop.\<close>

definition wrr_zero :: wrr_state where
  "wrr_zero = \<lparr>current_index = 0, current_weight_counter = 0\<rparr>"

definition wrr_init :: "service_key \<Rightarrow> xdp_maps \<Rightarrow> xdp_maps" where
  "wrr_init key st =
     (if hash_lookup (wrr_state_map st) key = None
      then st\<lparr>wrr_state_map := snd (hash_update MAX_SERVICES (wrr_state_map st) key wrr_zero)\<rparr>
      else st)"

lemma wrr_handle_eq:
  "wrr_balancer_handle bm info key l st =
     (case hash_lookup (wrr_state_map (wrr_init key st)) key of
        None \<Rightarrow> (None, l, wrr_init key st)
      | Some ws \<Rightarrow>
          (let (back, idx, ws') = wrr_loop bm info 0 l ws
           in (back, idx, (wrr_init key st)\<lparr>wrr_state_map :=
                 hash_write (wrr_state_map (wrr_init key st)) key ws'\<rparr>)))"
  unfolding wrr_balancer_handle_def wrr_init_def wrr_zero_def Let_def by (rule refl)

lemma wrr_init_cursor_ok:
  assumes "info_ok info" and "wrr_cursor_ok info key st"
  shows "wrr_cursor_ok info key (wrr_init key st)"
proof (cases "hash_lookup (wrr_state_map st) key")
  case None
  obtain r m where "hash_update MAX_SERVICES (wrr_state_map st) key wrr_zero = (r, m)"
    by (cases "hash_update MAX_SERVICES (wrr_state_map st) key wrr_zero")
  with None assms show ?thesis
    by (auto simp: wrr_init_def wrr_cursor_ok_def hash_update_lookup wrr_zero_def info_ok_def)
next
  case (Some ws)
  with assms show ?thesis by (simp add: wrr_init_def)
qed

lemma wrr_init_maps_ok: "maps_ok st \<Longrightarrow> maps_ok (wrr_init key st)"
  by (auto simp: wrr_init_def maps_ok_def intro: hm.upd_ok [OF _ prod.collapse [symmetric]])

interpretation wrr: scheduler wrr_balancer_handle wrr_cursor_ok
proof
  fix bm info key l st r l' st'
  assume h: "wrr_balancer_handle bm info key l st = (r, l', st')"
  show "sched_frame st st'"
    using h by (auto simp: wrr_handle_eq wrr_init_def Let_def sched_frame_def
        split: option.splits prod.splits if_splits)
  show "maps_ok st'" if "maps_ok st"
    using h wrr_init_maps_ok [OF that]
    by (auto simp: wrr_handle_eq maps_ok_def split: option.splits prod.splits)
  show "wrr_cursor_ok info key st'" if "info_ok info" "wrr_cursor_ok info key st"
    using h wrr_init_cursor_ok [OF that] wrr_loop_index [OF that(1)]
    by (auto simp: wrr_handle_eq wrr_cursor_ok_def map_simps split: option.splits prod.splits)
next
  fix bm info key l st b l' st'
  assume h: "wrr_balancer_handle bm info key l st = (Some b, l', st')"
  show bd: "array_lookup MAX_BACKENDS bm l' = Some b"
    using h wrr_loop_usable by (auto simp: wrr_handle_eq split: option.splits prod.splits)
  show "in_service info l' \<and> b = bm (unat l')" if "info_ok info" "wrr_cursor_ok info key st"
    using h wrr_init_cursor_ok [OF that] wrr_loop_index [OF that(1)] array_lookup_eq [OF bd]
    by (auto simp: wrr_handle_eq wrr_cursor_ok_def split: option.splits prod.splits)
qed

end
