(* ===== verification/Consistent_Lookup.thy ===== *)
theory Consistent_Lookup
  imports Schedulers
begin

section \<open>Consistent hashing in the data path\<close>

text \<open>
  \<open>hash_key_consistent\<close>, \<open>consistent_hash_lookup\<close>, \<open>consistent_hash_is_stable\<close> and
  \<open>ch_balancer_handle\<close>: the packet's hash picks a slot of the Maglev table the control plane
  wrote (\<open>ch_curr_lookup\<close>, and \<open>ch_prev_lookup\<close> for the table before the last change), the
  slot holds an index into \<open>ch_backends\<close>.
\<close>

definition hash_key_consistent :: "u32 \<Rightarrow> u32 \<Rightarrow> u32" where
  "hash_key_consistent key seed =
     (let hash = seed;
          hash = hash XOR key;
          hash = hash * 0x9e3779b9;
          hash = push_bit 13 hash OR drop_bit 19 hash;
          hash = hash XOR drop_bit 17 hash;
          hash = hash * 0x85ebca6b
      in hash)"

text \<open>The \<open>__s32\<close> result is a 32-bit word; \<open>-1\<close> is the error value.\<close>

definition consistent_hash_lookup :: "u32 \<Rightarrow> bool \<Rightarrow> xdp_maps \<Rightarrow> u32 \<times> xdp_maps" where
  "consistent_hash_lookup key_hash use_prev st =
     (case array_lookup MAX_CH_CONFIG (ch_config st) 0 of
        None \<Rightarrow> (-1, st)
      | Some hashring_size \<Rightarrow>
          if hashring_size = 0 then (-1, st)
          else
            (let index = key_hash mod hashring_size;
                 backend_idx =
                   (if use_prev then array_lookup MAX_CH_SLOTS (ch_prev_lookup st) index
                    else array_lookup MAX_CH_SLOTS (ch_curr_lookup st) index)
             in case backend_idx of
                  None \<Rightarrow> (-1, st)
                | Some b \<Rightarrow>
                    if sint b < 0 then (-1, st)
                    else
                      (let same_as_prev =
                             (case array_lookup MAX_CH_SLOTS (ch_prev_lookup st) index of
                                None \<Rightarrow> False | Some prev_idx \<Rightarrow> prev_idx = b);
                           count = (\<lambda>stats.
                             (let stats = stats\<lparr>total_lookups := total_lookups stats + 1\<rparr>
                              in if use_prev then stats
                                 else if same_as_prev
                                      then stats\<lparr>stable_lookups := stable_lookups stats + 1\<rparr>
                                      else stats\<lparr>unstable_lookups := unstable_lookups stats + 1\<rparr>))
                       in (b, st\<lparr>ch_stats_map := array_modify 1 count 0 (ch_stats_map st)\<rparr>))))"

definition consistent_hash_is_stable :: "u32 \<Rightarrow> xdp_maps \<Rightarrow> bool" where
  "consistent_hash_is_stable key_hash st =
     (case array_lookup MAX_CH_CONFIG (ch_config st) 0 of
        None \<Rightarrow> True
      | Some hashring_size \<Rightarrow>
          if hashring_size = 0 then True
          else
            (let index = key_hash mod hashring_size
             in case (array_lookup MAX_CH_SLOTS (ch_curr_lookup st) index,
                      array_lookup MAX_CH_SLOTS (ch_prev_lookup st) index) of
                  (Some c, Some p) \<Rightarrow> c = p
                | _ \<Rightarrow> True))"

text \<open>
  \<open>ch_balancer_handle\<close> gives the lookup in \<open>services_packets_stats\<close> the pointer to the
  service key; the map's keys are 32-bit indices, so the helper reads the key's first four
  bytes, the IPv4 address.
\<close>

definition ch_balancer_handle ::
    "xdp_env \<Rightarrow> service_key \<Rightarrow> u32 \<Rightarrow> u32 \<Rightarrow> u32 \<Rightarrow> xdp_maps \<Rightarrow> pick_result" where
  "ch_balancer_handle env key key_hash packet_len last_index st =
     (let (backend_idx, st) = consistent_hash_lookup key_hash False st
      in if sint backend_idx < 0 then (None, last_index, st)
         else
           (let bid = backend_idx
            in case array_lookup MAX_CH_BACKENDS (ch_backends st) bid of
                 None \<Rightarrow> (None, last_index, st)
               | Some backend \<Rightarrow>
                   if active backend = 0 then (None, last_index, st)
                   else
                     (Some backend, bid,
                      service_stats env (count_packet packet_len) (vip4 key)
                        (backend_stats env (count_packet packet_len) bid st))))"

subsection \<open>The hash loses nothing\<close>

text \<open>Each step of the hash is undone by the corresponding step here.\<close>

definition unhash_key_consistent :: "u32 \<Rightarrow> u32 \<Rightarrow> u32" where
  "unhash_key_consistent hash seed =
     (let hash = hash * 0xa5cb9243;
          hash = hash XOR drop_bit 17 hash;
          hash = push_bit 19 hash OR drop_bit 13 hash;
          hash = hash * 0x144cbc89
      in hash XOR seed)"

lemma mul_inverses:
  "(0x9e3779b9 :: u32) * 0x144cbc89 = 1" "(0x85ebca6b :: u32) * 0xa5cb9243 = 1"
  by simp_all

lemma rotate_back:
  "push_bit 19 (push_bit 13 w OR drop_bit 19 w) OR drop_bit 13 (push_bit 13 w OR drop_bit 19 w)
   = (w :: u32)"
proof (rule bit_word_eqI)
  fix n assume "n < LENGTH(32)"
  then show "bit (push_bit 19 (push_bit 13 w OR drop_bit 19 w)
      OR drop_bit 13 (push_bit 13 w OR drop_bit 19 w)) n = bit w n"
    by (cases "n < 19") (auto simp: bit_simps)
qed

lemma xorshift_back: "(w XOR drop_bit 17 w) XOR drop_bit 17 (w XOR drop_bit 17 w) = (w :: u32)"
proof -
  have "drop_bit 17 (drop_bit 17 w) = 0"
    by (rule bit_word_eqI) (auto simp: bit_simps dest: bit_imp_le_length)
  then show ?thesis by (simp add: xor.assoc)
qed

lemma unhash_hash: "unhash_key_consistent (hash_key_consistent key seed) seed = key"
proof -
  have a: "w * 0x85ebca6b * 0xa5cb9243 = w" "w * 0x9e3779b9 * 0x144cbc89 = w" for w :: u32
    by (simp_all only: mult.assoc mul_inverses mult_1_right)
  show ?thesis
    by (simp only: hash_key_consistent_def unhash_key_consistent_def Let_def a xorshift_back rotate_back)
      (simp add: xor.commute [of seed] xor.assoc)
qed

subsection \<open>What a lookup does\<close>

lemma sint_minus_one: "sint (-1 :: u32) < 0"
  by simp

text \<open>A lookup changes nothing but its statistics.\<close>

lemma consistent_hash_lookup_frame:
  "consistent_hash_lookup h p st = (b, st') \<Longrightarrow> \<exists>x. st' = st\<lparr>ch_stats_map := x\<rparr>"
  by (cases st) (auto simp: consistent_hash_lookup_def Let_def split: option.splits if_splits)

lemma consistent_hash_lookup_slot:
  assumes "consistent_hash_lookup h p st = (b, st')" and "0 \<le> sint b"
  shows "ch_config st 0 \<noteq> 0"
    and "array_lookup MAX_CH_SLOTS (if p then ch_prev_lookup st else ch_curr_lookup st)
           (h mod ch_config st 0) = Some b"
  using assms sint_minus_one
  by (auto simp: consistent_hash_lookup_def Let_def array_lookup_def max_defs split: if_splits)

text \<open>Whether the lookup is counted as stable is what \<open>consistent_hash_is_stable\<close> says.\<close>

lemma consistent_hash_lookup_stats:
  assumes look: "consistent_hash_lookup h False st = (b, st')" and b: "0 \<le> sint b"
  shows "ch_stats_map st' 0 =
    (let s = ch_stats_map st 0;
         s = s\<lparr>total_lookups := total_lookups s + 1\<rparr>
     in if consistent_hash_is_stable h st
        then s\<lparr>stable_lookups := stable_lookups s + 1\<rparr>
        else s\<lparr>unstable_lookups := unstable_lookups s + 1\<rparr>)"
proof -
  have slot: "ch_config st 0 \<noteq> 0" "ch_curr_lookup st (unat (h mod ch_config st 0)) = b"
      "unat (h mod ch_config st 0) < MAX_CH_SLOTS"
    using consistent_hash_lookup_slot [OF look b] by (auto simp: array_lookup_def split: if_splits)
  then show ?thesis using look b
    by (auto simp: consistent_hash_lookup_def consistent_hash_is_stable_def Let_def
        array_lookup_def array_modify_apply MAX_CH_CONFIG_def)
qed

definition ch_frame :: "xdp_maps \<Rightarrow> xdp_maps \<Rightarrow> bool" where
  "ch_frame st st' \<longleftrightarrow>
     st' = st\<lparr>ch_stats_map := ch_stats_map st',
               backends_packets_stats := backends_packets_stats st',
               services_packets_stats := services_packets_stats st'\<rparr>"

lemma ch_balancer_frame:
  assumes "ch_balancer_handle env key h n l st = (r, l', st')"
  shows "ch_frame st st'"
proof -
  obtain b s where look: "consistent_hash_lookup h False st = (b, s)" by (rule prod.exhaust)
  from consistent_hash_lookup_frame [OF look] obtain x where s: "s = st\<lparr>ch_stats_map := x\<rparr>" ..
  show ?thesis
    using assms
    by (auto simp: ch_balancer_handle_def look s ch_frame_def Let_def backend_stats_def
        service_stats_def split: if_splits option.splits)
qed

lemma ch_frame_fields:
  assumes "ch_frame st st'"
  shows "services_first st' = services_first st" "services_second st' = services_second st"
    "atomic_index st' = atomic_index st" "backends_first st' = backends_first st"
    "backends_second st' = backends_second st" "ch_backends st' = ch_backends st"
    "rr_index st' = rr_index st" "wrr_state_map st' = wrr_state_map st"
    "tcp_session_state st' = tcp_session_state st"
    "syn_tracker st' = syn_tracker st" "blacklist st' = blacklist st"
    "ddos_cfg st' = ddos_cfg st" "global_syn st' = global_syn st"
  by (subst assms [unfolded ch_frame_def], simp)+

text \<open>A chosen backend is an active entry of \<open>ch_backends\<close>, the one its slot names.\<close>

lemma ch_balancer_slot:
  assumes h: "ch_balancer_handle env key h n l st = (Some be, i, st')"
  shows "be = ch_backends st (unat i)" "unat i < MAX_CH_BACKENDS" "active be \<noteq> 0"
    "ch_config st 0 \<noteq> 0"
    "ch_curr_lookup st (unat (h mod ch_config st 0)) = i"
proof -
  obtain b s where look: "consistent_hash_lookup h False st = (b, s)" by (rule prod.exhaust)
  from consistent_hash_lookup_frame [OF look] obtain x where s: "s = st\<lparr>ch_stats_map := x\<rparr>" ..
  have b: "\<not> sint b < 0" "i = b" "array_lookup MAX_CH_BACKENDS (ch_backends st) b = Some be"
      "active be \<noteq> 0"
    using h by (auto simp: ch_balancer_handle_def look s Let_def split: if_splits option.splits)
  then show "be = ch_backends st (unat i)" "unat i < MAX_CH_BACKENDS" "active be \<noteq> 0"
    by (auto simp: array_lookup_def split: if_splits)
  show "ch_config st 0 \<noteq> 0" "ch_curr_lookup st (unat (h mod ch_config st 0)) = i"
    using consistent_hash_lookup_slot [OF look] b by (auto simp: array_lookup_def split: if_splits)
qed

text \<open>
  The service counter is at the index the virtual address has when read as a number: no
  counter at all for an address of 256 or more.
\<close>

lemma ch_service_counter_missed:
  assumes "ch_balancer_handle env key h n l st = (Some be, i, st')"
    and "MAX_SERVICES \<le> unat (vip4 key)"
  shows "services_packets_stats st' = services_packets_stats st"
proof -
  obtain b s where look: "consistent_hash_lookup h False st = (b, s)" by (rule prod.exhaust)
  from consistent_hash_lookup_frame [OF look] obtain x where s: "s = st\<lparr>ch_stats_map := x\<rparr>" ..
  show ?thesis
    using assms
    by (auto simp: ch_balancer_handle_def look s Let_def backend_stats_def service_stats_def
        percpu_modify_def array_modify_def array_lookup_def split: if_splits option.splits)
qed

end
