(* ===== verification/Ch_Publish.thy ===== *)
theory Ch_Publish
  imports Ch_Instance Consistent_Lookup
begin

section \<open>Publishing a consistent-hash table to the data path\<close>

text \<open>
  \<open>XdpDataplane::updateChBpfMaps\<close> of \<open>controlplane/src/manager/xdpdataplane.cpp\<close> copies an
  instance into the BPF maps that \<open>consistent_hash_lookup\<close> of \<open>xdp/balancer.bpf.c\<close> reads. The
  maps have room for 65537 slots and 257 backends; a write beyond them fails and leaves what was
  written before. The file descriptors are those \<open>RunProgram\<close> opened.
\<close>

text \<open>\<open>for (i = 0; i < n; ++i) if (bpf_map_update_elem(fd, &i, &vs[i], BPF_ANY) != 0) return false;\<close>\<close>

fun write_slots :: "nat \<Rightarrow> nat \<Rightarrow> 'v list \<Rightarrow> 'v bpf_array \<Rightarrow> bool \<times> 'v bpf_array" where
  "write_slots max_entries i [] m = (True, m)"
| "write_slots max_entries i (v # vs) m =
     (case array_update max_entries m (of_nat i) v of
        (False, m) \<Rightarrow> (False, m)
      | (True, m) \<Rightarrow> write_slots max_entries (Suc i) vs m)"

definition updateChBpfMaps ::
    "bool \<Rightarrow> service_key \<Rightarrow> backend list \<Rightarrow> int list \<Rightarrow> int list \<Rightarrow> u32 \<Rightarrow> xdp_maps \<Rightarrow> bool \<times> xdp_maps"
where
  "updateChBpfMaps fds_ok service_key backends curr_table prev_table m st =
     (if \<not> fds_ok then (False, st)
      else
        (case array_update MAX_CH_CONFIG (ch_config st) 0 m of
           (False, config) \<Rightarrow> (False, st\<lparr>ch_config := config\<rparr>)
         | (True, config) \<Rightarrow>
             (let st = st\<lparr>ch_config := config\<rparr>;
                  st = st\<lparr>ch_config :=
                     snd (array_update MAX_CH_CONFIG (ch_config st) 1 (of_nat (length backends)))\<rparr>;
                  (done, bs) = write_slots MAX_CH_BACKENDS 0 backends (ch_backends st);
                  st = st\<lparr>ch_backends := bs\<rparr>
              in if \<not> done then (False, st)
                 else
                   (let (done, slots) = write_slots MAX_CH_SLOTS 0
                          (map of_int (take (unat m) curr_table)) (ch_curr_lookup st);
                        st = st\<lparr>ch_curr_lookup := slots\<rparr>
                    in if \<not> done then (False, st)
                       else
                         (let (done, slots) = write_slots MAX_CH_SLOTS 0
                                (map of_int (take (unat m) prev_table)) (ch_prev_lookup st)
                          in (done, st\<lparr>ch_prev_lookup := slots\<rparr>))))))"

definition publish :: "bool \<Rightarrow> service_key \<Rightarrow> ch_instance \<Rightarrow> xdp_maps \<Rightarrow> bool \<times> xdp_maps" where
  "publish fds_ok key inst st =
     updateChBpfMaps fds_ok key (m_backends inst) (m_currLookup inst) (m_prevLookup inst)
       (hashring_size (m_config inst)) st"

subsection \<open>Writing a list of slots\<close>

lemma unat_small_u32: "i < 4294967296 \<Longrightarrow> unat (of_nat i :: u32) = i"
  by (simp add: unat_of_nat)

lemma array_update_nat:
  "i < 4294967296 \<Longrightarrow>
     array_update n m (of_nat i :: u32) v = (if i < n then (True, m(i := v)) else (False, m))"
  by (simp add: array_update_def unat_small_u32)

lemma write_slots_fits:
  "i + length vs \<le> n \<Longrightarrow> n < 4294967296 \<Longrightarrow>
     write_slots n i vs m = (True, \<lambda>j. if i \<le> j \<and> j < i + length vs then vs ! (j - i) else m j)"
proof (induction vs arbitrary: i m)
  case Nil
  then show ?case by (auto simp: fun_eq_iff)
next
  case (Cons v vs)
  have "(\<lambda>j. if Suc i \<le> j \<and> j < Suc i + length vs then vs ! (j - Suc i) else (m(i := v)) j)
      = (\<lambda>j. if i \<le> j \<and> j < i + length (v # vs) then (v # vs) ! (j - i) else m j)"
    by (auto simp: fun_eq_iff nth_Cons' Suc_diff_le)
  then show ?case using Cons by (simp add: array_update_nat)
qed

text \<open>A list that is too long fills the map and fails.\<close>

lemma write_slots_full:
  "i \<le> n \<Longrightarrow> n < i + length vs \<Longrightarrow> n < 4294967296 \<Longrightarrow>
     write_slots n i vs m = (False, \<lambda>j. if i \<le> j \<and> j < n then vs ! (j - i) else m j)"
proof (induction vs arbitrary: i m)
  case (Cons v vs)
  show ?case
  proof (cases "i = n")
    case True
    then show ?thesis using Cons.prems by (auto simp: array_update_nat fun_eq_iff)
  next
    case False
    have "(\<lambda>j. if Suc i \<le> j \<and> j < n then vs ! (j - Suc i) else (m(i := v)) j)
        = (\<lambda>j. if i \<le> j \<and> j < n then (v # vs) ! (j - i) else m j)"
      using False Cons.prems(1) by (auto simp: fun_eq_iff nth_Cons' Suc_diff_le)
    then show ?thesis using False Cons by (simp add: array_update_nat)
  qed
qed simp

subsection \<open>What a publication leaves in the maps\<close>

definition published :: "ch_instance \<Rightarrow> xdp_maps \<Rightarrow> bool" where
  "published inst st \<longleftrightarrow>
     ch_config st 0 = hashring_size (m_config inst)
     \<and> ch_config st 1 = of_nat (length (m_backends inst))
     \<and> (\<forall>i < length (m_backends inst). ch_backends st i = m_backends inst ! i)
     \<and> (\<forall>i < ring inst. ch_curr_lookup st i = of_int (m_currLookup inst ! i)
                          \<and> ch_prev_lookup st i = of_int (m_prevLookup inst ! i))"

lemma ch_max_small: "MAX_CH_SLOTS < 4294967296" "MAX_CH_BACKENDS < 4294967296" "MAX_CH_CONFIG = 4"
  by (simp_all add: max_defs)

lemma config_writes:
  "array_update 4 c (0 :: u32) v = (True, c(0 := v))" "array_update 4 c (1 :: u32) v = (True, c(1 := v))"
  by (simp_all add: array_update_def)

lemma publish_fits:
  assumes ok: "instance_ok inst" and n: "length (m_backends inst) \<le> MAX_CH_BACKENDS"
    and m: "ring inst \<le> MAX_CH_SLOTS"
  obtains st' where "publish True key inst st = (True, st')" "published inst st'"
    "st' = st\<lparr>ch_config := ch_config st', ch_backends := ch_backends st',
              ch_curr_lookup := ch_curr_lookup st', ch_prev_lookup := ch_prev_lookup st'\<rparr>"
proof -
  let ?tab = "\<lambda>t m. \<lambda>j. if j < ring inst then (of_int (t ! j) :: u32) else m j"
  let ?st' = "st\<lparr>ch_config := (ch_config st)(0 := hashring_size (m_config inst), 1 := of_nat (length (m_backends inst))),
      ch_backends := (\<lambda>j. if j < length (m_backends inst) then m_backends inst ! j else ch_backends st j),
      ch_curr_lookup := ?tab (m_currLookup inst) (ch_curr_lookup st),
      ch_prev_lookup := ?tab (m_prevLookup inst) (ch_prev_lookup st)\<rparr>"
  note len = tables_length [OF ok]
  have slots: "write_slots MAX_CH_SLOTS 0 (map of_int t) mp = (True, ?tab t mp)"
    if "length t = ring inst" for t mp
    using that m ch_max_small(1) by (subst write_slots_fits) (auto simp: fun_eq_iff)
  have "write_slots MAX_CH_BACKENDS 0 (m_backends inst) (ch_backends st) =
      (True, ch_backends ?st')"
    using n ch_max_small(2) by (subst write_slots_fits) (auto simp: fun_eq_iff)
  then have "publish True key inst st = (True, ?st')"
    by (simp add: publish_def updateChBpfMaps_def ch_max_small(3) config_writes len ring_def [symmetric]
        slots Let_def)
  moreover have "published inst ?st'" by (simp add: published_def)
  ultimately show ?thesis by (rule that) simp
qed

subsection \<open>The data path reads what was published\<close>

text \<open>The result of a data-path lookup for a control-plane one: \<open>-1\<close> for no value.\<close>

definition lookup_word :: "int option \<Rightarrow> u32" where
  "lookup_word r = (case r of None \<Rightarrow> -1 | Some i \<Rightarrow> of_int i)"

lemma sint_table_entry:
  "0 \<le> i \<Longrightarrow> i < 2147483648 \<Longrightarrow> sint (of_int i :: u32) = i"
  using signed_take_bit_31 [of i] by (simp add: sint_sbintrunc')

lemma full_table_entry:
  assumes "full_table m n tab" "p < m" "n \<le> MAX_CH_BACKENDS"
  shows "0 \<le> tab ! p" "tab ! p < 257" "sint (of_int (tab ! p) :: u32) = tab ! p"
  using assms sint_table_entry [of "tab ! p"] by (force simp: full_table_def max_defs)+

lemma slot_in_ring:
  "instance_ok inst \<Longrightarrow> unat (h mod hashring_size (m_config inst)) < ring inst"
  using slot_less [of inst h] by (simp add: slot_def)

lemma dataplane_reads_curr:
  assumes pub: "published inst st" and ok: "instance_ok inst" and ne: "m_backends inst \<noteq> []"
    and n: "length (m_backends inst) \<le> MAX_CH_BACKENDS" and m: "ring inst \<le> MAX_CH_SLOTS"
  shows "fst (consistent_hash_lookup h False st) = lookup_word (lookupCurr h inst)"
proof -
  obtain i where i: "lookupCurr h inst = Some i" "m_currLookup inst ! slot h inst = i"
    by (rule lookupCurr_backend [OF ok ne])
  have full: "full_table (ring inst) (length (m_backends inst)) (m_currLookup inst)"
    using ok ne by (simp add: instance_ok_def tables_ok_def)
  have s: "slot h inst < ring inst" by (rule slot_less [OF ok])
  have "ch_config st 0 \<noteq> 0"
    using pub ok by (auto simp: published_def instance_ok_def coprime_size_def ring_def)
  moreover have "unat (h mod ch_config st 0) = slot h inst" using pub by (simp add: published_def slot_def)
  moreover have "ch_curr_lookup st (slot h inst) = of_int i" using pub s i(2) by (simp add: published_def)
  moreover have "\<not> sint (of_int i :: u32) < 0"
    using full_table_entry [OF full s n] by (simp add: i(2))
  ultimately show ?thesis using s m
    by (simp add: consistent_hash_lookup_def array_lookup_def ch_max_small(3) i(1) lookup_word_def Let_def)
qed

text \<open>
  The two sides agree on which keys are stable when there is a previous table; without one the
  control plane calls every key stable and the data path none.
\<close>

lemma of_int_entry_eq:
  assumes "full_table m n t" "full_table m k u" "p < m" "n \<le> MAX_CH_BACKENDS" "k \<le> MAX_CH_BACKENDS"
  shows "(of_int (t ! p) = (of_int (u ! p) :: u32)) = (t ! p = u ! p)"
  using full_table_entry(3) [OF assms(1,3,4)] full_table_entry(3) [OF assms(2,3,5)] by metis

lemma dataplane_stable:
  assumes pub: "published inst st" and ok: "instance_ok inst" and m: "ring inst \<le> MAX_CH_SLOTS"
  shows "consistent_hash_is_stable h st \<longleftrightarrow>
    (of_int (m_currLookup inst ! slot h inst) :: u32) = of_int (m_prevLookup inst ! slot h inst)"
proof -
  have s: "slot h inst < ring inst" by (rule slot_less [OF ok])
  have "ch_config st 0 \<noteq> 0"
    using pub ok by (auto simp: published_def instance_ok_def coprime_size_def ring_def)
  moreover have "unat (h mod ch_config st 0) = slot h inst" using pub by (simp add: published_def slot_def)
  ultimately show ?thesis using pub s m
    by (simp add: consistent_hash_is_stable_def array_lookup_def ch_max_small(3) Let_def published_def)
qed

end
