(* ===== verification/Ordered_Map.thy ===== *)
theory Ordered_Map
  imports Balancer_State "HOL-Library.List_Lexorder" "HOL-Library.Product_Lexorder"
begin

section \<open>Ordered maps and their keys\<close>

text \<open>
  The control plane keeps services and backends in \<open>std::map\<close>, ordered by the \<open>operator<=>\<close> of
  \<open>controlplane/include/manager/xdpstructs.h\<close>. The comparisons ignore the padding and the part
  of the address union that is not in use, so that different byte patterns can be one key. A map
  is the list of its entries in order; the interface below is what a strict weak order gives.
\<close>

subsection \<open>Three-way comparison\<close>

datatype ordering = Less | Equal | Greater

text \<open>A result is compared with zero, which is \<open>Equal\<close>: \<open>a < b\<close> is \<open>(a <=> b) < 0\<close>.\<close>

instantiation ordering :: linorder
begin

definition less_eq_ordering :: "ordering \<Rightarrow> ordering \<Rightarrow> bool" where
  "less_eq_ordering a b \<longleftrightarrow> a = Less \<or> b = Greater \<or> a = b"

definition less_ordering :: "ordering \<Rightarrow> ordering \<Rightarrow> bool" where
  "less_ordering a b \<longleftrightarrow> a \<le> b \<and> (a::ordering) \<noteq> b"

instance
proof
  fix a b c :: ordering
  show "a < b \<longleftrightarrow> a \<le> b \<and> \<not> b \<le> a" "a \<le> a" "a \<le> b \<or> b \<le> a"
    by (cases a; cases b; simp add: less_eq_ordering_def less_ordering_def)+
  show "a \<le> b \<Longrightarrow> b \<le> c \<Longrightarrow> a \<le> c" "a \<le> b \<Longrightarrow> b \<le> a \<Longrightarrow> a = b"
    by (auto simp: less_eq_ordering_def)
qed

end

lemma less_Equal [simp]: "a < Equal \<longleftrightarrow> a = Less"
  by (cases a) (simp_all add: less_eq_ordering_def less_ordering_def)

definition cmp :: "'a::linorder \<Rightarrow> 'a \<Rightarrow> ordering" where
  "cmp a b = (if a < b then Less else if a = b then Equal else Greater)"

text \<open>\<open>if (auto cmp = ...; cmp != 0) return cmp;\<close>\<close>

fun or_else :: "ordering \<Rightarrow> ordering \<Rightarrow> ordering" where
  "or_else Equal c = c"
| "or_else c _ = c"

fun memcmp :: "bytes \<Rightarrow> bytes \<Rightarrow> ordering" where
  "memcmp (a # as) (b # bs) = or_else (cmp a b) (memcmp as bs)"
| "memcmp [] [] = Equal"
| "memcmp [] _ = Less"
| "memcmp _ [] = Greater"

definition service_key_cmp :: "service_key \<Rightarrow> service_key \<Rightarrow> ordering" where
  "service_key_cmp k other =
     or_else (cmp (sk_ip_version k) (sk_ip_version other))
       (or_else (if sk_ip_version k = 4 then cmp (vip4 k) (vip4 other) else memcmp (vip6 k) (vip6 other))
         (or_else (cmp (sk_port k) (sk_port other))
           (cmp (sk_protocol k) (sk_protocol other))))"

definition be_ipv4 :: "backend \<Rightarrow> u32" where
  "be_ipv4 b = le32 (take 4 (be_addr b))"

definition backend_cmp :: "backend \<Rightarrow> backend \<Rightarrow> ordering" where
  "backend_cmp b other =
     or_else (cmp (be_ip_version b) (be_ip_version other))
       (or_else (if be_ip_version b = 4 then cmp (be_ipv4 b) (be_ipv4 other)
                 else memcmp (be_addr b) (be_addr other))
         (or_else (cmp (be_port b) (be_port other))
           (or_else (memcmp (mac b) (mac other))
             (or_else (cmp (active b) (active other))
               (cmp (weight b) (weight other))))))"

definition service_key_lt :: "service_key \<Rightarrow> service_key \<Rightarrow> bool" where
  "service_key_lt a b \<longleftrightarrow> service_key_cmp a b < Equal"

definition backend_lt :: "backend \<Rightarrow> backend \<Rightarrow> bool" where
  "backend_lt a b \<longleftrightarrow> backend_cmp a b < Equal"

subsection \<open>Maps\<close>

type_synonym ('k, 'v) omap = "('k \<times> 'v) list"

fun omap_find :: "('k \<Rightarrow> 'k \<Rightarrow> bool) \<Rightarrow> 'k \<Rightarrow> ('k, 'v) omap \<Rightarrow> 'v option" where
  "omap_find lt k [] = None"
| "omap_find lt k ((k', v) # m) =
     (if lt k' k then omap_find lt k m else if lt k k' then None else Some v)"

text \<open>\<open>m[k] = v\<close>: the key of an entry that exists stays.\<close>

fun omap_put :: "('k \<Rightarrow> 'k \<Rightarrow> bool) \<Rightarrow> 'k \<Rightarrow> 'v \<Rightarrow> ('k, 'v) omap \<Rightarrow> ('k, 'v) omap" where
  "omap_put lt k v [] = [(k, v)]"
| "omap_put lt k v ((k', v') # m) =
     (if lt k' k then (k', v') # omap_put lt k v m
      else if lt k k' then (k, v) # (k', v') # m
      else (k', v) # m)"

text \<open>\<open>m.erase(k)\<close>, with the number of entries erased.\<close>

fun omap_erase :: "('k \<Rightarrow> 'k \<Rightarrow> bool) \<Rightarrow> 'k \<Rightarrow> ('k, 'v) omap \<Rightarrow> nat \<times> ('k, 'v) omap" where
  "omap_erase lt k [] = (0, [])"
| "omap_erase lt k ((k', v') # m) =
     (if lt k' k then (let (n, m) = omap_erase lt k m in (n, (k', v') # m))
      else if lt k k' then (0, (k', v') # m)
      else (1, m))"

definition omap_ok :: "('k \<Rightarrow> 'k \<Rightarrow> bool) \<Rightarrow> ('k, 'v) omap \<Rightarrow> bool" where
  "omap_ok lt m \<longleftrightarrow> sorted_wrt lt (map fst m)"

subsection \<open>What an order by rank gives\<close>

text \<open>
  The comparison is that of a rank in a linear order; two keys are the same entry when their
  ranks agree.
\<close>

locale ranked_order =
  fixes lt :: "'k \<Rightarrow> 'k \<Rightarrow> bool"
    and rank :: "'k \<Rightarrow> 'r::linorder"
  assumes lt_rank: "lt a b \<longleftrightarrow> rank a < rank b"
begin

lemma lt_eq: "lt = (\<lambda>a b. rank a < rank b)"
  by (intro ext) (rule lt_rank)

lemma find_above: "(\<And>p. p \<in> set m \<Longrightarrow> rank k < rank (fst p)) \<Longrightarrow> omap_find lt k m = None"
  unfolding lt_eq by (cases m) force+

lemma put_keys: "p \<in> set (omap_put lt k v m) \<Longrightarrow> fst p = k \<or> fst p \<in> fst ` set m"
  by (induction m) (auto split: if_splits)

lemma put_ok: "omap_ok lt m \<Longrightarrow> omap_ok lt (omap_put lt k v m)"
proof (induction m)
  case (Cons p m)
  obtain k' v' where p: "p = (k', v')" by (cases p)
  have "rank k' < rank (fst x)" if "rank k' < rank k" "x \<in> set (omap_put lt k v m)" for x
    using that Cons.prems put_keys [of x k v m] unfolding lt_eq by (auto simp: omap_ok_def p)
  then show ?case using Cons unfolding lt_eq by (fastforce simp: omap_ok_def p)
qed (simp add: omap_ok_def)

lemma find_put:
  "omap_find lt j (omap_put lt k v m) = (if rank k = rank j then Some v else omap_find lt j m)"
  unfolding lt_eq by (induction m) auto

lemma erase_subset: "p \<in> set (snd (omap_erase lt k m)) \<Longrightarrow> p \<in> set m"
  by (induction m) (auto simp: split_beta split: if_splits)

lemma erase_ok: "omap_ok lt m \<Longrightarrow> omap_ok lt (snd (omap_erase lt k m))"
proof (induction m)
  case (Cons p m)
  then show ?case using erase_subset [of _ k m]
    by (cases p) (auto simp: omap_ok_def split_beta)
qed (simp add: omap_ok_def)

lemma find_erase:
  "omap_ok lt m \<Longrightarrow>
     omap_find lt j (snd (omap_erase lt k m)) = (if rank k = rank j then None else omap_find lt j m)"
proof (induction m)
  case (Cons p m)
  obtain k' v' where p: "p = (k', v')" by (cases p)
  have "rank k' < rank (fst x)" if "x \<in> set m" for x
    using Cons.prems that unfolding lt_eq by (auto simp: omap_ok_def p)
  then have "rank j \<le> rank k' \<Longrightarrow> omap_find lt j m = None"
    by (intro find_above) (meson le_less_trans)
  then show ?case using Cons unfolding lt_eq by (auto simp: p omap_ok_def split_beta)
qed simp

lemma erase_count: "fst (omap_erase lt k m) = (if omap_find lt k m = None then 0 else 1)"
  unfolding lt_eq by (induction m) (auto simp: split_beta split: if_splits)

lemma find_mem: "omap_find lt k m = Some v \<Longrightarrow> \<exists>k'. (k', v) \<in> set m \<and> rank k' = rank k"
  unfolding lt_eq by (induction m) (auto split: if_splits)

lemma mem_find: "omap_ok lt m \<Longrightarrow> (k, v) \<in> set m \<Longrightarrow> omap_find lt k m = Some v"
  unfolding lt_eq by (induction m) (auto simp: omap_ok_def)

end

subsection \<open>The keys of the program are ordered\<close>

lemma or_else_cmp:
  "or_else (cmp a b) c = (if a < b then Less else if a = b then c else Greater)"
  by (simp add: cmp_def)

lemma memcmp_cmp: "memcmp as bs = cmp (map unat as) (map unat bs)"
  by (induction as bs rule: memcmp.induct)
    (auto simp: or_else_cmp cmp_def word_less_nat_alt dest: unsigned_word_eqI)

text \<open>The part of an address union that is in use.\<close>

definition addr_rank :: "u8 \<Rightarrow> bytes \<Rightarrow> nat list" where
  "addr_rank version addr = (if version = 4 then [unat (le32 (take 4 addr))] else map unat addr)"

lemma addr_cmp:
  "(if v = 4 then cmp (le32 (take 4 a)) (le32 (take 4 b)) else memcmp a b)
   = cmp (addr_rank v a) (addr_rank v b)"
  by (auto simp: addr_rank_def memcmp_cmp cmp_def word_less_nat_alt dest: unsigned_word_eqI)

definition service_key_rank :: "service_key \<Rightarrow> u8 \<times> nat list \<times> u16 \<times> u8" where
  "service_key_rank k =
     (sk_ip_version k, addr_rank (sk_ip_version k) (vip6 k), sk_port k, sk_protocol k)"

definition backend_rank :: "backend \<Rightarrow> u8 \<times> nat list \<times> u16 \<times> nat list \<times> u8 \<times> u8" where
  "backend_rank b =
     (be_ip_version b, addr_rank (be_ip_version b) (be_addr b), be_port b, map unat (mac b),
      active b, weight b)"

lemma service_key_cmp_rank: "service_key_cmp a b = cmp (service_key_rank a) (service_key_rank b)"
proof (cases "sk_ip_version a = sk_ip_version b")
  case True
  have "service_key_cmp a b =
      or_else (cmp (sk_ip_version a) (sk_ip_version b))
        (or_else (cmp (addr_rank (sk_ip_version a) (vip6 a)) (addr_rank (sk_ip_version a) (vip6 b)))
          (or_else (cmp (sk_port a) (sk_port b)) (cmp (sk_protocol a) (sk_protocol b))))"
    unfolding service_key_cmp_def vip4_def addr_cmp ..
  then show ?thesis unfolding or_else_cmp using True
    by (auto simp: cmp_def service_key_rank_def less_prod_simp)
next
  case False
  then show ?thesis by (auto simp: service_key_cmp_def or_else_cmp cmp_def service_key_rank_def)
qed

lemma backend_cmp_rank: "backend_cmp a b = cmp (backend_rank a) (backend_rank b)"
proof (cases "be_ip_version a = be_ip_version b")
  case True
  have "backend_cmp a b =
      or_else (cmp (be_ip_version a) (be_ip_version b))
        (or_else (cmp (addr_rank (be_ip_version a) (be_addr a)) (addr_rank (be_ip_version a) (be_addr b)))
          (or_else (cmp (be_port a) (be_port b))
            (or_else (cmp (map unat (mac a)) (map unat (mac b)))
              (or_else (cmp (active a) (active b)) (cmp (weight a) (weight b))))))"
    unfolding backend_cmp_def be_ipv4_def addr_cmp by (simp only: memcmp_cmp)
  then show ?thesis unfolding or_else_cmp using True
    by (auto simp: cmp_def backend_rank_def less_prod_simp)
next
  case False
  then show ?thesis by (auto simp: backend_cmp_def or_else_cmp cmp_def backend_rank_def)
qed

interpretation sk: ranked_order service_key_lt service_key_rank
  by unfold_locales (simp add: service_key_lt_def service_key_cmp_rank cmp_def)

interpretation bk: ranked_order backend_lt backend_rank
  by unfold_locales (simp add: backend_lt_def backend_cmp_rank cmp_def)

end
