(* ===== verification/Ch_Manager.thy ===== *)
theory Ch_Manager
  imports Ch_Publish Ordered_Map
begin

section \<open>The consistent-hash manager\<close>

text \<open>
  \<open>ConsistentHashManager\<close> of \<open>controlplane/src/algorithm/consistent_hash.cpp\<close>: an instance per
  service, and a callback into the data plane after every change and every merge. The callback
  is an argument, a function on a state of its own type, absent until it is set; its result is
  ignored, as in the code. \<open>None\<close> is undefined behaviour in an instance.
\<close>

record service_entry =
  se_key :: service_key
  se_instance :: ch_instance
  se_config :: instance_config

type_synonym ch_services = "(service_key, service_entry) omap"

type_synonym 's bpf_callback =
  "service_key \<Rightarrow> backend list \<Rightarrow> int list \<Rightarrow> int list \<Rightarrow> u32 \<Rightarrow> 's \<Rightarrow> bool \<times> 's"

text \<open>\<open>if (m_bpfCallback) m_bpfCallback(key, inst->getBackends(), ...)\<close>.\<close>

definition call_bpf :: "'s bpf_callback option \<Rightarrow> service_key \<Rightarrow> ch_instance \<Rightarrow> 's \<Rightarrow> 's" where
  "call_bpf callback key inst s =
     (case callback of
        None \<Rightarrow> s
      | Some f \<Rightarrow>
          snd (f key (m_backends inst) (m_currLookup inst) (m_prevLookup inst)
                 (hashring_size (m_config inst)) s))"

definition updateServiceBackends ::
    "'s bpf_callback option \<Rightarrow> service_key \<Rightarrow> backend list \<Rightarrow> instance_config \<Rightarrow>
     ch_services \<times> 's \<Rightarrow> (bool \<times> ch_services \<times> 's) option"
where
  "updateServiceBackends callback key backends config ms =
     (let (m_services, s) = ms
      in case omap_find service_key_lt key m_services of
           Some entry \<Rightarrow>
             (case updateBackends backends (se_instance entry) of
                None \<Rightarrow> None
              | Some inst \<Rightarrow>
                  Some (True, omap_put service_key_lt key (entry\<lparr>se_instance := inst\<rparr>) m_services,
                        call_bpf callback key inst s))
         | None \<Rightarrow>
             (case updateBackends backends (new_instance config) of
                None \<Rightarrow> None
              | Some inst \<Rightarrow>
                  Some (True,
                        omap_put service_key_lt key
                          \<lparr>se_key = key, se_instance = inst, se_config = config\<rparr> m_services,
                        call_bpf callback key inst s)))"

definition removeService :: "service_key \<Rightarrow> ch_services \<Rightarrow> bool \<times> ch_services" where
  "removeService key m_services =
     (let (n, m_services) = omap_erase service_key_lt key m_services in (0 < n, m_services))"

definition getInstance :: "service_key \<Rightarrow> ch_services \<Rightarrow> ch_instance option" where
  "getInstance key m_services = map_option se_instance (omap_find service_key_lt key m_services)"

text \<open>One pass over the services in the order of their keys.\<close>

fun periodicMaintenance ::
    "'s bpf_callback option \<Rightarrow> ch_services \<times> 's \<Rightarrow> ch_services \<times> 's" where
  "periodicMaintenance callback ([], s) = ([], s)"
| "periodicMaintenance callback ((key, entry) # m_services, s) =
     (let (entry, s) =
            (if m_needsMerge (se_instance entry)
             then (let (merged, inst) = tickMergeTimer (se_instance entry)
                   in (entry\<lparr>se_instance := inst\<rparr>,
                       if merged then call_bpf callback (se_key entry) inst s else s))
             else (entry, s));
          (m_services, s) = periodicMaintenance callback (m_services, s)
      in ((key, entry) # m_services, s))"

definition getAllStats :: "ch_services \<Rightarrow> (service_key, instance_stats) omap" where
  "getAllStats m_services =
     foldl (\<lambda>stats (key, entry). omap_put service_key_lt key (m_stats (se_instance entry)) stats)
       [] m_services"

subsection \<open>The invariant of the services\<close>

text \<open>The entries are in order, under keys that name their own, and every instance is well formed.\<close>

definition entry_ok :: "service_key \<Rightarrow> service_entry \<Rightarrow> bool" where
  "entry_ok key entry \<longleftrightarrow>
     service_key_rank (se_key entry) = service_key_rank key
     \<and> m_config (se_instance entry) = se_config entry \<and> instance_ok (se_instance entry)"

definition services_ok :: "ch_services \<Rightarrow> bool" where
  "services_ok m \<longleftrightarrow> omap_ok service_key_lt m \<and> (\<forall>(key, entry) \<in> set m. entry_ok key entry)"

lemma services_ok_Nil [simp]: "services_ok []"
  by (simp add: services_ok_def omap_ok_def)

lemma put_entries:
  "(k', e') \<in> set (omap_put lt k e m) \<Longrightarrow>
     (k', e') \<in> set m \<or> e' = e \<and> (k' = k \<or> (\<not> lt k' k \<and> \<not> lt k k'))"
  by (induction m) (auto split: if_splits)

lemma not_lt_rank: "\<not> service_key_lt a b \<Longrightarrow> \<not> service_key_lt b a \<Longrightarrow> service_key_rank a = service_key_rank b"
  by (simp add: sk.lt_rank)

lemma services_ok_put:
  assumes "services_ok m" "entry_ok key entry"
  shows "services_ok (omap_put service_key_lt key entry m)"
proof -
  have "entry_ok k e" if "(k, e) \<in> set (omap_put service_key_lt key entry m)" for k e
    using put_entries [OF that] assms not_lt_rank [of k key]
    by (auto simp: services_ok_def entry_ok_def)
  then show ?thesis using assms(1) sk.put_ok by (auto simp: services_ok_def)
qed

lemma services_ok_find:
  assumes "services_ok m" "omap_find service_key_lt key m = Some entry"
  shows "entry_ok key entry"
  using sk.find_mem [OF assms(2)] assms(1) by (auto simp: services_ok_def entry_ok_def)

lemma updateBackends_config: "updateBackends bs inst = Some inst' \<Longrightarrow> m_config inst' = m_config inst"
  by (auto simp: updateBackends_def clear_instance_def Let_def split: if_splits option.splits)

text \<open>The entry a service has before an update: its own or a new one.\<close>

definition entry_of :: "service_key \<Rightarrow> instance_config \<Rightarrow> ch_services \<Rightarrow> service_entry" where
  "entry_of key config m =
     (case omap_find service_key_lt key m of
        Some entry \<Rightarrow> entry
      | None \<Rightarrow> \<lparr>se_key = key, se_instance = new_instance config, se_config = config\<rparr>)"

lemma entry_of_ok:
  "services_ok m \<Longrightarrow> coprime_size (unat (hashring_size config)) \<Longrightarrow> entry_ok key (entry_of key config m)"
  using instance_ok_new [of config] services_ok_find [of m key]
  by (auto simp: entry_of_def entry_ok_def new_instance_def split: option.splits)

lemma updateServiceBackends_eq:
  "updateServiceBackends callback key backends config (m, s) =
     map_option (\<lambda>inst.
         (True, omap_put service_key_lt key ((entry_of key config m)\<lparr>se_instance := inst\<rparr>) m,
          call_bpf callback key inst s))
       (updateBackends backends (se_instance (entry_of key config m)))"
  by (auto simp: updateServiceBackends_def entry_of_def split: option.splits)

lemma updateBackends_defined: "instance_ok inst \<Longrightarrow> updateBackends bs inst \<noteq> None"
  by (cases "bs = []") (auto simp: updateBackends_def elim: updateBackends_ok)

text \<open>An update is never undefined, keeps the invariant and changes one service.\<close>

lemma updateServiceBackends_ok:
  assumes ok: "services_ok m" and config: "coprime_size (unat (hashring_size config))"
  obtains inst m' where
    "updateBackends backends (se_instance (entry_of key config m)) = Some inst" "instance_ok inst"
    "updateServiceBackends callback key backends config (m, s) = Some (True, m', call_bpf callback key inst s)"
    "services_ok m'"
    "\<And>k. getInstance k m' = (if service_key_rank key = service_key_rank k then Some inst else getInstance k m)"
proof -
  let ?e = "entry_of key config m"
  have e: "entry_ok key ?e" by (rule entry_of_ok [OF ok config])
  then have "instance_ok (se_instance ?e)" by (simp add: entry_ok_def)
  then obtain inst where i: "updateBackends backends (se_instance ?e) = Some inst" "instance_ok inst"
    using updateBackends_defined instance_ok_update by blast
  let ?m = "omap_put service_key_lt key (?e\<lparr>se_instance := inst\<rparr>) m"
  have "entry_ok key (?e\<lparr>se_instance := inst\<rparr>)"
    using e i updateBackends_config [OF i(1)] by (simp add: entry_ok_def)
  then have "services_ok ?m" by (rule services_ok_put [OF ok])
  moreover have "getInstance k ?m = (if service_key_rank key = service_key_rank k then Some inst else getInstance k m)" for k
    by (simp add: getInstance_def sk.find_put)
  ultimately show ?thesis using i by (intro that) (auto simp: updateServiceBackends_eq)
qed

lemma removeService_ok:
  assumes "services_ok m" "removeService key m = (r, m')"
  shows "services_ok m'"
    "getInstance k m' = (if service_key_rank key = service_key_rank k then None else getInstance k m)"
proof -
  have m': "m' = snd (omap_erase service_key_lt key m)"
    using assms(2) by (auto simp: removeService_def split_beta)
  show "services_ok m'"
    using assms(1) sk.erase_ok [of m key] sk.erase_subset [of _ key m]
    by (auto simp: services_ok_def m')
  show "getInstance k m' = (if service_key_rank key = service_key_rank k then None else getInstance k m)"
    using sk.find_erase [of m k key] assms(1) by (simp add: getInstance_def m' services_ok_def)
qed

lemma periodicMaintenance_keys:
  "map fst (fst (periodicMaintenance callback (m, s))) = map fst m"
  by (induction m arbitrary: s) (auto simp: Let_def split_beta)

lemma tick_config: "m_config (tick inst) = m_config inst"
  by (simp add: tick_def tickMergeTimer_def merge_instance_def Let_def)

lemma tick_idle: "\<not> m_needsMerge inst \<Longrightarrow> tick inst = inst"
  by (simp add: tick_def tickMergeTimer_def)

text \<open>Every instance gets one tick; the order only shows in the callbacks.\<close>

lemma periodicMaintenance_ticks:
  "fst (periodicMaintenance callback (m, s)) =
     map (\<lambda>(key, entry). (key, entry\<lparr>se_instance := tick (se_instance entry)\<rparr>)) m"
  by (induction m arbitrary: s) (auto simp: Let_def split_beta tick_idle, auto simp: tick_def)

lemma tick_ok: "instance_ok inst \<Longrightarrow> instance_ok (tick inst)"
  unfolding tick_def by (rule instance_ok_tick [OF _ surjective_pairing])

lemma periodicMaintenance_ok:
  assumes "services_ok m"
  shows "services_ok (fst (periodicMaintenance callback (m, s)))"
proof -
  have "omap_ok service_key_lt (fst (periodicMaintenance callback (m, s)))"
    using assms by (simp only: services_ok_def omap_ok_def periodicMaintenance_keys)
  moreover have "entry_ok k (e\<lparr>se_instance := tick (se_instance e)\<rparr>)" if "entry_ok k e" for k e
    using that by (simp add: entry_ok_def tick_config tick_ok)
  ultimately show ?thesis using assms by (auto simp: services_ok_def periodicMaintenance_ticks)
qed

end
