(* ===== verification/Config.thy ===== *)
theory Config
  imports Prelude
begin

section \<open>The balancer configuration\<close>

text \<open>
  The structs of \<open>controlplane/include/config/baseconfig.h\<close>, their comparisons, and the file
  loader. A comparison with \<open>std::equal\<close> on two vectors reads the second one without looking at
  its length; \<open>None\<close> is the read past its end.
\<close>

datatype balancer_type = RR | WRR | CH

definition fromString :: "string \<Rightarrow> balancer_type option" where
  "fromString data =
     (if data = ''rr'' then Some RR
      else if data = ''wrr'' then Some WRR
      else if data = ''ch'' then Some CH
      else None)"

record balancer_real =
  real_ip :: string
  enabled :: bool
  real_weight :: u8
  real_ip_version :: u8
  real_port :: u32

record balancer_service =
  reals :: "balancer_real list"
  srv_name :: string
  srv_vip :: string
  srv_protocol :: string
  srv_port :: u32
  srv_type :: balancer_type
  srv_ip_version :: u8

record ddos_settings =
  cfg_syn_threshold :: u32
  cfg_syn_ack_ratio :: u32
  cfg_global_syn_threshold :: u32
  ban_duration_ms :: u32

record base_config =
  services :: "balancer_service list"
  ddosConf :: "ddos_settings option"

subsection \<open>Comparisons\<close>

text \<open>\<open>std::equal(xs.begin(), xs.end(), ys.begin())\<close>; the comparison of elements may be undefined too.\<close>

fun std_equal :: "('a \<Rightarrow> 'a \<Rightarrow> bool option) \<Rightarrow> 'a list \<Rightarrow> 'a list \<Rightarrow> bool option" where
  "std_equal eq [] ys = Some True"
| "std_equal eq (x # xs) [] = None"
| "std_equal eq (x # xs) (y # ys) =
     (case eq x y of
        None \<Rightarrow> None
      | Some False \<Rightarrow> Some False
      | Some True \<Rightarrow> std_equal eq xs ys)"

definition real_equal :: "balancer_real \<Rightarrow> balancer_real \<Rightarrow> bool" where
  "real_equal a b \<longleftrightarrow> real_ip a = real_ip b \<and> real_weight a = real_weight b \<and> real_port b = real_port a"

definition service_equal :: "balancer_service \<Rightarrow> balancer_service \<Rightarrow> bool option" where
  "service_equal a b =
     map_option (\<lambda>r. r \<and> srv_name a = srv_name b \<and> srv_vip a = srv_vip b
                      \<and> srv_protocol a = srv_protocol b \<and> srv_port a = srv_port b
                      \<and> srv_type a = srv_type b)
       (std_equal (\<lambda>x y. Some (real_equal x y)) (reals a) (reals b))"

definition config_equal :: "base_config \<Rightarrow> base_config \<Rightarrow> bool option" where
  "config_equal a b = std_equal service_equal (services a) (services b)"

definition FindServiceByVipAndPort :: "string \<Rightarrow> u32 \<Rightarrow> base_config \<Rightarrow> balancer_service option" where
  "FindServiceByVipAndPort vip port conf =
     find (\<lambda>s. srv_vip s = vip \<and> srv_port s = port) (services conf)"

text \<open>Two equal vectors: the second one starts like the first.\<close>

lemma std_equal_Some_True:
  "std_equal eq xs ys = Some True \<longleftrightarrow>
     length xs \<le> length ys \<and> (\<forall>i < length xs. eq (xs ! i) (ys ! i) = Some True)"
  by (induction eq xs ys rule: std_equal.induct)
    (auto simp: less_Suc_eq_0_disj split: option.splits bool.splits)

lemma std_equal_refl: "(\<And>x. x \<in> set xs \<Longrightarrow> eq x x = Some True) \<Longrightarrow> std_equal eq xs xs = Some True"
  by (simp add: std_equal_Some_True)

lemma service_equal_refl [simp]: "service_equal a a = Some True"
  by (simp add: service_equal_def std_equal_refl real_equal_def)

subsection \<open>The file loader\<close>

text \<open>\<open>m_input\<close>: closed, or what is left to read.\<close>

record file_loader =
  m_buf :: string
  m_input :: "string option"

text \<open>\<open>openFile\<close>; the file system is an argument.\<close>

definition openFile :: "(string \<Rightarrow> string option) \<Rightarrow> string \<Rightarrow> file_loader \<Rightarrow> bool \<times> file_loader" where
  "openFile files filename l =
     (case files filename of
        None \<Rightarrow> (False, l\<lparr>m_input := None\<rparr>)
      | Some content \<Rightarrow> (True, l\<lparr>m_input := Some content\<rparr>))"

text \<open>\<open>std::getline\<close>: the text up to a line break, which is dropped, and what is left.\<close>

definition getline :: "string \<Rightarrow> (string \<times> string) option" where
  "getline input =
     (if input = [] then None
      else Some (takeWhile (\<lambda>c. c \<noteq> CHR 0x0A) input, drop 1 (dropWhile (\<lambda>c. c \<noteq> CHR 0x0A) input)))"

function read_lines :: "string \<Rightarrow> string \<Rightarrow> string" where
  "read_lines buf input =
     (case getline input of
        None \<Rightarrow> buf
      | Some (line, rest) \<Rightarrow> read_lines (buf @ line) rest)"
  by pat_completeness auto
termination
proof (relation "measure (\<lambda>(_, input). length input)")
  fix input x line rest :: string and a
  assume g: "getline input = Some a" "(line, rest) = a"
  then have "input \<noteq> []" "rest = drop 1 (dropWhile (\<lambda>c. c \<noteq> CHR 0x0A) input)"
    by (auto simp: getline_def split: if_splits)
  then have "length rest < length input"
    using length_dropWhile_le [of "\<lambda>c. c \<noteq> CHR 0x0A" input] by (cases input) auto
  then show "((x @ line, rest), x, input) \<in> measure (\<lambda>(_, input). length input)" by simp
qed simp

declare read_lines.simps [simp del]

definition file_LoadConfig :: "file_loader \<Rightarrow> string \<times> file_loader" where
  "file_LoadConfig l =
     (case m_input l of
        None \<Rightarrow> ([], l)
      | Some content \<Rightarrow>
          (let buf = read_lines [] content in (buf, l\<lparr>m_buf := buf, m_input := Some []\<rparr>)))"

text \<open>The loader joins the lines of the file without their breaks.\<close>

lemma filter_lines:
  "filter P xs = takeWhile P xs @ filter P (drop 1 (dropWhile P xs))"
  by (induction xs) auto

lemma read_lines_filter: "read_lines buf input = buf @ filter (\<lambda>c. c \<noteq> CHR 0x0A) input"
proof (induction buf input rule: read_lines.induct)
  case (1 buf input)
  show ?case
  proof (cases "input = []")
    case True
    then show ?thesis by (simp add: read_lines.simps [of buf] getline_def)
  next
    case False
    then show ?thesis
      using 1 filter_lines [of "\<lambda>c. c \<noteq> CHR 0x0A" input]
      by (simp add: read_lines.simps [of buf] getline_def)
  qed
qed

end
