(* ===== verification/Regex.thy ===== *)
theory Regex
  imports Main
begin

section \<open>Regular expressions\<close>

text \<open>
  The part of \<open>std::regex\<close> that the address validator of \<open>controlplane/src/config/validator.cpp\<close>
  uses: literals, character classes, groups, alternatives and bounded repetition. The validator
  only asks whether a whole string matches, which does not depend on the order of alternatives:
  the meaning of an expression is a set of strings, and the matcher below decides it by
  derivatives.
\<close>

datatype regex =
    Never
  | Nothing
  | Ranges "(char \<times> char) list"
  | Then regex regex
  | Either regex regex
  | Between regex nat nat
  | Many regex

subsection \<open>Meaning\<close>

definition in_ranges :: "char \<Rightarrow> (char \<times> char) list \<Rightarrow> bool" where
  "in_ranges c rs \<longleftrightarrow> list_ex (\<lambda>(a, b). of_char a \<le> (of_char c :: nat) \<and> of_char c \<le> (of_char b :: nat)) rs"

definition conc :: "string set \<Rightarrow> string set \<Rightarrow> string set" where
  "conc A B = {u @ v |u v. u \<in> A \<and> v \<in> B}"

fun powers :: "string set \<Rightarrow> nat \<Rightarrow> string set" where
  "powers A 0 = {[]}"
| "powers A (Suc n) = conc A (powers A n)"

fun language :: "regex \<Rightarrow> string set" where
  "language Never = {}"
| "language Nothing = {[]}"
| "language (Ranges rs) = {[c] |c. in_ranges c rs}"
| "language (Then r s) = conc (language r) (language s)"
| "language (Either r s) = language r \<union> language s"
| "language (Between r lo hi) = (\<Union>n \<in> {lo..hi}. powers (language r) n)"
| "language (Many r) = (\<Union>n. powers (language r) n)"

subsection \<open>The matcher\<close>

fun nullable :: "regex \<Rightarrow> bool" where
  "nullable Never = False"
| "nullable Nothing = True"
| "nullable (Ranges rs) = False"
| "nullable (Then r s) = (nullable r \<and> nullable s)"
| "nullable (Either r s) = (nullable r \<or> nullable s)"
| "nullable (Between r lo hi) = (lo \<le> hi \<and> (lo = 0 \<or> nullable r))"
| "nullable (Many r) = True"

fun derivative :: "char \<Rightarrow> regex \<Rightarrow> regex" where
  "derivative c Never = Never"
| "derivative c Nothing = Never"
| "derivative c (Ranges rs) = (if in_ranges c rs then Nothing else Never)"
| "derivative c (Then r s) =
     (if nullable r then Either (Then (derivative c r) s) (derivative c s)
      else Then (derivative c r) s)"
| "derivative c (Either r s) = Either (derivative c r) (derivative c s)"
| "derivative c (Between r lo hi) =
     (if lo \<le> hi \<and> 0 < hi then Then (derivative c r) (Between r (lo - 1) (hi - 1)) else Never)"
| "derivative c (Many r) = Then (derivative c r) (Many r)"

text \<open>\<open>std::regex_match(s, r)\<close>.\<close>

fun regex_match :: "string \<Rightarrow> regex \<Rightarrow> bool" where
  "regex_match [] r = nullable r"
| "regex_match (c # s) r = regex_match s (derivative c r)"

subsection \<open>The matcher decides the language\<close>

lemma conc_Nil: "[] \<in> conc A B \<longleftrightarrow> [] \<in> A \<and> [] \<in> B"
  by (auto simp: conc_def)

lemma conc_Cons:
  "c # s \<in> conc A B \<longleftrightarrow> s \<in> conc {w. c # w \<in> A} B \<or> [] \<in> A \<and> c # s \<in> B"
  unfolding conc_def by (auto simp: Cons_eq_append_conv)

lemma powers_Nil: "[] \<in> powers A n \<longleftrightarrow> n = 0 \<or> [] \<in> A"
  by (induction n) (auto simp: conc_Nil)

lemma nullable_language: "nullable r \<longleftrightarrow> [] \<in> language r"
  by (induction r) (auto simp: conc_Nil powers_Nil intro: exI [of _ 0])

text \<open>A word that starts with \<open>c\<close> splits off its first non-empty factor.\<close>

lemma powers_Cons:
  "c # s \<in> powers A n \<longleftrightarrow>
     (\<exists>k < n. (k = n - 1 \<or> [] \<in> A) \<and> s \<in> conc {w. c # w \<in> A} (powers A k))"
proof (induction n)
  case (Suc n)
  have "c # s \<in> powers A (Suc n) \<longleftrightarrow>
      s \<in> conc {w. c # w \<in> A} (powers A n) \<or> [] \<in> A \<and> c # s \<in> powers A n"
    by (simp add: conc_Cons)
  also have "\<dots> \<longleftrightarrow> (\<exists>k < Suc n. (k = Suc n - 1 \<or> [] \<in> A) \<and> s \<in> conc {w. c # w \<in> A} (powers A k))"
    unfolding Suc by (auto simp: less_Suc_eq)
  finally show ?case .
qed simp

lemma powers_Suc: "s \<in> conc {w. c # w \<in> A} (powers A n) \<Longrightarrow> c # s \<in> powers A (Suc n)"
  by (simp add: conc_Cons)

lemma powers_mono_Nil: "[] \<in> A \<Longrightarrow> m \<le> n \<Longrightarrow> powers A m \<subseteq> powers A n"
proof (induction n)
  case (Suc n)
  have "powers A n \<subseteq> powers A (Suc n)" using Suc.prems(1) by (auto simp: conc_def)
  then show ?case using Suc by (cases "m = Suc n") auto
qed simp

lemma conc_UN: "conc A (\<Union>i \<in> I. B i) = (\<Union>i \<in> I. conc A (B i))"
  by (auto simp: conc_def)

lemma between_Cons:
  "(\<exists>n \<in> {lo..hi}. c # s \<in> powers A n) \<longleftrightarrow>
     lo \<le> hi \<and> 0 < hi \<and> (\<exists>n \<in> {lo - 1..hi - 1}. s \<in> conc {w. c # w \<in> A} (powers A n))"
    (is "?l = ?r")
proof
  assume ?l
  then obtain n k where n: "lo \<le> n" "n \<le> hi" "k < n" "k = n - 1 \<or> [] \<in> A"
      "s \<in> conc {w. c # w \<in> A} (powers A k)"
    by (auto simp: powers_Cons)
  have "s \<in> conc {w. c # w \<in> A} (powers A (n - 1))"
  proof (cases "k = n - 1")
    case False
    then have "powers A k \<subseteq> powers A (n - 1)" using n(3,4) by (intro powers_mono_Nil) auto
    then show ?thesis using n(5) by (auto simp: conc_def)
  qed (use n(5) in simp)
  then show ?r using n(1-3) by (intro conjI bexI [of _ "n - 1"]) auto
next
  assume ?r
  then obtain n where "lo \<le> hi" "0 < hi" "lo - 1 \<le> n" "n \<le> hi - 1"
      "s \<in> conc {w. c # w \<in> A} (powers A n)" by auto
  then show ?l by (intro bexI [of _ "Suc n"] powers_Suc) auto
qed

lemma many_Cons:
  "(\<exists>n. c # s \<in> powers A n) \<longleftrightarrow> (\<exists>n. s \<in> conc {w. c # w \<in> A} (powers A n))"
proof
  show "\<exists>n. c # s \<in> powers A n \<Longrightarrow> \<exists>n. s \<in> conc {w. c # w \<in> A} (powers A n)"
    by (auto simp: powers_Cons)
  show "\<exists>n. s \<in> conc {w. c # w \<in> A} (powers A n) \<Longrightarrow> \<exists>n. c # s \<in> powers A n"
    using powers_Suc by blast
qed

lemma derivative_language: "language (derivative c r) = {w. c # w \<in> language r}"
proof (induction r)
  case (Ranges rs)
  then show ?case by auto
next
  case (Then r s)
  then show ?case by (auto simp: conc_Cons nullable_language)
next
  case (Between r lo hi)
  then show ?case using between_Cons [of lo hi c _ "language r"] by (auto simp: conc_UN)
next
  case (Many r)
  then show ?case using many_Cons [of c _ "language r"] by (auto simp: conc_UN)
qed auto

lemma regex_match_language: "regex_match s r \<longleftrightarrow> s \<in> language r"
  by (induction s arbitrary: r) (simp_all add: nullable_language derivative_language)

subsection \<open>Calculating with languages\<close>

lemma conc_assoc: "conc (conc A B) C = conc A (conc B C)"
  unfolding conc_def by auto (metis append.assoc)+

lemma conc_eps [simp]: "conc {[]} B = B" "conc A {[]} = A"
  by (auto simp: conc_def)

lemma conc_insert_eps: "conc (insert [] A) B = B \<union> conc A B" "conc A (insert [] B) = A \<union> conc A B"
  by (auto simp: conc_def)

lemma conc_class: "w \<in> conc {[c] |c. P c} B \<longleftrightarrow> (\<exists>x u. w = x # u \<and> P x \<and> u \<in> B)"
  unfolding conc_def by auto (metis append_Cons append_Nil)

lemma conc_singleton: "w \<in> conc {[c]} B \<longleftrightarrow> (\<exists>u \<in> B. w = c # u)"
  by (auto simp: conc_def)

lemma language_optional: "language (Between r 0 1) = insert [] (language r)"
proof -
  have "{0..1 :: nat} = {0, 1}" by auto
  then show ?thesis by simp
qed

lemma language_exactly: "language (Between r n n) = powers (language r) n"
  by simp

end
