(* ===== verification/Validator.thy ===== *)
theory Validator
  imports Config Regex
begin

section \<open>Validating a configuration\<close>

text \<open>
  \<open>IPValidator\<close> and \<open>ConfigValidator\<close> of \<open>controlplane/include/config/validator.h\<close> and the
  regular expressions of \<open>controlplane/src/config/validator.cpp\<close>. The validator normalises the
  configuration it checks: it is returned, as far as it was changed, with the error.
\<close>

subsection \<open>The address expressions\<close>

definition re_char :: "char \<Rightarrow> regex" where
  "re_char c = Ranges [(c, c)]"

definition re_string :: "string \<Rightarrow> regex" where
  "re_string s = foldr (\<lambda>c r. Then (re_char c) r) s Nothing"

definition re_digit :: regex where
  "re_digit = Ranges [(CHR ''0'', CHR ''9'')]"

definition re_hex :: regex where
  "re_hex = Ranges [(CHR ''0'', CHR ''9''), (CHR ''a'', CHR ''f''), (CHR ''A'', CHR ''F'')]"

text \<open>\<open>25[0-5]|2[0-4][0-9]|[01]?[0-9][0-9]?\<close>\<close>

definition re_octet :: regex where
  "re_octet =
     Either (Then (re_string ''25'') (Ranges [(CHR ''0'', CHR ''5'')]))
       (Either (Then (re_char CHR ''2'') (Then (Ranges [(CHR ''0'', CHR ''4'')]) re_digit))
         (Then (Between (Ranges [(CHR ''0'', CHR ''1'')]) 0 1) (Then re_digit (Between re_digit 0 1))))"

definition IPv4_REGEX :: regex where
  "IPv4_REGEX = Then (Between (Then re_octet (re_char CHR ''.'')) 3 3) re_octet"

definition re_group :: regex where
  "re_group = Between re_hex 1 4"

text \<open>\<open>([0-9a-fA-F]{1,4}:){lo,hi}\<close> and \<open>(:[0-9a-fA-F]{1,4}){lo,hi}\<close>.\<close>

definition re_before :: "nat \<Rightarrow> nat \<Rightarrow> regex" where
  "re_before lo hi = Between (Then re_group (re_char CHR '':'')) lo hi"

definition re_after :: "nat \<Rightarrow> nat \<Rightarrow> regex" where
  "re_after lo hi = Between (Then (re_char CHR '':'') re_group) lo hi"

definition IPv6_REGEX :: regex where
  "IPv6_REGEX =
     foldr Either
       [Then (re_before 7 7) re_group,
        Then (re_before 1 7) (re_char CHR '':''),
        Then (re_before 1 6) (Then (re_char CHR '':'') re_group),
        Then (re_before 1 5) (re_after 1 2),
        Then (re_before 1 4) (re_after 1 3),
        Then (re_before 1 3) (re_after 1 4),
        Then (re_before 1 2) (re_after 1 5),
        Then re_group (Then (re_char CHR '':'') (re_after 1 6)),
        Then (re_char CHR '':'') (Either (re_after 1 7) (re_char CHR '':'')),
        Then (re_string ''fe80:'')
          (Then (Between (Then (re_char CHR '':'') (Between re_hex 0 4)) 0 4)
            (Then (re_char CHR ''%'')
              (Then (Ranges [(CHR ''0'', CHR ''9''), (CHR ''a'', CHR ''z''), (CHR ''A'', CHR ''Z'')])
                (Many (Ranges [(CHR ''0'', CHR ''9''), (CHR ''a'', CHR ''z''), (CHR ''A'', CHR ''Z'')]))))),
        Then (re_string ''::'')
          (Then (Between
                  (Then (re_string ''ffff'')
                    (Then (Between (Then (re_char CHR '':'') (Between (re_char CHR ''0'') 1 4)) 0 1)
                      (re_char CHR '':''))) 0 1)
            (Then (Between (Then re_octet (re_char CHR ''.'')) 3 3) re_octet)),
        Then (re_before 1 4)
          (Then (re_char CHR '':'')
            (Then (Between (Then re_octet (re_char CHR ''.'')) 3 3) re_octet))]
       Never"

definition checkIP :: "string \<Rightarrow> u8 option" where
  "checkIP ip =
     (if regex_match ip IPv4_REGEX then Some 4
      else if regex_match ip IPv6_REGEX then Some 6
      else None)"

subsection \<open>The validator\<close>

datatype validation_error =
    Duplicate_name string
  | Invalid_port u32
  | Invalid_vip string
  | Invalid_protocol string
  | Mixed_versions u8 u8 string string
  | Invalid_weight u8
  | Invalid_real string

text \<open>\<open>utils::trim\<close>: \<open>std::isspace\<close> of the C locale, at the front only.\<close>

definition isspace :: "char \<Rightarrow> bool" where
  "isspace c \<longleftrightarrow> c = CHR '' '' \<or> (9 \<le> (of_char c :: nat) \<and> (of_char c :: nat) \<le> 13)"

definition trim :: "string \<Rightarrow> string" where
  "trim s = dropWhile isspace s"

definition tolower :: "char \<Rightarrow> char" where
  "tolower c = (if 65 \<le> (of_char c :: nat) \<and> (of_char c :: nat) \<le> 90 then char_of (of_char c + 32 :: nat) else c)"

fun validate_names :: "string list \<Rightarrow> balancer_service list \<Rightarrow> validation_error option" where
  "validate_names names [] = None"
| "validate_names names (s # ss) =
     (if srv_name s \<in> set names then Some (Duplicate_name (srv_name s))
      else validate_names (srv_name s # names) ss)"

fun validate_reals ::
    "balancer_service \<Rightarrow> balancer_real list \<Rightarrow> validation_error option \<times> balancer_real list"
where
  "validate_reals srv [] = (None, [])"
| "validate_reals srv (r # rs) =
     (if real_ip_version r \<noteq> srv_ip_version srv
      then (Some (Mixed_versions (srv_ip_version srv) (real_ip_version r) (srv_vip srv) (real_ip r)), r # rs)
      else if real_weight r = 0 then (Some (Invalid_weight (real_weight r)), r # rs)
      else
        (case checkIP (real_ip r) of
           None \<Rightarrow> (Some (Invalid_real (real_ip r)), r # rs)
         | Some v \<Rightarrow>
             (let (err, rs) = validate_reals srv rs
              in (err, r\<lparr>real_ip_version := v\<rparr> # rs))))"

definition validate_service :: "balancer_service \<Rightarrow> validation_error option \<times> balancer_service" where
  "validate_service srv =
     (if srv_port srv \<le> 0 \<or> srv_port srv \<ge> 65535 then (Some (Invalid_port (srv_port srv)), srv)
      else
        (case checkIP (srv_vip srv) of
           None \<Rightarrow> (Some (Invalid_vip (srv_vip srv)), srv)
         | Some v \<Rightarrow>
             (let srv = srv\<lparr>srv_ip_version := v\<rparr>;
                  srv = srv\<lparr>srv_protocol := map tolower (trim (srv_protocol srv))\<rparr>
              in if srv_protocol srv \<noteq> ''tcp'' \<and> srv_protocol srv \<noteq> ''udp''
                 then (Some (Invalid_protocol (srv_protocol srv)), srv)
                 else
                   (let (err, rs) = validate_reals srv (reals srv) in (err, srv\<lparr>reals := rs\<rparr>)))))"

fun validate_services ::
    "balancer_service list \<Rightarrow> validation_error option \<times> balancer_service list"
where
  "validate_services [] = (None, [])"
| "validate_services (s # ss) =
     (case validate_service s of
        (Some err, s) \<Rightarrow> (Some err, s # ss)
      | (None, s) \<Rightarrow> (let (err, ss) = validate_services ss in (err, s # ss)))"

definition Validate :: "base_config \<Rightarrow> validation_error option \<times> base_config" where
  "Validate conf =
     (case validate_names [] (services conf) of
        Some err \<Rightarrow> (Some err, conf)
      | None \<Rightarrow>
          (let (err, ss) = validate_services (services conf) in (err, conf\<lparr>services := ss\<rparr>)))"

subsection \<open>Octets\<close>

definition is_digit :: "char \<Rightarrow> bool" where
  "is_digit c \<longleftrightarrow> 48 \<le> (of_char c :: nat) \<and> (of_char c :: nat) \<le> 57"

definition decimal :: "string \<Rightarrow> nat" where
  "decimal s = foldl (\<lambda>n c. 10 * n + (of_char c - 48)) 0 s"

text \<open>One to three digits, leading zeros included, of a value up to 255.\<close>

definition octet :: "string \<Rightarrow> bool" where
  "octet s \<longleftrightarrow> s \<noteq> [] \<and> length s \<le> 3 \<and> list_all is_digit s \<and> decimal s \<le> 255"

lemma language_char: "language (re_char c) = {[c]}"
  by (auto simp: re_char_def in_ranges_def)

lemma octet_1: "octet [x] \<longleftrightarrow> is_digit x"
  by (auto simp: octet_def decimal_def is_digit_def)

lemma octet_2: "octet [x, y] \<longleftrightarrow> is_digit x \<and> is_digit y"
  by (auto simp: octet_def decimal_def is_digit_def)

lemma octet_3:
  "octet [x, y, z] \<longleftrightarrow> is_digit x \<and> is_digit y \<and> is_digit z
     \<and> (of_char x \<le> (49 :: nat) \<or> of_char x = (50 :: nat)
          \<and> (of_char y \<le> (52 :: nat) \<or> of_char y = (53 :: nat) \<and> of_char z \<le> (53 :: nat)))"
  by (auto simp: octet_def decimal_def is_digit_def)

text \<open>The octet expression, alternative by alternative.\<close>

lemma char_code: "of_char x = (50 :: nat) \<longleftrightarrow> x = CHR ''2''" "of_char x = (53 :: nat) \<longleftrightarrow> x = CHR ''5''"
  using of_char_eq_iff [of x "CHR ''2''", where ?'a = nat] of_char_eq_iff [of x "CHR ''5''", where ?'a = nat]
  by simp_all

lemma digit_ranges: "in_ranges c [(CHR ''0'', CHR ''9'')] = is_digit c"
  by (simp add: in_ranges_def is_digit_def)

lemma re_digit_language: "language re_digit = {[c] |c. is_digit c}"
  by (simp add: re_digit_def digit_ranges)

lemma octet_25:
  "s \<in> language (Then (re_string ''25'') (Ranges [(CHR ''0'', CHR ''5'')])) \<longleftrightarrow>
     (\<exists>z. s = [CHR ''2'', CHR ''5'', z] \<and> 48 \<le> (of_char z :: nat) \<and> (of_char z :: nat) \<le> 53)"
  by (simp add: re_string_def language_char conc_assoc conc_singleton)
    (auto simp: in_ranges_def conc_singleton)

lemma octet_2x:
  "s \<in> language (Then (re_char CHR ''2'') (Then (Ranges [(CHR ''0'', CHR ''4'')]) re_digit)) \<longleftrightarrow>
     (\<exists>y z. s = [CHR ''2'', y, z] \<and> 48 \<le> (of_char y :: nat) \<and> (of_char y :: nat) \<le> 52 \<and> is_digit z)"
  by (simp add: language_char conc_singleton re_digit_language Bex_def conc_class)
    (auto simp: in_ranges_def)

lemma octet_short:
  "s \<in> language (Then re_digit (Between re_digit 0 1)) \<longleftrightarrow>
     (\<exists>y. is_digit y \<and> s = [y]) \<or> (\<exists>y z. is_digit y \<and> is_digit z \<and> s = [y, z])"
  unfolding language.simps(4) language_optional re_digit_language by (auto simp: conc_class)

lemma octet_1xx:
  "s \<in> language (Then (Between (Ranges [(CHR ''0'', CHR ''1'')]) 0 1) r) \<longleftrightarrow>
     s \<in> language r \<or> (\<exists>x u. s = x # u \<and> 48 \<le> (of_char x :: nat) \<and> (of_char x :: nat) \<le> 49 \<and> u \<in> language r)"
  unfolding language.simps(4) language_optional language.simps(3) conc_insert_eps(1) Un_iff conc_class
  by (simp add: in_ranges_def)

lemma short_string:
  obtains "s = []" | x where "s = [x]" | x y where "s = [x, y]" | x y z where "s = [x, y, z]"
    | "3 < length s"
proof -
  have "length s = 0 \<or> length s = 1 \<or> length s = 2 \<or> length s = 3 \<or> 3 < length s" by linarith
  then show ?thesis using that by (auto simp: length_Suc_conv eval_nat_numeral)
qed

lemma re_octet_octet: "s \<in> language re_octet \<longleftrightarrow> octet s"
proof (cases s rule: short_string)
  case 5
  then show ?thesis
    unfolding re_octet_def language.simps(5) Un_iff octet_25 octet_2x octet_1xx octet_short octet_def
    by auto
next
  case (4 x y z)
  show ?thesis
    unfolding 4 octet_3 re_octet_def language.simps(5) Un_iff octet_25 octet_2x octet_1xx octet_short
    by (auto simp: is_digit_def char_code)
next
  case (3 x y)
  show ?thesis
    unfolding 3 octet_2 re_octet_def language.simps(5) Un_iff octet_25 octet_2x octet_1xx octet_short
    by (auto simp: is_digit_def)
next
  case (2 x)
  show ?thesis
    unfolding 2 octet_1 re_octet_def language.simps(5) Un_iff octet_25 octet_2x octet_1xx octet_short
    by auto
next
  case 1
  show ?thesis
    unfolding 1 re_octet_def language.simps(5) Un_iff octet_25 octet_2x octet_1xx octet_short octet_def
    by auto
qed

subsection \<open>IPv4 addresses\<close>

definition dotted_quad :: "string \<Rightarrow> bool" where
  "dotted_quad s \<longleftrightarrow>
     (\<exists>a b c d. octet a \<and> octet b \<and> octet c \<and> octet d
        \<and> s = a @ ''.'' @ b @ ''.'' @ c @ ''.'' @ d)"

lemma octets_language: "language re_octet = Collect octet"
  by (auto simp: re_octet_octet)

lemma dotted_step:
  "w \<in> conc (Collect octet) (conc {''.''} B) \<longleftrightarrow> (\<exists>a u. octet a \<and> u \<in> B \<and> w = a @ ''.'' @ u)"
  unfolding conc_def by auto

lemma IPv4_REGEX_quad: "regex_match s IPv4_REGEX \<longleftrightarrow> dotted_quad s"
proof -
  have eq: "language IPv4_REGEX =
      conc (Collect octet) (conc {''.''} (conc (Collect octet) (conc {''.''} (conc (Collect octet)
        (conc {''.''} (Collect octet))))))"
    unfolding IPv4_REGEX_def language.simps(4) language_exactly octets_language language_char
    by (simp add: eval_nat_numeral conc_assoc)
  show ?thesis
    unfolding regex_match_language eq dotted_quad_def dotted_step mem_Collect_eq by blast
qed

lemma checkIP_4: "checkIP s = Some 4 \<longleftrightarrow> dotted_quad s"
  by (simp add: checkIP_def IPv4_REGEX_quad)

lemma checkIP_cases: "checkIP s = Some v \<Longrightarrow> v = 4 \<or> v = 6"
  by (auto simp: checkIP_def split: if_splits)

subsection \<open>What the validator accepts\<close>

text \<open>The service a validated service is: normalised protocol, address families filled in.\<close>

definition normal_real :: "balancer_real \<Rightarrow> balancer_real" where
  "normal_real r = r\<lparr>real_ip_version := the (checkIP (real_ip r))\<rparr>"

definition normal_service :: "balancer_service \<Rightarrow> balancer_service" where
  "normal_service s =
     s\<lparr>srv_ip_version := the (checkIP (srv_vip s)),
       srv_protocol := map tolower (trim (srv_protocol s)),
       reals := map normal_real (reals s)\<rparr>"

definition valid_real :: "u8 \<Rightarrow> balancer_real \<Rightarrow> bool" where
  "valid_real v r \<longleftrightarrow> real_ip_version r = v \<and> real_weight r \<noteq> 0 \<and> checkIP (real_ip r) \<noteq> None"

definition valid_service :: "balancer_service \<Rightarrow> bool" where
  "valid_service s \<longleftrightarrow>
     0 < srv_port s \<and> srv_port s < 65535
     \<and> checkIP (srv_vip s) \<noteq> None
     \<and> map tolower (trim (srv_protocol s)) \<in> {''tcp'', ''udp''}
     \<and> (\<forall>r \<in> set (reals s). valid_real (the (checkIP (srv_vip s))) r)"

lemma validate_reals_spec:
  "fst (validate_reals srv rs) = None \<longleftrightarrow> (\<forall>r \<in> set rs. valid_real (srv_ip_version srv) r)"
  "fst (validate_reals srv rs) = None \<Longrightarrow> snd (validate_reals srv rs) = map normal_real rs"
  by (induction rs)
    (auto simp: valid_real_def normal_real_def Let_def split_beta split: option.splits if_splits)

lemma validate_service_spec:
  "fst (validate_service s) = None \<longleftrightarrow> valid_service s"
  "valid_service s \<Longrightarrow> snd (validate_service s) = normal_service s"
proof -
  have z: "0 < srv_port s \<longleftrightarrow> \<not> srv_port s \<le> 0" by (simp add: word_neq_0_conv)
  show "fst (validate_service s) = None \<longleftrightarrow> valid_service s"
    by (auto simp: validate_service_def valid_service_def z Let_def split_beta validate_reals_spec(1)
        split: option.splits)
  then show "valid_service s \<Longrightarrow> snd (validate_service s) = normal_service s"
    by (auto simp: validate_service_def valid_service_def normal_service_def z Let_def split_beta
        validate_reals_spec split: option.splits)
qed

lemma validate_services_spec:
  "fst (validate_services ss) = None \<longleftrightarrow> (\<forall>s \<in> set ss. valid_service s)"
  "\<forall>s \<in> set ss. valid_service s \<Longrightarrow> snd (validate_services ss) = map normal_service ss"
proof (induction ss)
  case (Cons s ss)
  obtain err s1 where v: "validate_service s = (err, s1)" by (rule prod.exhaust)
  show "fst (validate_services (s # ss)) = None \<longleftrightarrow> (\<forall>s \<in> set (s # ss). valid_service s)"
    using validate_service_spec(1) [of s] Cons.IH(1)
    by (cases err) (simp_all add: v Let_def split_beta)
  show "\<forall>s \<in> set (s # ss). valid_service s \<Longrightarrow>
      snd (validate_services (s # ss)) = map normal_service (s # ss)"
    using validate_service_spec [of s] Cons.IH(2) by (simp add: v Let_def split_beta split: option.splits)
qed auto

lemma validate_names_spec:
  "validate_names names ss = None \<longleftrightarrow>
     distinct (map srv_name ss) \<and> set names \<inter> srv_name ` set ss = {}"
  by (induction ss arbitrary: names) auto

lemma Validate_accepts:
  "fst (Validate conf) = None \<longleftrightarrow>
     distinct (map srv_name (services conf)) \<and> (\<forall>s \<in> set (services conf). valid_service s)"
  using validate_names_spec [of "[]" "services conf"]
  by (auto simp: Validate_def Let_def split_beta validate_services_spec(1) split: option.splits)

lemma Validate_result:
  "fst (Validate conf) = None \<Longrightarrow>
     snd (Validate conf) = conf\<lparr>services := map normal_service (services conf)\<rparr>"
  using Validate_accepts [of conf]
  by (auto simp: Validate_def Let_def split_beta validate_services_spec split: option.splits)

end
