(* ===== verification/Json_Parser.thy ===== *)
theory Json_Parser
  imports Config
begin

section \<open>Parsing the configuration file\<close>

text \<open>
  \<open>JsonBaseConfigParser::Parse\<close> of \<open>controlplane/src/config/jsonparser.cpp\<close>. The JSON library is
  not part of the repository: its values are a type parameter and the operations the parser calls
  are a record of functions. An operation gives a value, throws an exception other than
  \<open>parse_error\<close> (a value of the wrong type), or is undefined (the constant \<open>operator[]\<close> on a key
  that is not there).
\<close>

datatype json_fault = Throws | Undefined_access

record 'j json_api =
  json_parse :: "string \<Rightarrow> 'j option"
  json_what :: "string \<Rightarrow> string"
  json_empty :: "'j \<Rightarrow> bool"
  json_is_null :: "'j \<Rightarrow> bool"
  json_is_array :: "'j \<Rightarrow> bool"
  json_items :: "'j \<Rightarrow> 'j list"
  json_contains :: "'j \<Rightarrow> string \<Rightarrow> bool"
  json_index :: "'j \<Rightarrow> string \<Rightarrow> json_fault + 'j"
  json_const_index :: "'j \<Rightarrow> string \<Rightarrow> json_fault + 'j"
  json_string :: "'j \<Rightarrow> json_fault + string"
  json_u8 :: "'j \<Rightarrow> json_fault + u8"
  json_u32 :: "'j \<Rightarrow> json_fault + u32"
  json_value_bool :: "'j \<Rightarrow> string \<Rightarrow> bool \<Rightarrow> json_fault + bool"

text \<open>How parsing stops early: with a message, or with a fault that leaves the function.\<close>

datatype parse_stop = Message string | Fault json_fault

definition sum_bind :: "'e + 'a \<Rightarrow> ('a \<Rightarrow> 'e + 'b) \<Rightarrow> 'e + 'b" where
  "sum_bind m f = (case m of Inl e \<Rightarrow> Inl e | Inr x \<Rightarrow> f x)"

definition json_try :: "json_fault + 'a \<Rightarrow> parse_stop + 'a" where
  "json_try m = (case m of Inl e \<Rightarrow> Inl (Fault e) | Inr x \<Rightarrow> Inr x)"

lemma sum_bind_simps [simp]: "sum_bind (Inl e) f = Inl e" "sum_bind (Inr x) f = f x"
  by (simp_all add: sum_bind_def)

lemma sum_bind_Inr: "sum_bind m f = Inr y \<longleftrightarrow> (\<exists>x. m = Inr x \<and> f x = Inr y)"
  by (cases m) simp_all

lemma json_try_simps [simp]: "json_try (Inl e) = Inl (Fault e)" "json_try (Inr x) = Inr x"
  by (simp_all add: json_try_def)

lemma json_try_Inr: "json_try m = Inr x \<longleftrightarrow> m = Inr x"
  by (cases m) simp_all

text \<open>\<open>service[key].get<std::string>()\<close> and its variants.\<close>

definition get_string :: "('j, 'm) json_api_scheme \<Rightarrow> 'j \<Rightarrow> string \<Rightarrow> parse_stop + string" where
  "get_string api j key = json_try (sum_bind (json_const_index api j key) (json_string api))"

definition get_u32 :: "('j, 'm) json_api_scheme \<Rightarrow> 'j \<Rightarrow> string \<Rightarrow> parse_stop + u32" where
  "get_u32 api j key = json_try (sum_bind (json_const_index api j key) (json_u32 api))"

definition get_u8 :: "('j, 'm) json_api_scheme \<Rightarrow> 'j \<Rightarrow> string \<Rightarrow> parse_stop + u8" where
  "get_u8 api j key = json_try (sum_bind (json_const_index api j key) (json_u8 api))"

definition get_nonconst_u32 :: "('j, 'm) json_api_scheme \<Rightarrow> 'j \<Rightarrow> string \<Rightarrow> parse_stop + u32" where
  "get_nonconst_u32 api j key = json_try (sum_bind (json_index api j key) (json_u32 api))"

fun parse_reals :: "('j, 'm) json_api_scheme \<Rightarrow> u32 \<Rightarrow> 'j list \<Rightarrow> parse_stop + balancer_real list" where
  "parse_reals api port [] = Inr []"
| "parse_reals api port (r # rs) =
     sum_bind (get_string api r ''ip'') (\<lambda>ip.
     sum_bind (get_u8 api r ''weight'') (\<lambda>w.
     sum_bind (json_try (json_value_bool api r ''enabled'' True)) (\<lambda>on.
     sum_bind (parse_reals api port rs) (\<lambda>reals.
       Inr (\<lparr>real_ip = ip, enabled = on, real_weight = w, real_ip_version = 4, real_port = port\<rparr> # reals)))))"

text \<open>A field \<open>reals\<close> that is no array leaves the service without backends.\<close>

definition parse_service_reals ::
    "('j, 'm) json_api_scheme \<Rightarrow> u32 \<Rightarrow> 'j \<Rightarrow> parse_stop + balancer_real list" where
  "parse_service_reals api port service =
     (if json_contains api service ''reals''
      then sum_bind (json_try (json_const_index api service ''reals'')) (\<lambda>js.
             if json_is_array api js then parse_reals api port (json_items api js) else Inr [])
      else Inl (Message ''reals field not found in service or is not an array of elems''))"

definition parse_type :: "string \<Rightarrow> parse_stop + balancer_type" where
  "parse_type s =
     (case fromString s of None \<Rightarrow> Inl (Message ''invalid balancer type'') | Some t \<Rightarrow> Inr t)"

definition parse_service :: "('j, 'm) json_api_scheme \<Rightarrow> 'j \<Rightarrow> parse_stop + balancer_service" where
  "parse_service api service =
     (if \<not> json_contains api service ''name'' then Inl (Message ''name not found in service'')
      else if \<not> json_contains api service ''vip'' then Inl (Message ''vip not found in service'')
      else if \<not> json_contains api service ''protocol'' then Inl (Message ''protocol not found in service'')
      else if \<not> json_contains api service ''port'' then Inl (Message ''port not found in service'')
      else if \<not> json_contains api service ''balancer''
           then Inl (Message ''balancer type not found in service'')
      else
        sum_bind (get_string api service ''name'') (\<lambda>name.
        sum_bind (get_string api service ''vip'') (\<lambda>vip.
        sum_bind (get_string api service ''protocol'') (\<lambda>protocol.
        sum_bind (get_u32 api service ''port'') (\<lambda>port.
        sum_bind (get_string api service ''balancer'') (\<lambda>type_str.
        sum_bind (parse_type type_str) (\<lambda>t.
        sum_bind (parse_service_reals api port service) (\<lambda>rs.
          Inr \<lparr>reals = rs, srv_name = name, srv_vip = vip, srv_protocol = protocol,
               srv_port = port, srv_type = t, srv_ip_version = 4\<rparr>))))))))"

fun parse_services :: "('j, 'm) json_api_scheme \<Rightarrow> 'j list \<Rightarrow> parse_stop + balancer_service list" where
  "parse_services api [] = Inr []"
| "parse_services api (j # js) =
     sum_bind (parse_service api j) (\<lambda>s. sum_bind (parse_services api js) (\<lambda>ss. Inr (s # ss)))"

definition parse_ddos :: "('j, 'm) json_api_scheme \<Rightarrow> 'j \<Rightarrow> parse_stop + ddos_settings option" where
  "parse_ddos api ddos =
     (if json_is_null api ddos then Inr None
      else if \<not> json_contains api ddos ''syn_threshold''
           then Inl (Message ''syn_threshold not found in ddos_config'')
      else if \<not> json_contains api ddos ''syn_ack_ratio''
           then Inl (Message ''syn_ack_ratio not found in ddos_config'')
      else if \<not> json_contains api ddos ''global_syn_threshold''
           then Inl (Message ''global_syn_threshold not found in ddos_config'')
      else if \<not> json_contains api ddos ''ban_duration_ms''
           then Inl (Message ''ban_duration_ms not found in ddos_config'')
      else
        sum_bind (get_nonconst_u32 api ddos ''syn_threshold'') (\<lambda>a.
        sum_bind (get_nonconst_u32 api ddos ''syn_ack_ratio'') (\<lambda>b.
        sum_bind (get_nonconst_u32 api ddos ''global_syn_threshold'') (\<lambda>c.
        sum_bind (get_nonconst_u32 api ddos ''ban_duration_ms'') (\<lambda>d.
          Inr (Some \<lparr>cfg_syn_threshold = a, cfg_syn_ack_ratio = b, cfg_global_syn_threshold = c,
                     ban_duration_ms = d\<rparr>))))))"

definition json_Parse :: "('j, 'm) json_api_scheme \<Rightarrow> string \<Rightarrow> parse_stop + base_config" where
  "json_Parse api data =
     (case json_parse api data of
        None \<Rightarrow> Inl (Message (''invalid input: '' @ json_what api data))
      | Some jdata \<Rightarrow>
          if json_empty api jdata then Inl (Message ''empty config'')
          else
            sum_bind (json_try (json_index api jdata ''services'')) (\<lambda>js.
              if json_is_null api js \<or> \<not> json_is_array api js
              then Inl (Message ''services field not found or is not an array of elements'')
              else
                sum_bind (parse_services api (json_items api js)) (\<lambda>ss.
                sum_bind (json_try (json_index api jdata ''ddos_config'')) (\<lambda>jd.
                sum_bind (parse_ddos api jd) (\<lambda>ddos.
                  Inr \<lparr>services = ss, ddosConf = ddos\<rparr>)))))"

subsection \<open>What comes out of the parser\<close>

text \<open>
  Addresses are not looked at: everything is IPv4 until the validator has run, and a backend has
  the port of its service.
\<close>

definition parsed_service :: "balancer_service \<Rightarrow> bool" where
  "parsed_service s \<longleftrightarrow>
     srv_ip_version s = 4 \<and> (\<forall>r \<in> set (reals s). real_ip_version r = 4 \<and> real_port r = srv_port s)"

lemma parse_reals_shape:
  "parse_reals api port js = Inr rs \<Longrightarrow> \<forall>r \<in> set rs. real_ip_version r = 4 \<and> real_port r = port"
  by (induction js arbitrary: rs) (auto simp: sum_bind_Inr)

lemma parse_service_reals_shape:
  "parse_service_reals api port j = Inr rs \<Longrightarrow> \<forall>r \<in> set rs. real_ip_version r = 4 \<and> real_port r = port"
  by (auto simp: parse_service_reals_def sum_bind_Inr dest: parse_reals_shape split: if_splits)

lemma parse_service_shape: "parse_service api j = Inr s \<Longrightarrow> parsed_service s"
  by (auto simp: parse_service_def parsed_service_def sum_bind_Inr dest: parse_service_reals_shape
      split: if_splits)

lemma parse_services_shape: "parse_services api js = Inr ss \<Longrightarrow> \<forall>s \<in> set ss. parsed_service s"
  by (induction js arbitrary: ss) (auto simp: sum_bind_Inr dest: parse_service_shape)

lemma json_Parse_shape: "json_Parse api data = Inr conf \<Longrightarrow> \<forall>s \<in> set (services conf). parsed_service s"
  by (auto simp: json_Parse_def sum_bind_Inr dest: parse_services_shape split: option.splits if_splits)

end
