(* ===== verification/Config_Manager.thy ===== *)
theory Config_Manager
  imports Validator Json_Parser
begin

section \<open>The configuration manager\<close>

text \<open>
  \<open>ConfigManager\<close> of \<open>controlplane/src/manager/configmanager.cpp\<close>. It holds the current
  configuration and hands every change to a data plane (\<open>IDataplane\<close>), which may be missing. The
  data plane's \<open>ReloadConfig\<close> is an argument: a function on the data plane's state that gives an
  error or none. \<open>None\<close> in a result is a dereferenced null pointer.
\<close>

type_synonym ('e, 'd) reload = "base_config \<Rightarrow> 'd \<Rightarrow> 'e option \<times> 'd"

record set_real_state_request =
  serviceName :: string
  realIp :: string
  req_enabled :: bool

record config_manager =
  m_currConfig :: "base_config option"

text \<open>\<open>if (m_dataplane) m_dataplane->ReloadConfig(...)\<close>; an error is printed or dropped.\<close>

definition call_reload :: "('e, 'd) reload option \<Rightarrow> base_config \<Rightarrow> 'd \<Rightarrow> 'd" where
  "call_reload reload conf d = (case reload of None \<Rightarrow> d | Some f \<Rightarrow> snd (f conf d))"

definition LoadConfig ::
    "('e, 'd) reload option \<Rightarrow> base_config \<Rightarrow> config_manager \<times> 'd \<Rightarrow> config_manager \<times> 'd" where
  "LoadConfig reload conf md =
     (let (m, d) = md in (m\<lparr>m_currConfig := Some conf\<rparr>, call_reload reload conf d))"

definition manager_Equal :: "base_config \<Rightarrow> config_manager \<Rightarrow> bool option" where
  "manager_Equal conf m =
     (case m_currConfig m of None \<Rightarrow> Some False | Some c \<Rightarrow> config_equal c conf)"

definition AddService ::
    "('e, 'd) reload option \<Rightarrow> balancer_service \<Rightarrow> config_manager \<times> 'd \<Rightarrow> config_manager \<times> 'd" where
  "AddService reload srv md =
     (let (m, d) = md
      in case m_currConfig m of
           None \<Rightarrow> (m, d)
         | Some conf \<Rightarrow>
             if find (\<lambda>s. srv_name s = srv_name srv) (services conf) = None
             then (let conf = conf\<lparr>services := services conf @ [srv]\<rparr>
                   in (m\<lparr>m_currConfig := Some conf\<rparr>, call_reload reload conf d))
             else (m, d))"

text \<open>\<open>std::find_if\<close> as a position, and an assignment through the iterator.\<close>

fun find_index :: "('a \<Rightarrow> bool) \<Rightarrow> 'a list \<Rightarrow> nat option" where
  "find_index P [] = None"
| "find_index P (x # xs) = (if P x then Some 0 else map_option Suc (find_index P xs))"

definition SetRealState ::
    "('e, 'd) reload option \<Rightarrow> set_real_state_request \<Rightarrow> config_manager \<times> 'd \<Rightarrow>
     string option \<times> config_manager \<times> 'd"
where
  "SetRealState reload request md =
     (let (m, d) = md
      in case m_currConfig m of
           None \<Rightarrow> (Some ''empty config'', m, d)
         | Some conf \<Rightarrow>
             (case find_index (\<lambda>s. srv_name s = serviceName request) (services conf) of
                None \<Rightarrow> (Some (''service with name '' @ serviceName request @ '' not found''), m, d)
              | Some i \<Rightarrow>
                  (let srv = services conf ! i
                   in case find_index (\<lambda>r. real_ip r = realIp request) (reals srv) of
                        None \<Rightarrow> (Some (''real '' @ realIp request @ '' not found''), m, d)
                      | Some j \<Rightarrow>
                          (let srv = srv\<lparr>reals := (reals srv)[j := (reals srv ! j)\<lparr>enabled := req_enabled request\<rparr>]\<rparr>;
                               conf = conf\<lparr>services := (services conf)[i := srv]\<rparr>
                           in (None, m\<lparr>m_currConfig := Some conf\<rparr>, call_reload reload conf d)))))"

definition ListServices :: "config_manager \<Rightarrow> balancer_service list option" where
  "ListServices m = map_option services (m_currConfig m)"

definition ListBackends :: "config_manager \<Rightarrow> balancer_real list option" where
  "ListBackends m =
     map_option (\<lambda>conf. foldl (\<lambda>reals_acc srv. reals_acc @ reals srv) [] (services conf)) (m_currConfig m)"

subsection \<open>Positions\<close>

lemma find_index_Some:
  "find_index P xs = Some i \<longleftrightarrow> i < length xs \<and> P (xs ! i) \<and> (\<forall>j < i. \<not> P (xs ! j))"
proof (induction xs arbitrary: i)
  case (Cons x xs)
  show ?case
  proof (cases i)
    case 0
    then show ?thesis by auto
  next
    case (Suc k)
    then show ?thesis using Cons [of k] by (auto simp: All_less_Suc2)
  qed
qed simp

lemma find_index_None: "find_index P xs = None \<longleftrightarrow> (\<forall>x \<in> set xs. \<not> P x)"
  by (induction xs) auto

lemma find_index_update:
  assumes "find_index P xs = Some i" "P y"
  shows "find_index P (xs[i := y]) = Some i"
  using assms by (auto simp: find_index_Some nth_list_update)

lemma ListBackends_concat: "ListBackends m = map_option (\<lambda>conf. concat (map reals (services conf))) (m_currConfig m)"
proof -
  have "foldl (\<lambda>acc srv. acc @ reals srv) acc ss = acc @ concat (map reals ss)"
    for acc and ss :: "balancer_service list"
    by (induction ss arbitrary: acc) simp_all
  then show ?thesis by (simp add: ListBackends_def)
qed

subsection \<open>The contract with the data plane\<close>

text \<open>
  What the manager needs of a data plane: an invariant that \<open>ReloadConfig\<close> keeps whatever
  configuration it gets, with an error or without. Every operation of the manager keeps it then.
\<close>

locale dataplane =
  fixes reload :: "('e, 'd) reload"
    and inv :: "'d \<Rightarrow> bool"
  assumes reload_inv: "inv d \<Longrightarrow> inv (snd (reload conf d))"
begin

lemma call_inv: "inv d \<Longrightarrow> inv (call_reload (Some reload) conf d)"
  by (simp add: call_reload_def reload_inv)

lemma LoadConfig_inv: "inv d \<Longrightarrow> inv (snd (LoadConfig (Some reload) conf (m, d)))"
  by (simp add: LoadConfig_def call_inv)

lemma AddService_inv: "inv d \<Longrightarrow> inv (snd (AddService (Some reload) srv (m, d)))"
  by (simp add: AddService_def call_inv Let_def split: option.split)

lemma SetRealState_inv: "inv d \<Longrightarrow> inv (snd (snd (SetRealState (Some reload) request (m, d))))"
  by (simp add: SetRealState_def call_inv Let_def split: option.split)

end

end
