(* ===== verification/Arp.thy ===== *)
theory Arp
  imports Prelude
begin

section \<open>Resolving an IPv4 neighbour\<close>

text \<open>
  \<open>Arp::Lookup\<close> of \<open>controlplane/src/netutils/arp.cpp\<close>: an ARP request on a raw socket, and the
  frames the socket receives until a reply of the wanted address comes or a receive fails (after
  five seconds without a frame). The kernel's answers are arguments: the socket calls and the
  \<open>k\<close>-th frame. The receive buffer keeps what earlier frames left beyond the end of a short one.
  \<open>None\<close> is that the lookup does not return. The open sockets are counted.
\<close>

definition BUF_SIZE :: nat where "BUF_SIZE = 2048"
definition IFNAMSIZ :: nat where "IFNAMSIZ = 16"

datatype recv_result = Recv_fails | Frame bytes

record arp_host =
  socket_ok :: bool
  ioctl_ifindex :: "string \<Rightarrow> u32 option"
  ioctl_hwaddr :: "string \<Rightarrow> bytes option"
  ioctl_addr :: "string \<Rightarrow> u32 option"
  inet_addr :: "string \<Rightarrow> u32"
  bind_ok :: bool
  sendto_ok :: "bytes \<Rightarrow> bool"
  setsockopt_ok :: bool
  recvfrom :: "nat \<Rightarrow> recv_result"
  stack_bytes :: bytes

definition INADDR_NONE :: u32 where "INADDR_NONE = 0xFFFFFFFF"

text \<open>\<open>strncpy(ifr.ifr_name, name, IFNAMSIZ - 1)\<close>: a longer name is cut.\<close>

definition ifr_name :: "string \<Rightarrow> string" where
  "ifr_name name = take (IFNAMSIZ - 1) name"

definition get_if_index :: "('x) arp_host_scheme \<Rightarrow> string \<Rightarrow> u32 option" where
  "get_if_index a name = ioctl_ifindex a (ifr_name name)"

subsection \<open>Frames\<close>

text \<open>Ethernet header, ARP header, then the four addresses.\<close>

definition arp_request :: "bytes \<Rightarrow> u32 \<Rightarrow> u32 \<Rightarrow> bytes" where
  "arp_request src_mac src_ip tgt_ip =
     replicate 6 0xff @ src_mac @ [0x08, 0x06]
     @ [0, 1] @ [0x08, 0x00] @ [6] @ [4] @ [0, 1]
     @ src_mac @ bytes32 src_ip @ replicate 6 0 @ bytes32 tgt_ip"

definition send_arp_req :: "('x) arp_host_scheme \<Rightarrow> bytes \<Rightarrow> u32 \<Rightarrow> u32 \<Rightarrow> bool" where
  "send_arp_req a src_mac src_ip tgt_ip = sendto_ok a (arp_request src_mac src_ip tgt_ip)"

text \<open>\<open>ntohs\<close> of two bytes of the buffer; the operation is at 20, the sender at 22 and 28.\<close>

definition be16_at :: "bytes \<Rightarrow> nat \<Rightarrow> nat" where
  "be16_at buf i = 256 * unat (buf ! i) + unat (buf ! (i + 1))"

definition is_reply_of :: "u32 \<Rightarrow> bytes \<Rightarrow> bool" where
  "is_reply_of wanted_ip buf \<longleftrightarrow>
     be16_at buf 12 = 0x0806 \<and> be16_at buf 20 = 2 \<and> le32 (take 4 (drop 28 buf)) = wanted_ip"

definition receive_into :: "bytes \<Rightarrow> bytes \<Rightarrow> bytes" where
  "receive_into p buf = take BUF_SIZE p @ drop (length (take BUF_SIZE p)) buf"

partial_function (option) recv_loop ::
    "(nat \<Rightarrow> recv_result) \<Rightarrow> u32 \<Rightarrow> nat \<Rightarrow> bytes \<Rightarrow> bytes option option" where
  "recv_loop answers wanted_ip k buf =
     (case answers k of
        Recv_fails \<Rightarrow> Some None
      | Frame p \<Rightarrow>
          (let buf = receive_into p buf
           in if length (take BUF_SIZE p) < 22 then recv_loop answers wanted_ip (Suc k) buf
              else if is_reply_of wanted_ip buf then Some (Some (take 6 (drop 22 buf)))
              else recv_loop answers wanted_ip (Suc k) buf))"

definition recv_arp_reply :: "('x) arp_host_scheme \<Rightarrow> u32 \<Rightarrow> bytes option option" where
  "recv_arp_reply a wanted_ip =
     (if \<not> setsockopt_ok a then Some None else recv_loop (recvfrom a) wanted_ip 0 (stack_bytes a))"

text \<open>The result and the number of open sockets; each early return closes the socket first.\<close>

definition arp_Lookup :: "('x) arp_host_scheme \<Rightarrow> string \<Rightarrow> string \<Rightarrow> nat \<Rightarrow> (bytes option \<times> nat) option" where
  "arp_Lookup a ipv4 iface fds =
     (if \<not> socket_ok a then Some (None, fds)
      else
        (let fds = fds + 1; close_and_fail = Some (None, fds - 1)
         in case get_if_index a iface of
              None \<Rightarrow> close_and_fail
            | Some _ \<Rightarrow>
                (case ioctl_hwaddr a (ifr_name iface) of
                   None \<Rightarrow> close_and_fail
                 | Some src_mac \<Rightarrow>
                     (case ioctl_addr a (ifr_name iface) of
                        None \<Rightarrow> close_and_fail
                      | Some src_ip \<Rightarrow>
                          (let tgt_ip = inet_addr a ipv4
                           in if tgt_ip = INADDR_NONE then close_and_fail
                              else if \<not> bind_ok a then close_and_fail
                              else if \<not> send_arp_req a src_mac src_ip tgt_ip then close_and_fail
                              else
                                (case recv_arp_reply a tgt_ip of
                                   None \<Rightarrow> None
                                 | Some None \<Rightarrow> close_and_fail
                                 | Some (Some mac) \<Rightarrow> Some (Some mac, fds - 1)))))))"

subsection \<open>The socket is closed on every path\<close>

lemma arp_Lookup_closes: "arp_Lookup a ipv4 iface fds = Some (r, fds') \<Longrightarrow> fds' = fds"
  by (auto simp: arp_Lookup_def Let_def split: if_splits option.splits)

subsection \<open>The receive loop\<close>

text \<open>A frame that does not end the loop, whatever the buffer held.\<close>

definition skipped :: "u32 \<Rightarrow> recv_result \<Rightarrow> bool" where
  "skipped wanted_ip r \<longleftrightarrow>
     (\<exists>p. r = Frame p \<and> (length (take BUF_SIZE p) < 22 \<or> (\<forall>buf. \<not> is_reply_of wanted_ip (receive_into p buf))))"

lemma not_skipped:
  "\<not> length (take BUF_SIZE p) < 22 \<Longrightarrow> is_reply_of wanted_ip (receive_into p buf) \<Longrightarrow>
     \<not> skipped wanted_ip (Frame p)" "\<not> skipped wanted_ip Recv_fails"
  by (auto simp: skipped_def)

lemma recv_loop_skip:
  "skipped wanted_ip (answers k) \<Longrightarrow>
     \<exists>buf'. recv_loop answers wanted_ip k buf = recv_loop answers wanted_ip (Suc k) buf'"
  by (subst recv_loop.simps) (auto simp: skipped_def Let_def)

lemma recv_loop_skips:
  "(\<forall>j < n. skipped wanted_ip (answers (k + j))) \<Longrightarrow>
     \<exists>buf'. recv_loop answers wanted_ip k buf = recv_loop answers wanted_ip (k + n) buf'"
proof (induction n)
  case (Suc n)
  then obtain buf' where "recv_loop answers wanted_ip k buf = recv_loop answers wanted_ip (k + n) buf'" by auto
  moreover obtain buf'' where
    "recv_loop answers wanted_ip (k + n) buf' = recv_loop answers wanted_ip (Suc (k + n)) buf''"
    using recv_loop_skip [of wanted_ip answers "k + n"] Suc.prems by blast
  ultimately show ?case by auto
qed auto

text \<open>The time limit is one of a single receive: frames that keep coming keep the loop going.\<close>

lemma recv_loop_diverges: "\<forall>k. skipped wanted_ip (answers k) \<Longrightarrow> recv_loop answers wanted_ip k buf = None"
proof (rule ccontr)
  assume s: "\<forall>k. skipped wanted_ip (answers k)" and "recv_loop answers wanted_ip k buf \<noteq> None"
  then obtain r where r: "recv_loop answers wanted_ip k buf = Some r" by blast
  have "\<exists>k. \<not> skipped wanted_ip (answers k)"
  proof (rule recv_loop.raw_induct [OF _ r])
    fix loop answers wanted_ip k buf r
    assume IH: "\<And>answers wanted_ip k buf r. loop answers wanted_ip k buf = Some r \<Longrightarrow>
        \<exists>k. \<not> skipped wanted_ip (answers k)"
      and "(case answers k of
          Recv_fails \<Rightarrow> Some None
        | Frame p \<Rightarrow> let buf = receive_into p buf
            in if length (take BUF_SIZE p) < 22 then loop answers wanted_ip (Suc k) buf
               else if is_reply_of wanted_ip buf then Some (Some (take 6 (drop 22 buf)))
               else loop answers wanted_ip (Suc k) buf) = Some r"
    then show "\<exists>k. \<not> skipped wanted_ip (answers k)"
      using not_skipped(1) [where wanted_ip = wanted_ip and buf = buf] not_skipped(2) [of wanted_ip]
      by (cases "answers k") (auto simp: Let_def split: if_splits, metis+)
  qed
  with s show False by blast
qed

subsection \<open>Request and reply\<close>

text \<open>
  The neighbour, as RFC 826 has it: it answers a request for its own address with its hardware
  address.
\<close>

definition arp_peer :: "bytes \<Rightarrow> u32 \<Rightarrow> bytes \<Rightarrow> bytes option" where
  "arp_peer mac ip frame =
     (if length frame = 42 \<and> be16_at frame 12 = 0x0806 \<and> be16_at frame 20 = 1
         \<and> le32 (take 4 (drop 38 frame)) = ip
      then Some (take 6 (drop 6 frame) @ mac @ [0x08, 0x06] @ [0, 1] @ [0x08, 0x00] @ [6] @ [4] @ [0, 2]
                 @ mac @ bytes32 ip @ take 10 (drop 22 frame))
      else None)"

lemma six_bytes:
  assumes "length m = 6"
  obtains a b c d e f where "m = [a, b, c, d, e, f]"
  using assms by (auto simp: length_Suc_conv eval_nat_numeral)

lemma arp_peer_answers:
  assumes "length src_mac = 6" "length mac = 6"
  obtains reply where "arp_peer mac ip (arp_request src_mac src_ip ip) = Some reply" "length reply = 42"
    "\<forall>buf. is_reply_of ip (receive_into reply buf)"
    "\<forall>buf. take 6 (drop 22 (receive_into reply buf)) = mac"
proof -
  obtain a b c d e f where s: "src_mac = [a, b, c, d, e, f]" by (rule six_bytes [OF assms(1)])
  obtain a' b' c' d' e' f' where m: "mac = [a', b', c', d', e', f']" by (rule six_bytes [OF assms(2)])
  define reply where "reply = src_mac @ mac @ [0x08, 0x06] @ [0, 1] @ [0x08, 0x00] @ [6] @ [4] @ [0, 2]
      @ mac @ bytes32 ip @ src_mac @ bytes32 src_ip"
  have len: "length reply = 42" by (simp add: reply_def s m)
  have into: "receive_into reply buf = reply @ drop 42 buf" for buf
    by (simp add: receive_into_def len BUF_SIZE_def)
  have req: "arp_request src_mac src_ip ip =
      replicate 6 0xff @ src_mac @ [0x08, 0x06, 0, 1, 0x08, 0x00, 6, 4, 0, 1] @ (src_mac @ bytes32 src_ip)
      @ replicate 6 0 @ bytes32 ip"
    by (simp add: arp_request_def)
  have "le32 (take 4 (drop 38 (arp_request src_mac src_ip ip))) = ip"
    by (simp add: req assms(1))
  moreover have "take 10 (drop 22 (arp_request src_mac src_ip ip)) = src_mac @ bytes32 src_ip"
    "take 6 (drop 6 (arp_request src_mac src_ip ip)) = src_mac"
    by (simp_all add: req assms(1))
  moreover have "be16_at (arp_request src_mac src_ip ip) 12 = 0x0806"
    "be16_at (arp_request src_mac src_ip ip) 20 = 1" "length (arp_request src_mac src_ip ip) = 42"
    by (simp_all add: arp_request_def s be16_at_def nth_append)
  ultimately have "arp_peer mac ip (arp_request src_mac src_ip ip) = Some reply"
    by (simp add: arp_peer_def reply_def)
  moreover have "is_reply_of ip (receive_into reply buf)" for buf
    unfolding into is_reply_of_def by (simp add: reply_def be16_at_def s m nth_append)
  moreover have "take 6 (drop 22 (receive_into reply buf)) = mac" for buf
    unfolding into by (simp add: reply_def assms)
  ultimately show ?thesis using len by (intro that) blast+
qed

end
