(* ===== verification/Ndp.thy ===== *)
theory Ndp
  imports Prelude
begin

section \<open>Resolving an IPv6 neighbour\<close>

text \<open>
  \<open>Ndp::Lookup\<close> of \<open>controlplane/src/netutils/ndp.cpp\<close> asks the kernel for its neighbour table
  over a netlink socket and walks through the answer, datagram by datagram, message by message,
  attribute by attribute, in a buffer of 16384 bytes. The macros \<open>NLMSG_OK\<close>, \<open>NLMSG_NEXT\<close>,
  \<open>RTA_OK\<close> and \<open>RTA_NEXT\<close> are those of the kernel headers. The kernel's answers are arguments:
  the \<open>k\<close>-th datagram, or \<open>None\<close> when the socket stays silent, for which the code sets no time
  limit. The socket is in the bytes' order of the machine, little-endian.
\<close>

definition BUFFER_SIZE :: nat where "BUFFER_SIZE = 16384"

definition NLMSG_ERROR :: u16 where "NLMSG_ERROR = 2"
definition NLMSG_DONE :: u16 where "NLMSG_DONE = 3"
definition RTM_NEWNEIGH :: u16 where "RTM_NEWNEIGH = 28"
definition RTM_GETNEIGH :: u16 where "RTM_GETNEIGH = 30"
definition NDA_DST :: u16 where "NDA_DST = 1"
definition NDA_LLADDR :: u16 where "NDA_LLADDR = 2"
definition AF_INET6 :: u8 where "AF_INET6 = 10"

lemmas netlink_defs = NLMSG_ERROR_def NLMSG_DONE_def RTM_NEWNEIGH_def RTM_GETNEIGH_def NDA_DST_def
  NDA_LLADDR_def AF_INET6_def

datatype netlink_answer = Recv_error | Datagram bytes

record ndp_host =
  nd_inet_pton :: "string \<Rightarrow> bytes option"
  nd_if_index :: "string \<Rightarrow> u32"
  nd_socket_ok :: bool
  nd_bind_ok :: bool
  nd_pid :: u32
  nd_send_ok :: "bytes \<Rightarrow> bool"
  nd_recvmsg :: "nat \<Rightarrow> netlink_answer option"
  nd_stack_bytes :: bytes

subsection \<open>The request\<close>

text \<open>
  \<open>nlmsghdr\<close> (16 bytes: length, type, flags, sequence, process) and \<open>ndmsg\<close> (12 bytes: family,
  padding, interface, state, flags, type). The state is the set of the five states asked for.
\<close>

definition neighbour_request :: "u32 \<Rightarrow> u32 \<Rightarrow> bytes" where
  "neighbour_request pid if_index =
     bytes32 28 @ bytes16 RTM_GETNEIGH @ bytes16 0x301 @ bytes32 1 @ bytes32 pid
     @ [AF_INET6, 0, 0, 0] @ bytes32 if_index @ bytes16 (0x02 OR 0x04 OR 0x08 OR 0x10 OR 0x80) @ [0, 0]"

subsection \<open>Attributes\<close>

definition u16_at :: "bytes \<Rightarrow> nat \<Rightarrow> u16" where
  "u16_at buf i = le16 (take 2 (drop i buf))"

definition u32_at :: "bytes \<Rightarrow> nat \<Rightarrow> u32" where
  "u32_at buf i = le32 (take 4 (drop i buf))"

definition align4 :: "nat \<Rightarrow> nat" where
  "align4 n = (n + 3) div 4 * 4"

record found_attrs =
  dst_addr :: "bytes option"
  lladdr :: "bytes option"

text \<open>\<open>while (RTA_OK(rta, rta_len))\<close>; \<open>None\<close> is a read beyond the buffer.\<close>

function walk_attrs :: "bytes \<Rightarrow> nat \<Rightarrow> int \<Rightarrow> found_attrs \<Rightarrow> found_attrs option" where
  "walk_attrs buf rta rta_len fa =
     (if rta_len < 4 then Some fa
      else if BUFFER_SIZE < rta + 4 then None
      else
        (let l = unat (u16_at buf rta); t = u16_at buf (rta + 2)
         in if l < 4 \<or> rta_len < int l then Some fa
            else if t = NDA_DST \<and> l = 20 then
              (if BUFFER_SIZE < rta + 20 then None
               else walk_attrs buf (rta + align4 l) (rta_len - int (align4 l))
                      (fa\<lparr>dst_addr := Some (take 16 (drop (rta + 4) buf))\<rparr>))
            else if t = NDA_LLADDR \<and> l = 10 then
              (if BUFFER_SIZE < rta + 10 then None
               else walk_attrs buf (rta + align4 l) (rta_len - int (align4 l))
                      (fa\<lparr>lladdr := Some (take 6 (drop (rta + 4) buf))\<rparr>))
            else walk_attrs buf (rta + align4 l) (rta_len - int (align4 l)) fa))"
  by pat_completeness auto
termination
  by (relation "measure (\<lambda>(_, _, rta_len, _). nat rta_len)") (auto simp: align4_def)

declare walk_attrs.simps [simp del]

subsection \<open>Messages\<close>

datatype message_result = Found bytes | Kernel_error | Read_on | Overread | Endless

text \<open>
  A neighbour message for the wanted interface and address: the attributes start after the
  headers, and their length is the message's less 28 bytes, which a short message makes negative.
\<close>

definition neighbour_of :: "u32 \<Rightarrow> bytes \<Rightarrow> bytes \<Rightarrow> nat \<Rightarrow> nat \<Rightarrow> bytes option option" where
  "neighbour_of if_index addr6 buf off msg_len =
     (if BUFFER_SIZE < off + 28 then None
      else if buf ! (off + 16) = AF_INET6 \<and> u32_at buf (off + 20) = if_index then
        (case walk_attrs buf (off + 28) (int msg_len - 28) \<lparr>dst_addr = None, lladdr = None\<rparr> of
           None \<Rightarrow> None
         | Some fa \<Rightarrow>
             (case (dst_addr fa, lladdr fa) of
                (Some d, Some mac) \<Rightarrow> Some (if d = addr6 then Some mac else None)
              | _ \<Rightarrow> Some None))
      else Some None)"

text \<open>
  \<open>while (NLMSG_OK(nlh, (size_t) len))\<close>: a length that the alignment of the last message made
  negative is a very large one here. \<open>NLMSG_ALIGN\<close> works in 32 bits: a length that it rounds to
  zero keeps the loop at its message for ever (\<open>Endless\<close>).
\<close>

definition nlmsg_align :: "u32 \<Rightarrow> nat" where
  "nlmsg_align n = unat ((n + 3) AND NOT 3)"

definition as_size_t :: "int \<Rightarrow> int" where
  "as_size_t len = (if len < 0 then 2 ^ 64 + len else len)"

function walk_messages :: "u32 \<Rightarrow> bytes \<Rightarrow> bytes \<Rightarrow> nat \<Rightarrow> int \<Rightarrow> message_result" where
  "walk_messages if_index addr6 buf off len =
     (if as_size_t len < 16 then Read_on
      else if BUFFER_SIZE < off + 16 then Overread
      else
        (let msg_len = unat (u32_at buf off); msg_type = u16_at buf (off + 4);
             step = nlmsg_align (u32_at buf off)
         in if msg_len < 16 \<or> as_size_t len < int msg_len then Read_on
            else if msg_type = NLMSG_DONE then Read_on
            else if msg_type = NLMSG_ERROR then Kernel_error
            else if msg_type = RTM_NEWNEIGH then
              (case neighbour_of if_index addr6 buf off msg_len of
                 None \<Rightarrow> Overread
               | Some (Some mac) \<Rightarrow> Found mac
               | Some None \<Rightarrow>
                   if step = 0 then Endless
                   else walk_messages if_index addr6 buf (off + step) (len - int step))
            else if step = 0 then Endless
            else walk_messages if_index addr6 buf (off + step) (len - int step)))"
  by pat_completeness auto
termination
  by (relation "measure (\<lambda>(_, _, _, off, _). BUFFER_SIZE - off)") (auto)

declare walk_messages.simps [simp del]

definition fill_buffer :: "bytes \<Rightarrow> bytes \<Rightarrow> bytes" where
  "fill_buffer p buf = take BUFFER_SIZE p @ drop (length (take BUFFER_SIZE p)) buf"

datatype ndp_result = Resolved bytes | Unresolved | Ndp_undefined

partial_function (option) datagram_loop ::
    "(nat \<Rightarrow> netlink_answer option) \<Rightarrow> u32 \<Rightarrow> bytes \<Rightarrow> nat \<Rightarrow> bytes \<Rightarrow> ndp_result option" where
  "datagram_loop answers if_index addr6 k buf =
     (case answers k of
        None \<Rightarrow> None
      | Some Recv_error \<Rightarrow> Some Unresolved
      | Some (Datagram p) \<Rightarrow>
          (let buf = fill_buffer p buf
           in case walk_messages if_index addr6 buf 0 (int (length (take BUFFER_SIZE p))) of
                Found mac \<Rightarrow> Some (Resolved mac)
              | Kernel_error \<Rightarrow> Some Unresolved
              | Overread \<Rightarrow> Some Ndp_undefined
              | Endless \<Rightarrow> None
              | Read_on \<Rightarrow> datagram_loop answers if_index addr6 (Suc k) buf))"

definition ndp_Lookup :: "('x) ndp_host_scheme \<Rightarrow> string \<Rightarrow> string \<Rightarrow> ndp_result option" where
  "ndp_Lookup n ipv6 iface =
     (case nd_inet_pton n ipv6 of
        None \<Rightarrow> Some Unresolved
      | Some addr6 \<Rightarrow>
          (let if_index = nd_if_index n iface
           in if if_index = 0 then Some Unresolved
              else if \<not> nd_socket_ok n then Some Unresolved
              else if \<not> nd_bind_ok n then Some Unresolved
              else if \<not> nd_send_ok n (neighbour_request (nd_pid n) if_index) then Some Unresolved
              else datagram_loop (nd_recvmsg n) if_index addr6 0 (nd_stack_bytes n)))"

subsection \<open>The lookup of an unknown neighbour\<close>

text \<open>
  A datagram without the neighbour and without an error message, whatever the buffer held: the
  message that ends the dump leaves the inner loop only.
\<close>

definition passed_over :: "u32 \<Rightarrow> bytes \<Rightarrow> netlink_answer option \<Rightarrow> bool" where
  "passed_over if_index addr6 r \<longleftrightarrow>
     (r = None \<or> (\<exists>p. r = Some (Datagram p) \<and>
        (\<forall>buf. walk_messages if_index addr6 (fill_buffer p buf) 0 (int (length (take BUFFER_SIZE p))) = Read_on)))"

lemma datagram_loop_diverges:
  "\<forall>k. passed_over if_index addr6 (answers k) \<Longrightarrow> datagram_loop answers if_index addr6 k buf = None"
proof (rule ccontr)
  assume s: "\<forall>k. passed_over if_index addr6 (answers k)" and "datagram_loop answers if_index addr6 k buf \<noteq> None"
  then obtain r where r: "datagram_loop answers if_index addr6 k buf = Some r" by blast
  have "\<exists>k. \<not> passed_over if_index addr6 (answers k)"
  proof (rule datagram_loop.raw_induct [OF _ r])
    fix loop answers if_index addr6 k buf r
    assume IH: "\<And>answers if_index addr6 k buf r. loop answers if_index addr6 k buf = Some r \<Longrightarrow>
        \<exists>k. \<not> passed_over if_index addr6 (answers k)"
      and step: "(case answers k of
          None \<Rightarrow> None
        | Some Recv_error \<Rightarrow> Some Unresolved
        | Some (Datagram p) \<Rightarrow>
            let buf = fill_buffer p buf
            in case walk_messages if_index addr6 buf 0 (int (length (take BUFFER_SIZE p))) of
                 Found mac \<Rightarrow> Some (Resolved mac)
               | Kernel_error \<Rightarrow> Some Unresolved
               | Overread \<Rightarrow> Some Ndp_undefined
               | Endless \<Rightarrow> None
               | Read_on \<Rightarrow> loop answers if_index addr6 (Suc k) buf) = Some r"
    show "\<exists>k. \<not> passed_over if_index addr6 (answers k)"
    proof (cases "passed_over if_index addr6 (answers k)")
      case True
      then obtain p where "answers k = Some (Datagram p)"
        "walk_messages if_index addr6 (fill_buffer p buf) 0 (int (length (take BUFFER_SIZE p))) = Read_on"
        using step by (auto simp: passed_over_def)
      then have "loop answers if_index addr6 (Suc k) (fill_buffer p buf) = Some r"
        using step by (simp add: Let_def)
      then show ?thesis by (rule IH)
    qed blast
  qed
  with s show False by blast
qed

subsection \<open>The lookup of a known neighbour\<close>

text \<open>An entry of the kernel's neighbour table, as \<open>RTM_NEWNEIGH\<close> reports it.\<close>

definition neighbour_entry :: "u32 \<Rightarrow> u32 \<Rightarrow> u16 \<Rightarrow> bytes \<Rightarrow> bytes \<Rightarrow> bytes" where
  "neighbour_entry pid if_index state addr6 mac =
     bytes32 60 @ bytes16 RTM_NEWNEIGH @ bytes16 2 @ bytes32 1 @ bytes32 pid
     @ [AF_INET6, 0, 0, 0] @ bytes32 if_index @ bytes16 state @ [0, 0]
     @ bytes16 20 @ bytes16 NDA_DST @ addr6 @ bytes16 10 @ bytes16 NDA_LLADDR @ mac @ [0, 0]"

lemma length_bytes [simp]: "length (bytes16 w) = 2" "length (bytes32 v) = 4"
  by (simp_all add: bytes16_def bytes32_def)

lemma neighbour_entry_walk:
  assumes "length addr6 = 16" "length mac = 6" "length buf = BUFFER_SIZE" "60 \<le> len" "len \<le> BUFFER_SIZE"
    and "take 60 buf = neighbour_entry pid if_index state addr6 mac"
  shows "walk_messages if_index addr6 buf 0 (int len) = Found mac"
proof -
  obtain rest where buf: "buf = neighbour_entry pid if_index state addr6 mac @ rest"
    using assms(6) by (metis append_take_drop_id)
  have fields: "u32_at buf 0 = 60" "u16_at buf 4 = RTM_NEWNEIGH" "buf ! 16 = AF_INET6" "u32_at buf 20 = if_index"
    "u16_at buf 28 = 20" "u16_at buf 30 = NDA_DST" "take 16 (drop 32 buf) = addr6"
    "u16_at buf 48 = 10" "u16_at buf 50 = NDA_LLADDR" "take 6 (drop 52 buf) = mac"
    using assms(1,2) by (simp_all add: buf neighbour_entry_def u32_at_def u16_at_def nth_append)
  have "walk_attrs buf 28 32 \<lparr>dst_addr = None, lladdr = None\<rparr> = Some \<lparr>dst_addr = Some addr6, lladdr = Some mac\<rparr>"
    by (subst walk_attrs.simps, subst walk_attrs.simps, subst walk_attrs.simps)
      (simp add: fields align4_def BUFFER_SIZE_def netlink_defs)
  then show ?thesis
    using assms(4) by (subst walk_messages.simps)
      (simp add: fields neighbour_of_def as_size_t_def BUFFER_SIZE_def netlink_defs)
qed

end
