(* ===== verification/Xdp_Dataplane.thy ===== *)
theory Xdp_Dataplane
  imports Ch_Manager Config_Manager Arp Ndp
begin

section \<open>Loading a configuration into the BPF maps\<close>

text \<open>
  \<open>XdpDataplane::ReloadConfig\<close> of \<open>controlplane/src/manager/xdpdataplane.cpp\<close>, phase by phase:
  the services and backends are prepared in memory, written to the half of the double buffer that
  is not in use, and the index is switched; then the round-robin state, the consistent-hash
  tables, the sessions and the counters follow. Every phase can end the function with an error
  and leaves behind what was done until then.

  Arguments of the model: the address functions of the C library and what the neighbour lookups
  give (\<open>host\<close>; \<open>None\<close> is that a lookup does not return, as in \<open>Arp\<close> and \<open>Ndp\<close>), with the bytes that the code leaves uninitialised and the kernel reads: the part of
  an address union that is not assigned and the upper half of the 8-byte index, of which the code
  passes a 4-byte \<open>int\<close>. The service keys are built from braces and are zero where nothing is
  assigned. Here the phases run one after the other; \<open>Reload_Steps\<close> lets packets come in between.
\<close>

record host =
  inet_aton :: "string \<Rightarrow> u32 option"
  inet_pton6 :: "string \<Rightarrow> bytes option"
  Arp_Lookup :: "string \<Rightarrow> bytes option option"
  Ndp_Lookup :: "string \<Rightarrow> ndp_result option"
  rest_of_union :: bytes
  rest_of_index :: u32

text \<open>The lookups of \<open>Arp\<close> and \<open>Ndp\<close> on an interface, when the kernel answers them as \<open>a\<close> and \<open>n\<close> say.\<close>

definition asking_neighbours ::
    "('x) arp_host_scheme \<Rightarrow> ('y) ndp_host_scheme \<Rightarrow> string \<Rightarrow> host \<Rightarrow> host" where
  "asking_neighbours a n iface h =
     h\<lparr>Arp_Lookup := (\<lambda>ip. map_option fst (arp_Lookup a ip iface 0)), Ndp_Lookup := (\<lambda>ip. ndp_Lookup n ip iface)\<rparr>"

text \<open>\<open>maps_opened\<close>: \<open>isValidBpfState\<close> and the positive descriptors that \<open>RunProgram\<close> got.\<close>

record xdp_dataplane =
  maps_opened :: bool
  m_isFirstRun :: bool
  m_xdpBackends :: "backend list"
  m_xdpKeys :: "service_key list"
  m_xdpServices :: "service_info list"
  dp_currConfig :: base_config
  m_chManager :: ch_services
  kernel :: xdp_maps

text \<open>
  The last two are no results: a lookup that does not return, and behaviour that is undefined.
  The function ends with such a value where the code gets stuck or can do anything;
  \<open>comes_back\<close> excludes both.
\<close>

datatype reload_error =
    Invalid_maps
  | Bad_vip string
  | Bad_real string
  | No_mac string
  | Ddos_update_failed
  | Index_lookup_failed
  | Backends_update_failed
  | Services_update_failed
  | Index_update_failed
  | Rr_update_failed
  | Backend_stats_failed u32
  | Service_stats_failed
  | Never_returns
  | Undefined_behaviour

definition comes_back :: "reload_error option \<Rightarrow> bool" where
  "comes_back r \<longleftrightarrow> r \<noteq> Some Never_returns \<and> r \<noteq> Some Undefined_behaviour"

type_synonym phase = "xdp_dataplane \<Rightarrow> reload_error option \<times> xdp_dataplane"

definition and_then :: "phase \<Rightarrow> phase \<Rightarrow> phase" where
  "and_then f g d = (case f d of (Some e, d) \<Rightarrow> (Some e, d) | (None, d) \<Rightarrow> g d)"

definition in_kernel :: "(xdp_maps \<Rightarrow> xdp_maps) \<Rightarrow> xdp_dataplane \<Rightarrow> xdp_dataplane" where
  "in_kernel f d = d\<lparr>kernel := f (kernel d)\<rparr>"

subsection \<open>Services and backends\<close>

definition protocol_number :: "string \<Rightarrow> u8" where
  "protocol_number protocol = (if protocol = ''tcp'' then IPPROTO_TCP else IPPROTO_UDP)"

definition algorithm_number :: "balancer_type \<Rightarrow> u8" where
  "algorithm_number t = (case t of RR \<Rightarrow> 0 | WRR \<Rightarrow> 1 | CH \<Rightarrow> 2)"

definition prepare_key :: "host \<Rightarrow> balancer_service \<Rightarrow> service_key option" where
  "prepare_key h service =
     (let key = \<lparr>vip6 = replicate 16 0, sk_port = ucast (srv_port service),
                 sk_protocol = protocol_number (srv_protocol service), sk_ip_version = 4,
                 sk_pad = replicate 4 0\<rparr>
      in if srv_ip_version service = 4
         then map_option (\<lambda>addr. key\<lparr>vip6 := bytes32 addr @ replicate 12 0, sk_ip_version := 4\<rparr>)
                (inet_aton h (srv_vip service))
         else map_option (\<lambda>addr. key\<lparr>vip6 := addr, sk_ip_version := 6\<rparr>)
                (inet_pton6 h (srv_vip service)))"

definition lookup_mac :: "host \<Rightarrow> balancer_real \<Rightarrow> reload_error + bytes" where
  "lookup_mac h real =
     (if real_ip_version real = 4
      then (case Arp_Lookup h (real_ip real) of
              None \<Rightarrow> Inl Never_returns
            | Some None \<Rightarrow> Inl (No_mac (real_ip real))
            | Some (Some hw) \<Rightarrow> Inr hw)
      else (case Ndp_Lookup h (real_ip real) of
              None \<Rightarrow> Inl Never_returns
            | Some Ndp_undefined \<Rightarrow> Inl Undefined_behaviour
            | Some Unresolved \<Rightarrow> Inl (No_mac (real_ip real))
            | Some (Resolved hw) \<Rightarrow> Inr hw))"

definition prepare_backend ::
    "host \<Rightarrow> balancer_service \<Rightarrow> balancer_real \<Rightarrow> reload_error + backend" where
  "prepare_backend h service real =
     (let address =
            (if real_ip_version real = 4
             then map_option (\<lambda>addr. (bytes32 addr @ rest_of_union h, 4)) (inet_aton h (real_ip real))
             else map_option (\<lambda>addr. (addr, 6)) (inet_pton6 h (real_ip real)))
      in case address of
           None \<Rightarrow> Inl (Bad_real (real_ip real))
         | Some (addr, version) \<Rightarrow>
             (case lookup_mac h real of
                Inl e \<Rightarrow> Inl e
              | Inr hw \<Rightarrow>
                  Inr \<lparr>be_addr = addr, be_port = ucast (srv_port service), mac = hw,
                       active = (if enabled real then 1 else 0),
                       be_ip_version = version, weight = real_weight real\<rparr>))"

fun prepare_reals :: "host \<Rightarrow> balancer_service \<Rightarrow> balancer_real list \<Rightarrow> phase" where
  "prepare_reals h service [] d = (None, d)"
| "prepare_reals h service (real # rs) d =
     (case prepare_backend h service real of
        Inl e \<Rightarrow> (Some e, d)
      | Inr back \<Rightarrow> prepare_reals h service rs (d\<lparr>m_xdpBackends := m_xdpBackends d @ [back]\<rparr>))"

definition prepare_info :: "balancer_service \<Rightarrow> nat \<Rightarrow> nat \<Rightarrow> service_info" where
  "prepare_info service start idx =
     \<lparr>backend_count = of_nat (length (reals service)), backend_start_idx = of_nat start,
      algorithm = algorithm_number (srv_type service), service_idx = of_nat idx\<rparr>"

fun prepare_services :: "host \<Rightarrow> balancer_service list \<Rightarrow> nat \<Rightarrow> phase" where
  "prepare_services h [] start d = (None, d)"
| "prepare_services h (service # ss) start d =
     (case prepare_key h service of
        None \<Rightarrow> (Some (Bad_vip (srv_vip service)), d)
      | Some key \<Rightarrow>
          and_then (prepare_reals h service (reals service))
            (\<lambda>d. prepare_services h ss (start + length (reals service))
                   (d\<lparr>m_xdpServices := m_xdpServices d @ [prepare_info service start (length (m_xdpServices d))]\<rparr>))
            (d\<lparr>m_xdpKeys := m_xdpKeys d @ [key]\<rparr>))"

subsection \<open>The SYN-flood limits\<close>

text \<open>The product is one of 32-bit integers, as both operands are.\<close>

definition kernel_ddos_config :: "ddos_settings \<Rightarrow> ddos_config" where
  "kernel_ddos_config c =
     \<lparr>syn_threshold = cfg_syn_threshold c, syn_ack_ratio = cfg_syn_ack_ratio c,
      global_syn_threshold = cfg_global_syn_threshold c,
      ban_duration_ns = ucast (ban_duration_ms c * 1000000)\<rparr>"

definition load_ddos :: "base_config \<Rightarrow> phase" where
  "load_ddos config d =
     (case ddosConf config of
        None \<Rightarrow> (None, d)
      | Some c \<Rightarrow>
          (let (done, m) = array_update 1 (ddos_cfg (kernel d)) 0 (kernel_ddos_config c)
           in (if done then None else Some Ddos_update_failed, in_kernel (\<lambda>st. st\<lparr>ddos_cfg := m\<rparr>) d)))"

subsection \<open>The double buffer\<close>

text \<open>\<open>uint8_t currentIndex\<close> gets the low byte of the 8-byte value; the rest overruns it.\<close>

definition read_index :: "xdp_dataplane \<Rightarrow> (reload_error + u8) \<times> xdp_dataplane" where
  "read_index d =
     (if m_isFirstRun d then (Inr 0, d\<lparr>m_isFirstRun := False\<rparr>)
      else
        (case array_lookup 1 (atomic_index (kernel d)) 0 of
           None \<Rightarrow> (Inl Index_lookup_failed, d)
         | Some v \<Rightarrow> (Inr (ucast v), d)))"

text \<open>\<open>bpf_map_update_batch\<close> on a hash map.\<close>

fun hash_batch :: "nat \<Rightarrow> ('k \<times> 'v) list \<Rightarrow> ('k, 'v) bpf_hash \<Rightarrow> bool \<times> ('k, 'v) bpf_hash" where
  "hash_batch n [] m = (True, m)"
| "hash_batch n ((k, v) # kvs) m =
     (case hash_update n m k v of
        (False, m) \<Rightarrow> (False, m)
      | (True, m) \<Rightarrow> hash_batch n kvs m)"

definition load_backends :: "u8 \<Rightarrow> phase" where
  "load_backends index d =
     (if index = 0
      then (let (done, m) = write_slots MAX_BACKENDS 0 (m_xdpBackends d) (backends_second (kernel d))
            in (if done then None else Some Backends_update_failed,
                in_kernel (\<lambda>st. st\<lparr>backends_second := m\<rparr>) d))
      else (let (done, m) = write_slots MAX_BACKENDS 0 (m_xdpBackends d) (backends_first (kernel d))
            in (if done then None else Some Backends_update_failed,
                in_kernel (\<lambda>st. st\<lparr>backends_first := m\<rparr>) d)))"

definition load_services :: "u8 \<Rightarrow> phase" where
  "load_services index d =
     (let kvs = zip (m_xdpKeys d) (m_xdpServices d)
      in if index = 0
         then (let (done, m) = hash_batch MAX_SERVICES kvs (services_second (kernel d))
               in (if done then None else Some Services_update_failed,
                   in_kernel (\<lambda>st. st\<lparr>services_second := m\<rparr>) d))
         else (let (done, m) = hash_batch MAX_SERVICES kvs (services_first (kernel d))
               in (if done then None else Some Services_update_failed,
                   in_kernel (\<lambda>st. st\<lparr>services_first := m\<rparr>) d)))"

text \<open>\<open>int newIndex = 1 - currentIndex\<close>; the kernel copies eight bytes from it.\<close>

definition index_word :: "host \<Rightarrow> u8 \<Rightarrow> u64" where
  "index_word h index = ucast (1 - ucast index :: u32) + push_bit 32 (ucast (rest_of_index h))"

definition switch_index :: "host \<Rightarrow> u8 \<Rightarrow> phase" where
  "switch_index h index d =
     (let (done, m) = array_update 1 (atomic_index (kernel d)) 0 (index_word h index)
      in (if done then None else Some Index_update_failed, in_kernel (\<lambda>st. st\<lparr>atomic_index := m\<rparr>) d))"

subsection \<open>Scheduler state and sessions\<close>

definition reset_rr :: phase where
  "reset_rr d =
     (let (done, m) = hash_batch MAX_SERVICES (map (\<lambda>k. (k, 0)) (m_xdpKeys d)) (rr_index (kernel d))
      in (if done then None else Some Rr_update_failed, in_kernel (\<lambda>st. st\<lparr>rr_index := m\<rparr>) d))"

text \<open>\<open>while (bpf_map_get_next_key(fd, nullptr, &key) == 0) bpf_map_delete_elem(fd, &key);\<close>\<close>

function clear_hash :: "('k, 'v) bpf_hash \<Rightarrow> ('k, 'v) bpf_hash" where
  "clear_hash m =
     (case hash_first_key m of
        None \<Rightarrow> m
      | Some k \<Rightarrow> clear_hash (hash_delete m k))"
  by pat_completeness auto
termination
proof (relation "measure length")
  fix m :: "('k, 'v) bpf_hash" and k
  assume "hash_first_key m = Some k"
  then obtain v m' where "m = (k, v) # m'" by (cases m) (auto simp: hash_first_key_def)
  then show "(hash_delete m k, m) \<in> measure length"
    using length_delete_le [of k m'] by (simp add: hash_delete_def less_Suc_eq_le)
qed simp

declare clear_hash.simps [simp del]

definition reset_wrr :: phase where
  "reset_wrr d = (None, in_kernel (\<lambda>st. st\<lparr>wrr_state_map := clear_hash (wrr_state_map st)\<rparr>) d)"

definition clear_sessions :: phase where
  "clear_sessions d =
     (None, in_kernel (\<lambda>st. st\<lparr>tcp_session_state := clear_hash (tcp_session_state st)\<rparr>) d)"

lemma clear_hash_empty [simp]: "clear_hash m = []"
proof (induction m rule: clear_hash.induct)
  case (1 m)
  then show ?case by (subst clear_hash.simps) (auto simp: hash_first_key_def split: list.split)
qed

end
