(* ===== verification/Packet.thy ===== *)
theory Packet
  imports Prelude
begin

section \<open>Packet buffers and header layouts\<close>

text \<open>
  A packet is the byte range \<open>[data, data_end)\<close> of the \<open>xdp_md\<close> context; a header pointer is
  an offset into it. A load or a store outside the range is \<open>None\<close>, which is what the BPF
  verifier must be able to exclude, so that memory safety of the program is a theorem about
  the model and not an assumption. The field offsets are those of \<open>struct ethhdr\<close>,
  \<open>iphdr\<close>, \<open>ipv6hdr\<close>, \<open>tcphdr\<close> and \<open>udphdr\<close> in \<open>xdp/vmlinux.h\<close>; multi-byte fields are
  read in host (little-endian) order, as the C code reads them.
\<close>

type_synonym packet = bytes

definition load :: "packet \<Rightarrow> nat \<Rightarrow> nat \<Rightarrow> bytes option" where
  "load p off n = (if off + n \<le> length p then Some (take n (drop off p)) else None)"

definition store :: "packet \<Rightarrow> nat \<Rightarrow> bytes \<Rightarrow> packet option" where
  "store p off bs =
     (if off + length bs \<le> length p
      then Some (take off p @ bs @ drop (off + length bs) p) else None)"

definition load8 :: "packet \<Rightarrow> nat \<Rightarrow> u8 option" where
  "load8 p off = map_option hd (load p off 1)"

definition load16 :: "packet \<Rightarrow> nat \<Rightarrow> u16 option" where
  "load16 p off = map_option le16 (load p off 2)"

definition load32 :: "packet \<Rightarrow> nat \<Rightarrow> u32 option" where
  "load32 p off = map_option le32 (load p off 4)"

definition store16 :: "packet \<Rightarrow> nat \<Rightarrow> u16 \<Rightarrow> packet option" where
  "store16 p off w = store p off (bytes16 w)"

subsection \<open>Loads and stores\<close>

lemma load_Some_iff: "(\<exists>bs. load p off n = Some bs) \<longleftrightarrow> off + n \<le> length p"
  by (simp add: load_def)

lemma load_length: "load p off n = Some bs \<Longrightarrow> length bs = n"
  by (auto simp: load_def split: if_splits)

lemma load_total [pkt_simps]:
  "off + n \<le> length p \<Longrightarrow> load p off n = Some (take n (drop off p))"
  by (simp add: load_def)

lemma load8_total [pkt_simps]: "off < length p \<Longrightarrow> load8 p off = Some (p ! off)"
  by (simp add: load8_def load_def hd_drop_conv_nth)

lemma load16_total [pkt_simps]:
  "off + 2 \<le> length p \<Longrightarrow> load16 p off = Some (le16 (take 2 (drop off p)))"
  by (simp add: load16_def load_def)

lemma load32_total [pkt_simps]:
  "off + 4 \<le> length p \<Longrightarrow> load32 p off = Some (le32 (take 4 (drop off p)))"
  by (simp add: load32_def load_def)

lemma store_total [pkt_simps]:
  "off + length bs \<le> length p \<Longrightarrow>
     store p off bs = Some (take off p @ bs @ drop (off + length bs) p)"
  by (simp add: store_def)

lemma length_store: "store p off bs = Some p' \<Longrightarrow> length p' = length p"
  by (auto simp: store_def split: if_splits)

lemma load_store_same: "store p off bs = Some p' \<Longrightarrow> load p' off (length bs) = Some bs"
  by (auto simp: store_def load_def split: if_splits)

lemma load_store_before:
  "store p off bs = Some p' \<Longrightarrow> i + n \<le> off \<Longrightarrow> load p' i n = load p i n"
  by (auto simp: store_def load_def drop_take min_absorb1 split: if_splits)

lemma load_store_after:
  assumes "store p off bs = Some p'" and "off + length bs \<le> i"
  shows "load p' i n = load p i n"
proof -
  from assms(1) have p': "p' = take off p @ bs @ drop (off + length bs) p"
    and le: "off + length bs \<le> length p"
    by (auto simp: store_def split: if_splits)
  have "drop i p' = drop i p" using p' le assms(2) by simp
  moreover have "length p' = length p" using assms(1) by (rule length_store)
  ultimately show ?thesis by (simp add: load_def)
qed

lemma nth_store:
  assumes "store p off bs = Some p'" and "i < length p"
  shows "p' ! i = (if off \<le> i \<and> i < off + length bs then bs ! (i - off) else p ! i)"
  using assms by (auto simp: store_def nth_append split: if_splits)

lemmas load_store_other = load_store_before load_store_after

subsection \<open>Header layouts\<close>

definition sizeof_ethhdr :: nat where "sizeof_ethhdr = 14"
definition sizeof_iphdr :: nat where "sizeof_iphdr = 20"
definition sizeof_ipv6hdr :: nat where "sizeof_ipv6hdr = 40"
definition sizeof_tcphdr :: nat where "sizeof_tcphdr = 20"
definition sizeof_udphdr :: nat where "sizeof_udphdr = 8"

lemmas sizeof_defs = sizeof_ethhdr_def sizeof_iphdr_def sizeof_ipv6hdr_def
  sizeof_tcphdr_def sizeof_udphdr_def

text \<open>\<open>struct ethhdr\<close>: destination and source address, then the protocol.\<close>

definition eth_h_dest :: "nat \<Rightarrow> nat" where "eth_h_dest eth = eth"
definition eth_h_source :: "nat \<Rightarrow> nat" where "eth_h_source eth = eth + 6"
definition eth_h_proto :: "nat \<Rightarrow> nat" where "eth_h_proto eth = eth + 12"

text \<open>\<open>struct iphdr\<close>: the header length is the low nibble of the first byte.\<close>

definition ip_ihl :: "nat \<Rightarrow> nat" where "ip_ihl ip = ip"
definition ip_protocol :: "nat \<Rightarrow> nat" where "ip_protocol ip = ip + 9"
definition ip_saddr :: "nat \<Rightarrow> nat" where "ip_saddr ip = ip + 12"
definition ip_daddr :: "nat \<Rightarrow> nat" where "ip_daddr ip = ip + 16"

text \<open>\<open>struct ipv6hdr\<close>.\<close>

definition ip6_nexthdr :: "nat \<Rightarrow> nat" where "ip6_nexthdr ip = ip + 6"
definition ip6_saddr :: "nat \<Rightarrow> nat" where "ip6_saddr ip = ip + 8"
definition ip6_daddr :: "nat \<Rightarrow> nat" where "ip6_daddr ip = ip + 24"

text \<open>\<open>struct tcphdr\<close> and \<open>struct udphdr\<close>: ports first; the TCP flags are byte 13.\<close>

definition l4_source :: "nat \<Rightarrow> nat" where "l4_source l4 = l4"
definition l4_dest :: "nat \<Rightarrow> nat" where "l4_dest l4 = l4 + 2"
definition tcp_flags_off :: "nat \<Rightarrow> nat" where "tcp_flags_off tcp = tcp + 13"
definition tcp_check :: "nat \<Rightarrow> nat" where "tcp_check tcp = tcp + 16"
definition udp_check :: "nat \<Rightarrow> nat" where "udp_check udp = udp + 6"

lemmas field_defs = eth_h_dest_def eth_h_source_def eth_h_proto_def ip_ihl_def ip_protocol_def
  ip_saddr_def ip_daddr_def ip6_nexthdr_def ip6_saddr_def ip6_daddr_def l4_source_def
  l4_dest_def tcp_flags_off_def tcp_check_def udp_check_def

text \<open>The flag bits the program reads.\<close>

record tcp_flags =
  fin :: bool
  syn :: bool
  rst :: bool
  ack :: bool

definition tcp_flags_of :: "u8 \<Rightarrow> tcp_flags" where
  "tcp_flags_of b = \<lparr>fin = bit b 0, syn = bit b 1, rst = bit b 2, ack = bit b 4\<rparr>"

definition load_tcp_flags :: "packet \<Rightarrow> nat \<Rightarrow> tcp_flags option" where
  "load_tcp_flags p tcp = map_option tcp_flags_of (load8 p (tcp_flags_off tcp))"

text \<open>\<open>tcp->syn && !tcp->ack\<close>: the first packet of a connection.\<close>

definition pure_syn :: "tcp_flags \<Rightarrow> bool" where
  "pure_syn f \<longleftrightarrow> syn f \<and> \<not> ack f"

lemma load_tcp_flags_total [pkt_simps]:
  "tcp + 14 \<le> length p \<Longrightarrow> load_tcp_flags p tcp = Some (tcp_flags_of (p ! (tcp + 13)))"
  by (simp add: load_tcp_flags_def load8_total tcp_flags_off_def)

end
