(* ===== verification/Session_Table.thy ===== *)
theory Session_Table
  imports Consistent_Lookup Packet
begin

section \<open>Finding the backend of a packet\<close>

text \<open>
  \<open>find_tcp_backend\<close> and \<open>find_udp_backend\<close>. The C locals that live across the parts of
  \<open>find_tcp_backend\<close> are a record; \<open>state_backend\<close> is used only as a null test after the
  first part, so it is a Boolean there.
\<close>

record tcp_locals =
  lv_backend :: "backend option"
  state_backend :: bool
  last_backend_index :: u32
  service_idx_for_stats :: u32
  conn_delta :: u32

definition tcp_start :: tcp_locals where
  "tcp_start = \<lparr>lv_backend = None, state_backend = False, last_backend_index = 0,
     service_idx_for_stats = 0, conn_delta = 0\<rparr>"

definition drop_connection :: "summary_packets_data \<Rightarrow> summary_packets_data" where
  "drop_connection p = p\<lparr>connections := connections p - 1\<rparr>"

text \<open>
  The session table is asked first. An entry older than its timeout is deleted and its
  connection taken back (the program reads the deleted entry's indices through the pointer it
  still holds); a live one is refreshed and names the backend.
\<close>

definition session_phase ::
    "xdp_env \<Rightarrow> backend bpf_array \<Rightarrow> session_state_key \<Rightarrow> xdp_maps \<Rightarrow> tcp_locals \<times> xdp_maps" where
  "session_phase env bm state_key st =
     (case hash_lookup (tcp_session_state st) state_key of
        None \<Rightarrow> (tcp_start, st)
      | Some v \<Rightarrow>
          (let now = ktime_hit env
           in if now - created v > timeout v
              then (tcp_start,
                    service_stats env drop_connection (ss_service_idx v)
                      (backend_stats env drop_connection (ss_backend_idx v)
                        (st\<lparr>tcp_session_state := hash_delete (tcp_session_state st) state_key\<rparr>)))
              else (\<lparr>lv_backend = array_lookup MAX_BACKENDS bm (ss_backend_idx v),
                     state_backend = True, last_backend_index = ss_backend_idx v,
                     service_idx_for_stats = ss_service_idx v, conn_delta = 0\<rparr>,
                    st\<lparr>tcp_session_state :=
                         hash_write (tcp_session_state st) state_key (v\<lparr>created := now\<rparr>)\<rparr>)))"

text \<open>The \<open>switch\<close> on the service's algorithm.\<close>

definition tcp_schedule ::
    "xdp_env \<Rightarrow> session_state_key \<Rightarrow> service_key \<Rightarrow> u32 \<Rightarrow> backend bpf_array \<Rightarrow> service_info \<Rightarrow>
     u32 \<Rightarrow> xdp_maps \<Rightarrow> pick_result" where
  "tcp_schedule env state_key key packet_len bm info lbi st =
     (if algorithm info = BALANCER_RR then pick_loop (rr_balancer_handle bm info key) 0 lbi st
      else if algorithm info = BALANCER_WRR then pick_loop (wrr_balancer_handle bm info key) 0 lbi st
      else if algorithm info = BALANCER_CH
      then (let ch_hash = hash_key_consistent
                  (src_ipv4 state_key XOR dst_ipv4 state_key
                    XOR push_bit 16 (ucast (src_port state_key)) XOR ucast (dst_port state_key))
                  0x5737a28c
            in ch_balancer_handle env key ch_hash packet_len lbi st)
      else (None, lbi, st))"

text \<open>A new session; \<open>None\<close> is the early \<open>return 0\<close>.\<close>

definition new_session_phase ::
    "xdp_env \<Rightarrow> session_state_key \<Rightarrow> service_key \<Rightarrow> u32 \<Rightarrow>
     (service_key, service_info) bpf_hash \<Rightarrow> backend bpf_array \<Rightarrow> tcp_locals \<Rightarrow> xdp_maps \<Rightarrow>
     tcp_locals option \<times> xdp_maps" where
  "new_session_phase env state_key key packet_len sm bm lv st =
     (case hash_lookup sm key of
        None \<Rightarrow> (None, st)
      | Some info \<Rightarrow>
          (let (backend, lbi, st) =
                 tcp_schedule env state_key key packet_len bm info (last_backend_index lv) st
           in case backend of
                None \<Rightarrow> (None, st)
              | Some b \<Rightarrow>
                  (let new_state = \<lparr>ss_backend_idx = lbi, ss_service_idx = service_idx info,
                                    created = ktime_new env, timeout = TCP_STATE_TIMEOUT\<rparr>
                   in (Some (lv\<lparr>lv_backend := Some b, last_backend_index := lbi,
                                service_idx_for_stats := service_idx info, conn_delta := 1\<rparr>),
                       st\<lparr>tcp_session_state :=
                            snd (hash_update MAX_SESSIONS (tcp_session_state st) state_key new_state)\<rparr>))))"

text \<open>A FIN or RST ends a session that was in the table.\<close>

definition close_phase ::
    "session_state_key \<Rightarrow> tcp_flags \<Rightarrow> tcp_locals \<Rightarrow> xdp_maps \<Rightarrow> tcp_locals \<times> xdp_maps" where
  "close_phase state_key tcp lv st =
     (if state_backend lv \<and> (fin tcp \<or> rst tcp)
      then (lv\<lparr>conn_delta := -1\<rparr>,
            st\<lparr>tcp_session_state := hash_delete (tcp_session_state st) state_key\<rparr>)
      else (lv, st))"

definition tcp_count_service :: "tcp_flags \<Rightarrow> u32 \<Rightarrow> summary_packets_data \<Rightarrow> summary_packets_data" where
  "tcp_count_service tcp delta p =
     p\<lparr>connections := connections p + delta,
       total_packets := total_packets p + 1,
       tcp_syn_packets := (if syn tcp then tcp_syn_packets p + 1 else tcp_syn_packets p),
       prepared_packets := prepared_packets p + 1\<rparr>"

definition tcp_count_backend ::
    "tcp_flags \<Rightarrow> u32 \<Rightarrow> u32 \<Rightarrow> summary_packets_data \<Rightarrow> summary_packets_data" where
  "tcp_count_backend tcp delta packet_len p =
     (tcp_count_service tcp delta p)\<lparr>total_bytes := total_bytes p + ucast packet_len\<rparr>"

definition tcp_stats_phase :: "xdp_env \<Rightarrow> tcp_flags \<Rightarrow> u32 \<Rightarrow> tcp_locals \<Rightarrow> xdp_maps \<Rightarrow> xdp_maps" where
  "tcp_stats_phase env tcp packet_len lv st =
     service_stats env (tcp_count_service tcp (conn_delta lv)) (service_idx_for_stats lv)
       (backend_stats env (tcp_count_backend tcp (conn_delta lv) packet_len) (last_backend_index lv) st)"

definition find_tcp_backend ::
    "xdp_env \<Rightarrow> session_state_key \<Rightarrow> service_key \<Rightarrow> tcp_flags \<Rightarrow> u32 \<Rightarrow> xdp_maps \<Rightarrow>
     backend option \<times> xdp_maps" where
  "find_tcp_backend env state_key key tcp packet_len st =
     (case array_lookup 1 (atomic_index st) 0 of
        None \<Rightarrow> (None, st)
      | Some curr_index \<Rightarrow>
          (let sm = services_map st curr_index;
               bm = backends_map st curr_index;
               (lv, st) = (if pure_syn tcp then (tcp_start, st) else session_phase env bm state_key st);
               (found, st) =
                 (case lv_backend lv of
                    None \<Rightarrow> new_session_phase env state_key key packet_len sm bm lv st
                  | Some b \<Rightarrow> (Some lv, st))
           in case found of
                None \<Rightarrow> (None, st)
              | Some lv \<Rightarrow>
                  (let (lv, st) = close_phase state_key tcp lv st
                   in (lv_backend lv, tcp_stats_phase env tcp packet_len lv st))))"

definition udp_schedule ::
    "service_key \<Rightarrow> backend bpf_array \<Rightarrow> service_info \<Rightarrow> u32 \<Rightarrow> xdp_maps \<Rightarrow> pick_result" where
  "udp_schedule key bm info lbi st =
     (if algorithm info = BALANCER_RR then pick_loop (rr_balancer_handle bm info key) 0 lbi st
      else if algorithm info = BALANCER_WRR then pick_loop (wrr_balancer_handle bm info key) 0 lbi st
      else (None, lbi, st))"

text \<open>\<open>last_backend_index\<close> is uninitialised in C and written before it is read.\<close>

definition find_udp_backend ::
    "xdp_env \<Rightarrow> service_key \<Rightarrow> u32 \<Rightarrow> xdp_maps \<Rightarrow> backend option \<times> xdp_maps" where
  "find_udp_backend env key packet_len st =
     (case array_lookup 1 (atomic_index st) 0 of
        None \<Rightarrow> (None, st)
      | Some curr_index \<Rightarrow>
          (case hash_lookup (services_map st curr_index) key of
             None \<Rightarrow> (None, st)
           | Some info \<Rightarrow>
               (let (backend, lbi, st) = udp_schedule key (backends_map st curr_index) info 0 st
                in case backend of
                     None \<Rightarrow> (None, st)
                   | Some b \<Rightarrow>
                       (Some b,
                        service_stats env (count_packet packet_len) (service_idx info)
                          (backend_stats env (count_packet packet_len) lbi st)))))"

end
