(* ===== verification/Session_Accounting.thy ===== *)
theory Session_Accounting
  imports Session_Table
begin

section \<open>Sessions and their counters\<close>

text \<open>
  What \<open>find_tcp_backend\<close> keeps: the frame of each phase, the invariants of the maps and of
  the session table, and the account between the sessions in the table and the per-CPU
  connection counters.
\<close>

subsection \<open>Frames\<close>

text \<open>Packet processing leaves the configuration and the DDoS maps as they are.\<close>

definition data_frame :: "xdp_maps \<Rightarrow> xdp_maps \<Rightarrow> bool" where
  "data_frame st st' \<longleftrightarrow>
     st' = st\<lparr>rr_index := rr_index st', wrr_state_map := wrr_state_map st',
       ch_stats_map := ch_stats_map st', tcp_session_state := tcp_session_state st',
       backends_packets_stats := backends_packets_stats st',
       services_packets_stats := services_packets_stats st'\<rparr>"

lemma data_frame_refl [simp]: "data_frame st st"
  by (simp add: data_frame_def)

lemma data_frame_fields:
  assumes "data_frame st st'"
  shows "services_first st' = services_first st" "services_second st' = services_second st"
    "atomic_index st' = atomic_index st" "backends_first st' = backends_first st"
    "backends_second st' = backends_second st" "ch_backends st' = ch_backends st"
    "ch_curr_lookup st' = ch_curr_lookup st" "ch_prev_lookup st' = ch_prev_lookup st"
    "ch_config st' = ch_config st" "syn_tracker st' = syn_tracker st"
    "blacklist st' = blacklist st" "ddos_cfg st' = ddos_cfg st" "global_syn st' = global_syn st"
  by (subst assms [unfolded data_frame_def], simp)+

lemma data_frame_trans: "data_frame a b \<Longrightarrow> data_frame b c \<Longrightarrow> data_frame a c"
  by (cases a; cases b; cases c) (simp add: data_frame_def)

lemma sched_data_frame: "sched_frame st st' \<Longrightarrow> data_frame st st'"
  by (cases st; cases st') (simp add: sched_frame_def data_frame_def)

lemma ch_data_frame: "ch_frame st st' \<Longrightarrow> data_frame st st'"
  by (cases st; cases st') (simp add: ch_frame_def data_frame_def)

lemma data_frame_session [simp]: "data_frame st (st\<lparr>tcp_session_state := m\<rparr>)"
  by (simp add: data_frame_def)

lemma data_frame_backend_stats [simp]: "data_frame st (backend_stats env f i st)"
  by (simp add: data_frame_def backend_stats_def)

lemma data_frame_service_stats [simp]: "data_frame st (service_stats env f i st)"
  by (simp add: data_frame_def service_stats_def)

lemma stats_fields [simp]:
  "tcp_session_state (backend_stats env f i st) = tcp_session_state st"
  "tcp_session_state (service_stats env f i st) = tcp_session_state st"
  "backends_packets_stats (service_stats env f i st) = backends_packets_stats st"
  "services_packets_stats (backend_stats env f i st) = services_packets_stats st"
  by (simp_all add: backend_stats_def service_stats_def)

lemma data_frame_maps:
  "data_frame st st' \<Longrightarrow> services_map st' = services_map st"
  "data_frame st st' \<Longrightarrow> backends_map st' = backends_map st"
  by (auto simp: services_map_def backends_map_def data_frame_fields)

subsection \<open>Connection counters\<close>

text \<open>The connections of backend \<open>i\<close> over \<open>n\<close> CPUs, as the control plane sums them.\<close>

definition conn_total :: "nat \<Rightarrow> xdp_maps \<Rightarrow> nat \<Rightarrow> u32" where
  "conn_total n st i = (\<Sum>c<n. connections (backends_packets_stats st c i))"

lemma conn_total_cong:
  "backends_packets_stats st' = backends_packets_stats st \<Longrightarrow> conn_total n st' i = conn_total n st i"
  by (simp add: conn_total_def)

lemma conn_total_service_stats [simp]: "conn_total n (service_stats env f k st) i = conn_total n st i"
  by (rule conn_total_cong) simp

lemma conn_total_session [simp]: "conn_total n (st\<lparr>tcp_session_state := m\<rparr>) i = conn_total n st i"
  by (rule conn_total_cong) simp

lemma conn_total_backend_stats:
  assumes f: "\<And>p. connections (f p) = connections p + d" and "cpu env < n"
  shows "conn_total n (backend_stats env f k st) i =
    conn_total n st i + (if unat k = i \<and> i < MAX_BACKENDS then d else 0)"
proof -
  let ?hit = "unat k = i \<and> i < MAX_BACKENDS"
  have "connections (backends_packets_stats (backend_stats env f k st) c i) =
      connections (backends_packets_stats st c i) + (if c = cpu env then if ?hit then d else 0 else 0)" for c
    by (auto simp: backend_stats_def percpu_modify_apply f)
  then show ?thesis using \<open>cpu env < n\<close>
    by (simp add: conn_total_def sum.distrib)
qed

subsection \<open>The scheduler as one step\<close>

lemma ch_balancer_conns:
  assumes "ch_balancer_handle env key h len l st = (r, l', st')"
  shows "connections (backends_packets_stats st' c i) = connections (backends_packets_stats st c i)"
proof -
  obtain b s where look: "consistent_hash_lookup h False st = (b, s)" by (rule prod.exhaust)
  from consistent_hash_lookup_frame [OF look] obtain x where s: "s = st\<lparr>ch_stats_map := x\<rparr>" ..
  show ?thesis
    using assms
    by (auto simp: ch_balancer_handle_def look s Let_def backend_stats_def service_stats_def
        percpu_modify_apply count_packet_def split: if_splits option.splits)
qed

lemma maps_ok_data_frame:
  assumes "maps_ok st" and "data_frame st st'"
    and "hash_ok MAX_SERVICES (rr_index st')" "hash_ok MAX_SERVICES (wrr_state_map st')"
      "hash_ok MAX_SESSIONS (tcp_session_state st')"
  shows "maps_ok st'"
  using assms by (simp add: maps_ok_def data_frame_fields [OF assms(2)])

lemma tcp_schedule_cases:
  assumes "tcp_schedule env state_key key len bm info l st = (r, l', st')"
  obtains (RR) "pick_loop (rr_balancer_handle bm info key) 0 l st = (r, l', st')"
      "algorithm info = BALANCER_RR"
  | (WRR) "pick_loop (wrr_balancer_handle bm info key) 0 l st = (r, l', st')"
      "algorithm info = BALANCER_WRR"
  | (CH) h where "ch_balancer_handle env key h len l st = (r, l', st')" "algorithm info = BALANCER_CH"
  | (Other) "r = None" "l' = l" "st' = st"
  using assms by (auto simp: tcp_schedule_def Let_def split: if_splits)

lemma sched_frame_step:
  assumes "sched_frame st st'"
  shows "data_frame st st'" "tcp_session_state st' = tcp_session_state st"
    "conn_total n st' i = conn_total n st i"
  using sched_data_frame [OF assms] sched_frame_fields(7) [OF assms]
    conn_total_cong [OF sched_frame_fields(8) [OF assms]] by blast+

lemma bounded_lt: "array_lookup n m i = Some b \<Longrightarrow> unat i < n"
  by (simp add: array_lookup_def split: if_splits)

lemma tcp_schedule_step:
  assumes "tcp_schedule env state_key key len bm info l st = (r, l', st')"
  shows "data_frame st st'" "tcp_session_state st' = tcp_session_state st"
    "conn_total n st' i = conn_total n st i" "maps_ok st \<Longrightarrow> maps_ok st'"
    "r = Some b \<Longrightarrow> unat l' < MAX_BACKENDS \<and> active b \<noteq> 0"
proof -
  have "data_frame st st' \<and> tcp_session_state st' = tcp_session_state st
    \<and> conn_total n st' i = conn_total n st i \<and> (maps_ok st \<longrightarrow> maps_ok st')
    \<and> (r = Some b \<longrightarrow> unat l' < MAX_BACKENDS \<and> active b \<noteq> 0)"
    using assms
  proof (cases rule: tcp_schedule_cases)
    case RR
    then show ?thesis
      using sched_frame_step [OF rr.loop_frame [OF RR(1)]] rr.loop_maps_ok [OF _ RR(1)]
        rr.loop_bounded [of bm info key 0 l st b l' st'] bounded_lt [of MAX_BACKENDS bm l' b]
      by blast
  next
    case WRR
    then show ?thesis
      using sched_frame_step [OF wrr.loop_frame [OF WRR(1)]] wrr.loop_maps_ok [OF _ WRR(1)]
        wrr.loop_bounded [of bm info key 0 l st b l' st'] bounded_lt [of MAX_BACKENDS bm l' b]
      by blast
  next
    case (CH h)
    have fr: "ch_frame st st'" using CH(1) by (rule ch_balancer_frame)
    have "unat l' < MAX_BACKENDS \<and> active b \<noteq> 0" if "r = Some b"
      using ch_balancer_slot [OF CH(1) [unfolded that]] by (simp add: max_defs)
    moreover have "maps_ok st \<Longrightarrow> maps_ok st'"
      by (rule maps_ok_data_frame [OF _ ch_data_frame [OF fr]])
        (simp_all add: ch_frame_fields [OF fr] maps_ok_def)
    ultimately show ?thesis
      using ch_data_frame [OF fr] ch_frame_fields(9) [OF fr] ch_balancer_conns [OF CH(1)]
      by (simp add: conn_total_def)
  next
    case Other
    then show ?thesis by simp
  qed
  then show "data_frame st st'" "tcp_session_state st' = tcp_session_state st"
    "conn_total n st' i = conn_total n st i" "maps_ok st \<Longrightarrow> maps_ok st'"
    "r = Some b \<Longrightarrow> unat l' < MAX_BACKENDS \<and> active b \<noteq> 0" by blast+
qed

subsection \<open>Counting sessions\<close>

definition count_values :: "('v \<Rightarrow> bool) \<Rightarrow> ('k, 'v) bpf_hash \<Rightarrow> nat" where
  "count_values P m = length (filter (\<lambda>(k, v). P v) m)"

definition hit :: "('v \<Rightarrow> bool) \<Rightarrow> 'v option \<Rightarrow> nat" where
  "hit P x = (case x of None \<Rightarrow> 0 | Some v \<Rightarrow> if P v then 1 else 0)"

lemma count_values_update:
  "distinct (map fst m) \<Longrightarrow>
     count_values P (AList.update k v m) + hit P (map_of m k) = count_values P m + hit P (Some v)"
  by (induction m) (auto simp: count_values_def hit_def)

lemma count_values_delete:
  "distinct (map fst m) \<Longrightarrow> count_values P (AList.delete k m) + hit P (map_of m k) = count_values P m"
  by (induction m) (auto simp: count_values_def hit_def delete_None map_of_eq_None_iff)

lemma count_values_write:
  assumes "hash_ok n m" and "hash_lookup m k = Some v" and "P w = P v"
  shows "count_values P (hash_write m k w) = count_values P m"
  using assms count_values_update [of m P k w]
  by (simp add: hash_ok_def hash_write_def hash_lookup_def hit_def split: if_splits)

definition at_backend :: "nat \<Rightarrow> session_state_val \<Rightarrow> bool" where
  "at_backend i v \<longleftrightarrow> unat (ss_backend_idx v) = i"

definition session_count :: "xdp_maps \<Rightarrow> nat \<Rightarrow> nat" where
  "session_count st i = count_values (at_backend i) (tcp_session_state st)"

text \<open>The connections counted for a backend in excess of its sessions.\<close>

definition balance :: "nat \<Rightarrow> xdp_maps \<Rightarrow> nat \<Rightarrow> u32" where
  "balance n st i = conn_total n st i - of_nat (session_count st i)"

text \<open>Every session names an index of the backends map.\<close>

definition sessions_ok :: "xdp_maps \<Rightarrow> bool" where
  "sessions_ok st \<longleftrightarrow>
     (\<forall>k v. hash_lookup (tcp_session_state st) k = Some v \<longrightarrow> unat (ss_backend_idx v) < MAX_BACKENDS)"

lemma session_count_service_stats [simp]: "session_count (service_stats env f k st) i = session_count st i"
  by (simp add: session_count_def)

lemma session_count_backend_stats [simp]: "session_count (backend_stats env f k st) i = session_count st i"
  by (simp add: session_count_def)

lemma sessions_ok_stats [simp]:
  "sessions_ok (service_stats env f k st) = sessions_ok st"
  "sessions_ok (backend_stats env f k st) = sessions_ok st"
  by (simp_all add: sessions_ok_def)

lemma maps_ok_sessions: "maps_ok st \<Longrightarrow> hash_ok MAX_SESSIONS (tcp_session_state st)"
  by (simp add: maps_ok_def)

lemma maps_ok_set_sessions:
  "maps_ok st \<Longrightarrow> hash_ok MAX_SESSIONS m \<Longrightarrow> maps_ok (st\<lparr>tcp_session_state := m\<rparr>)"
  by (simp add: maps_ok_def)

subsection \<open>The phases keep the account\<close>

text \<open>Between the phases the locals hold a connection that is decided and not yet counted.\<close>

definition owed :: "nat \<Rightarrow> tcp_locals \<Rightarrow> xdp_maps \<Rightarrow> nat \<Rightarrow> u32" where
  "owed n lv st i =
     balance n st i + (if unat (last_backend_index lv) = i \<and> i < MAX_BACKENDS then conn_delta lv else 0)"

lemma owed_start [simp]: "owed n tcp_start st i = balance n st i"
  by (simp add: owed_def tcp_start_def)

lemma session_delete_balance:
  assumes ok: "maps_ok st" and look: "hash_lookup (tcp_session_state st) k = Some v"
  shows "balance n (st\<lparr>tcp_session_state := hash_delete (tcp_session_state st) k\<rparr>) i =
    balance n st i + (if unat (ss_backend_idx v) = i then 1 else 0)"
proof -
  have "session_count (st\<lparr>tcp_session_state := hash_delete (tcp_session_state st) k\<rparr>) i
      + (if unat (ss_backend_idx v) = i then 1 else 0) = session_count st i"
    using count_values_delete [of "tcp_session_state st" "at_backend i" k] maps_ok_sessions [OF ok] look
    by (simp add: session_count_def hash_delete_def hash_ok_def hash_lookup_def hit_def at_backend_def)
  then show ?thesis by (auto simp: balance_def dest: sym)
qed

lemma session_write_balance:
  assumes "maps_ok st" and "hash_lookup (tcp_session_state st) k = Some v"
    and "ss_backend_idx w = ss_backend_idx v"
  shows "balance n (st\<lparr>tcp_session_state := hash_write (tcp_session_state st) k w\<rparr>) i = balance n st i"
  using count_values_write [OF maps_ok_sessions [OF assms(1)] assms(2), of "at_backend i" w] assms(3)
  by (simp add: balance_def session_count_def at_backend_def)

lemma session_insert_balance:
  assumes ok: "maps_ok st"
    and room: "hash_lookup (tcp_session_state st) k \<noteq> None \<or> length (tcp_session_state st) < MAX_SESSIONS"
  shows "balance n (st\<lparr>tcp_session_state := snd (hash_update MAX_SESSIONS (tcp_session_state st) k v)\<rparr>) i =
    balance n st i - (if unat (ss_backend_idx v) = i then 1 else 0)
      + of_nat (hit (at_backend i) (hash_lookup (tcp_session_state st) k))"
proof -
  let ?m = "tcp_session_state st"
  let ?st' = "st\<lparr>tcp_session_state := snd (hash_update MAX_SESSIONS ?m k v)\<rparr>"
  have "session_count ?st' i + hit (at_backend i) (hash_lookup ?m k) =
      session_count st i + (if unat (ss_backend_idx v) = i then 1 else 0)"
    using room count_values_update [of ?m "at_backend i" k v] maps_ok_sessions [OF ok]
    by (simp add: session_count_def hash_update_def hash_ok_def hash_lookup_def)
      (simp add: hit_def at_backend_def)
  from arg_cong [OF this, of "of_nat :: nat \<Rightarrow> u32"]
  have "of_nat (session_count ?st' i) = (of_nat (session_count st i) :: u32)
      + (if unat (ss_backend_idx v) = i then 1 else 0)
      - of_nat (hit (at_backend i) (hash_lookup ?m k))"
    by (cases "unat (ss_backend_idx v) = i") (simp_all add: eq_diff_eq)
  then show ?thesis by (simp add: balance_def)
qed

lemma balance_backend_stats:
  assumes "\<And>p. connections (f p) = connections p + d" and "cpu env < n"
  shows "balance n (backend_stats env f k st) i =
    balance n st i + (if unat k = i \<and> i < MAX_BACKENDS then d else 0)"
  using conn_total_backend_stats [of f d env n k st i] assms by (simp add: balance_def)

lemma balance_service_stats [simp]: "balance n (service_stats env f k st) i = balance n st i"
  by (simp add: balance_def)

lemma connections_drop [simp]: "connections (drop_connection p) = connections p + (-1)"
  by (simp add: drop_connection_def)

lemma sessions_ok_delete:
  "sessions_ok st \<Longrightarrow> sessions_ok (st\<lparr>tcp_session_state := hash_delete (tcp_session_state st) k\<rparr>)"
  by (auto simp: sessions_ok_def map_simps split: if_splits)

lemma sessions_okD:
  "sessions_ok st \<Longrightarrow> hash_lookup (tcp_session_state st) k = Some v \<Longrightarrow>
     unat (ss_backend_idx v) < MAX_BACKENDS"
  by (simp add: sessions_ok_def)

text \<open>What holds between the session phase and the rest.\<close>

definition session_found :: "session_state_key \<Rightarrow> tcp_locals \<Rightarrow> xdp_maps \<Rightarrow> bool" where
  "session_found k lv st \<longleftrightarrow>
     (case hash_lookup (tcp_session_state st) k of
        None \<Rightarrow> lv = tcp_start
      | Some v \<Rightarrow> state_backend lv \<and> ss_backend_idx v = last_backend_index lv
          \<and> ss_service_idx v = service_idx_for_stats lv
          \<and> conn_delta lv = 0 \<and> lv_backend lv \<noteq> None)"

lemma session_phase_cases:
  assumes "session_phase env bm k st = (lv, st')"
  obtains (Absent) "hash_lookup (tcp_session_state st) k = None" "lv = tcp_start" "st' = st"
  | (Expired) v where "hash_lookup (tcp_session_state st) k = Some v" "lv = tcp_start"
      "st' = service_stats env drop_connection (ss_service_idx v) (backend_stats env drop_connection (ss_backend_idx v)
        (st\<lparr>tcp_session_state := hash_delete (tcp_session_state st) k\<rparr>))"
  | (Live) v where "hash_lookup (tcp_session_state st) k = Some v"
      "lv = \<lparr>lv_backend = array_lookup MAX_BACKENDS bm (ss_backend_idx v),
         state_backend = True, last_backend_index = ss_backend_idx v,
         service_idx_for_stats = ss_service_idx v, conn_delta = 0\<rparr>"
      "st' = st\<lparr>tcp_session_state := hash_write (tcp_session_state st) k (v\<lparr>created := ktime_hit env\<rparr>)\<rparr>"
  using assms by (auto simp: session_phase_def Let_def split: option.splits if_splits)

lemma session_expired_step:
  fixes env :: xdp_env
  assumes ok: "maps_ok st" "sessions_ok st" and look: "hash_lookup (tcp_session_state st) k = Some v"
  defines "s \<equiv> st\<lparr>tcp_session_state := hash_delete (tcp_session_state st) k\<rparr>"
  defines "st' \<equiv> service_stats env drop_connection (ss_service_idx v) (backend_stats env drop_connection (ss_backend_idx v) s)"
  shows "maps_ok st'" "sessions_ok st'" "data_frame st st'" "session_found k tcp_start st'"
    "length (tcp_session_state st') \<le> length (tcp_session_state st)"
    "cpu env < n \<Longrightarrow> owed n tcp_start st' i = balance n st i"
proof -
  have "data_frame s st'" unfolding st'_def by (rule data_frame_trans [OF data_frame_backend_stats data_frame_service_stats])
  moreover have "data_frame st s" by (simp add: s_def)
  ultimately show "data_frame st st'" using data_frame_trans by blast
  show "maps_ok st'" "sessions_ok st'"
    using ok maps_ok_sessions [OF ok(1)] by (auto simp: s_def st'_def intro: maps_ok_set_sessions sessions_ok_delete)
  show "session_found k tcp_start st'" by (simp add: st'_def s_def session_found_def map_simps)
  show "length (tcp_session_state st') \<le> length (tcp_session_state st)"
    by (simp add: st'_def s_def hash_delete_def length_delete_le)
  show "owed n tcp_start st' i = balance n st i" if "cpu env < n"
    using balance_backend_stats [OF connections_drop that, of "ss_backend_idx v" s i]
      session_delete_balance [OF ok(1) look, of n i] sessions_okD [OF ok(2) look]
    by (auto simp: st'_def s_def)
qed

lemma session_live_step:
  fixes t :: u64
  assumes ok: "maps_ok st" "sessions_ok st" and look: "hash_lookup (tcp_session_state st) k = Some v"
  defines "st' \<equiv> st\<lparr>tcp_session_state := hash_write (tcp_session_state st) k (v\<lparr>created := t\<rparr>)\<rparr>"
  shows "maps_ok st'" "sessions_ok st'" "length (tcp_session_state st') \<le> length (tcp_session_state st)"
    "balance n st' i = balance n st i" "hash_lookup (tcp_session_state st') k = Some (v\<lparr>created := t\<rparr>)"
proof -
  have look': "hash_lookup (tcp_session_state st') j
      = (if j = k then Some (v\<lparr>created := t\<rparr>) else hash_lookup (tcp_session_state st) j)" for j
    by (simp add: st'_def map_simps look)
  then show "hash_lookup (tcp_session_state st') k = Some (v\<lparr>created := t\<rparr>)" by simp
  show "sessions_ok st'" using ok(2) sessions_okD [OF ok(2) look] by (auto simp: look' sessions_ok_def)
  show "maps_ok st'" using ok maps_ok_sessions [OF ok(1)] by (auto simp: st'_def intro: maps_ok_set_sessions)
  show "length (tcp_session_state st') \<le> length (tcp_session_state st)"
    using look by (simp add: st'_def hash_write_def hash_lookup_def length_update_present)
  show "balance n st' i = balance n st i" using session_write_balance [OF ok(1) look] by (simp add: st'_def)
qed

lemma session_phase_step:
  assumes ok: "maps_ok st" "sessions_ok st" and p: "session_phase env bm k st = (lv, st')"
  shows "maps_ok st'" "sessions_ok st'" "data_frame st st'" "session_found k lv st'"
    "length (tcp_session_state st') \<le> length (tcp_session_state st)"
    "cpu env < n \<Longrightarrow> owed n lv st' i = balance n st i"
proof -
  have "maps_ok st' \<and> sessions_ok st' \<and> data_frame st st' \<and> session_found k lv st'
    \<and> length (tcp_session_state st') \<le> length (tcp_session_state st)
    \<and> (cpu env < n \<longrightarrow> owed n lv st' i = balance n st i)"
    using p
  proof (cases rule: session_phase_cases)
    case Absent
    then show ?thesis using ok by (simp add: session_found_def)
  next
    case (Expired v)
    then show ?thesis using session_expired_step [OF ok Expired(1), where env = env] by simp
  next
    case (Live v)
    have "array_lookup MAX_BACKENDS bm (ss_backend_idx v) \<noteq> None"
      using sessions_okD [OF ok(2) Live(1)] by (simp add: array_lookup_def)
    then show ?thesis using session_live_step [OF ok Live(1), where t = "ktime_hit env"]
      by (auto simp: Live(2,3) session_found_def owed_def)
  qed
  then show "maps_ok st'" "sessions_ok st'" "data_frame st st'" "session_found k lv st'"
    "length (tcp_session_state st') \<le> length (tcp_session_state st)"
    "cpu env < n \<Longrightarrow> owed n lv st' i = balance n st i" by blast+
qed

lemma sessions_ok_update:
  assumes "maps_ok st" "sessions_ok st" and "unat (ss_backend_idx v) < MAX_BACKENDS"
  shows "sessions_ok (st\<lparr>tcp_session_state := snd (hash_update MAX_SESSIONS (tcp_session_state st) k v)\<rparr>)"
    and "maps_ok (st\<lparr>tcp_session_state := snd (hash_update MAX_SESSIONS (tcp_session_state st) k v)\<rparr>)"
proof -
  obtain r m where upd: "hash_update MAX_SESSIONS (tcp_session_state st) k v = (r, m)" by (rule prod.exhaust)
  then show "sessions_ok (st\<lparr>tcp_session_state := snd (hash_update MAX_SESSIONS (tcp_session_state st) k v)\<rparr>)"
    using assms(2,3) by (auto simp: sessions_ok_def hash_update_lookup [OF upd] split: if_splits)
  show "maps_ok (st\<lparr>tcp_session_state := snd (hash_update MAX_SESSIONS (tcp_session_state st) k v)\<rparr>)"
    using assms(1) hash_ok_update [OF maps_ok_sessions [OF assms(1)] upd]
    by (simp add: upd maps_ok_set_sessions)
qed

lemma new_session_phase_cases:
  assumes "new_session_phase env sk key len sm bm tcp_start st = (found, st')"
  obtains (Unknown) "found = None" "st' = st"
  | (No_backend) info l where "tcp_schedule env sk key len bm info 0 st = (None, l, st')" "found = None"
  | (Started) info b l s where "tcp_schedule env sk key len bm info 0 st = (Some b, l, s)"
      "found = Some (tcp_start\<lparr>lv_backend := Some b, last_backend_index := l,
         service_idx_for_stats := service_idx info, conn_delta := 1\<rparr>)"
      "st' = s\<lparr>tcp_session_state := snd (hash_update MAX_SESSIONS (tcp_session_state s) sk
         \<lparr>ss_backend_idx = l, ss_service_idx = service_idx info, created = ktime_new env, timeout = TCP_STATE_TIMEOUT\<rparr>)\<rparr>"
  using assms by (auto simp: new_session_phase_def tcp_start_def Let_def split: option.splits prod.splits)

lemma session_started_step:
  fixes sk :: session_state_key
  assumes ok: "maps_ok s" "sessions_ok s" and idx: "unat (ss_backend_idx v) < MAX_BACKENDS"
    and lv: "last_backend_index lv = ss_backend_idx v" "conn_delta lv = 1"
  defines "st' \<equiv> s\<lparr>tcp_session_state := snd (hash_update MAX_SESSIONS (tcp_session_state s) sk v)\<rparr>"
  shows "maps_ok st'" "sessions_ok st'" "data_frame s st'"
    "hash_lookup (tcp_session_state s) sk \<noteq> None \<or> length (tcp_session_state s) < MAX_SESSIONS \<Longrightarrow>
       owed n lv st' i = balance n s i + of_nat (hit (at_backend i) (hash_lookup (tcp_session_state s) sk))"
proof -
  show "maps_ok st'" "sessions_ok st'" "data_frame s st'"
    using sessions_ok_update [OF ok idx] by (simp_all add: st'_def)
  assume room: "hash_lookup (tcp_session_state s) sk \<noteq> None \<or> length (tcp_session_state s) < MAX_SESSIONS"
  have "owed n lv st' i = balance n st' i + (if unat (ss_backend_idx v) = i then 1 else 0)"
    using idx by (cases "unat (ss_backend_idx v) = i") (simp_all add: owed_def lv)
  then show "owed n lv st' i = balance n s i + of_nat (hit (at_backend i) (hash_lookup (tcp_session_state s) sk))"
    using session_insert_balance [OF ok(1) room, of n v i] by (simp add: st'_def)
qed

lemma new_session_phase_step:
  assumes ok: "maps_ok st" "sessions_ok st"
    and p: "new_session_phase env sk key len sm bm tcp_start st = (found, st')"
  shows "maps_ok st'" "sessions_ok st'" "data_frame st st'"
    "found = None \<Longrightarrow> balance n st' i = balance n st i"
    "found = Some lv \<Longrightarrow> \<not> state_backend lv \<and> (\<exists>b. lv_backend lv = Some b \<and> active b \<noteq> 0)"
    "found = Some lv \<Longrightarrow>
       hash_lookup (tcp_session_state st) sk \<noteq> None \<or> length (tcp_session_state st) < MAX_SESSIONS \<Longrightarrow>
       owed n lv st' i = balance n st i + of_nat (hit (at_backend i) (hash_lookup (tcp_session_state st) sk))"
proof -
  have sched: "maps_ok s \<and> sessions_ok s \<and> data_frame st s \<and> balance n s i = balance n st i"
    if "tcp_schedule env sk key len bm info 0 st = (r, l, s)" for info r l s
    using tcp_schedule_step(1,2) [OF that] tcp_schedule_step(3) [OF that, of n i] tcp_schedule_step(4) [OF that ok(1)] ok(2)
    by (simp add: sessions_ok_def balance_def session_count_def)
  have "maps_ok st' \<and> sessions_ok st' \<and> data_frame st st'
    \<and> (found = None \<longrightarrow> balance n st' i = balance n st i)
    \<and> (found = Some lv \<longrightarrow> \<not> state_backend lv \<and> (\<exists>b. lv_backend lv = Some b \<and> active b \<noteq> 0))
    \<and> (found = Some lv \<longrightarrow>
       hash_lookup (tcp_session_state st) sk \<noteq> None \<or> length (tcp_session_state st) < MAX_SESSIONS \<longrightarrow>
       owed n lv st' i = balance n st i + of_nat (hit (at_backend i) (hash_lookup (tcp_session_state st) sk)))"
    using p
  proof (cases rule: new_session_phase_cases)
    case Unknown
    then show ?thesis using ok by simp
  next
    case (No_backend info l)
    then show ?thesis using sched [OF No_backend(1)] by simp
  next
    case (Started info b l s)
    have l: "unat l < MAX_BACKENDS" "active b \<noteq> 0" using tcp_schedule_step(5) [OF Started(1)] by simp_all
    note s = sched [OF Started(1)] tcp_schedule_step(2) [OF Started(1)]
    have lv: "found = Some lv \<Longrightarrow> last_backend_index lv = l \<and> conn_delta lv = 1" by (auto simp: Started(2))
    note step = session_started_step [of s "\<lparr>ss_backend_idx = l, ss_service_idx = service_idx info,
        created = ktime_new env, timeout = TCP_STATE_TIMEOUT\<rparr>" "the found" sk, folded Started(3)]
    have "data_frame st st'" using s step(3) data_frame_trans l lv by (auto simp: Started(2))
    then show ?thesis using s step l lv by (auto simp: Started(2) tcp_start_def)
  qed
  then show "maps_ok st'" "sessions_ok st'" "data_frame st st'"
    "found = None \<Longrightarrow> balance n st' i = balance n st i"
    "found = Some lv \<Longrightarrow> \<not> state_backend lv \<and> (\<exists>b. lv_backend lv = Some b \<and> active b \<noteq> 0)"
    "found = Some lv \<Longrightarrow>
       hash_lookup (tcp_session_state st) sk \<noteq> None \<or> length (tcp_session_state st) < MAX_SESSIONS \<Longrightarrow>
       owed n lv st' i = balance n st i + of_nat (hit (at_backend i) (hash_lookup (tcp_session_state st) sk))"
    by blast+
qed

lemma close_phase_step:
  assumes ok: "maps_ok st" "sessions_ok st"
    and found: "state_backend lv \<Longrightarrow> session_found sk lv st \<and> hash_lookup (tcp_session_state st) sk \<noteq> None"
    and p: "close_phase sk tcp lv st = (lv', st')"
  shows "maps_ok st'" "sessions_ok st'" "data_frame st st'" "lv_backend lv' = lv_backend lv"
    "owed n lv' st' i = owed n lv st i"
proof -
  have "maps_ok st' \<and> sessions_ok st' \<and> data_frame st st' \<and> lv_backend lv' = lv_backend lv
    \<and> owed n lv' st' i = owed n lv st i"
  proof (cases "state_backend lv \<and> (fin tcp \<or> rst tcp)")
    case True
    then obtain v where v: "hash_lookup (tcp_session_state st) sk = Some v"
        "ss_backend_idx v = last_backend_index lv" "conn_delta lv = 0"
      using found by (auto simp: session_found_def)
    have r: "lv' = lv\<lparr>conn_delta := -1\<rparr>"
        "st' = st\<lparr>tcp_session_state := hash_delete (tcp_session_state st) sk\<rparr>"
      using p True by (simp_all add: close_phase_def)
    have "maps_ok st'" unfolding r(2)
      using ok(1) hash_ok_delete [OF maps_ok_sessions [OF ok(1)]] by (rule maps_ok_set_sessions)
    moreover have "owed n lv' st' i = owed n lv st i"
      using session_delete_balance [OF ok(1) v(1), of n i] sessions_okD [OF ok(2) v(1)] v(2,3)
      by (auto simp: owed_def r)
    ultimately show ?thesis using sessions_ok_delete [OF ok(2)] by (simp add: r)
  next
    case False
    then show ?thesis using p ok by (auto simp: close_phase_def)
  qed
  then show "maps_ok st'" "sessions_ok st'" "data_frame st st'" "lv_backend lv' = lv_backend lv"
    "owed n lv' st' i = owed n lv st i" by blast+
qed

lemma tcp_stats_phase_step:
  shows "maps_ok (tcp_stats_phase env tcp len lv st) = maps_ok st"
    "sessions_ok (tcp_stats_phase env tcp len lv st) = sessions_ok st"
    "data_frame st (tcp_stats_phase env tcp len lv st)"
    "cpu env < n \<Longrightarrow> balance n (tcp_stats_phase env tcp len lv st) i = owed n lv st i"
    "tcp_session_state (tcp_stats_phase env tcp len lv st) = tcp_session_state st"
proof -
  have "connections (tcp_count_backend tcp (conn_delta lv) len p) = connections p + conn_delta lv" for p
    by (simp add: tcp_count_backend_def tcp_count_service_def)
  then show "cpu env < n \<Longrightarrow> balance n (tcp_stats_phase env tcp len lv st) i = owed n lv st i"
    by (simp add: tcp_stats_phase_def owed_def balance_backend_stats)
  show "data_frame st (tcp_stats_phase env tcp len lv st)"
    unfolding tcp_stats_phase_def
    by (rule data_frame_trans [OF data_frame_backend_stats data_frame_service_stats])
qed (simp_all add: tcp_stats_phase_def)

subsection \<open>The whole function\<close>

definition tcp_lookup ::
    "xdp_env \<Rightarrow> backend bpf_array \<Rightarrow> session_state_key \<Rightarrow> tcp_flags \<Rightarrow> xdp_maps \<Rightarrow> tcp_locals \<times> xdp_maps" where
  "tcp_lookup env bm sk tcp st = (if pure_syn tcp then (tcp_start, st) else session_phase env bm sk st)"

lemma tcp_start_fields [simp]:
  "lv_backend tcp_start = None" "state_backend tcp_start = False" "conn_delta tcp_start = 0"
  by (simp_all add: tcp_start_def)

lemma tcp_lookup_step:
  assumes ok: "maps_ok st" "sessions_ok st" and p: "tcp_lookup env bm sk tcp st = (lv, st')"
  shows "maps_ok st'" "sessions_ok st'" "data_frame st st'"
    "length (tcp_session_state st') \<le> length (tcp_session_state st)"
    "cpu env < n \<Longrightarrow> owed n lv st' i = balance n st i"
    "pure_syn tcp \<Longrightarrow> lv = tcp_start \<and> st' = st"
    "\<not> pure_syn tcp \<Longrightarrow> session_found sk lv st'"
  using p ok session_phase_step [OF ok, of env bm sk lv st']
  by (auto simp: tcp_lookup_def split: if_splits)

abbreviation (input) current_maps ::
    "xdp_maps \<Rightarrow> (service_key, service_info) bpf_hash \<times> backend bpf_array" where
  "current_maps st \<equiv> (services_map st (atomic_index st 0), backends_map st (atomic_index st 0))"

lemma find_tcp_backend_eq:
  "find_tcp_backend env sk key tcp len st =
     (let (sm, bm) = current_maps st;
          (lv, st) = tcp_lookup env bm sk tcp st;
          (found, st) =
            (case lv_backend lv of
               None \<Rightarrow> new_session_phase env sk key len sm bm lv st
             | Some b \<Rightarrow> (Some lv, st))
      in case found of
           None \<Rightarrow> (None, st)
         | Some lv \<Rightarrow>
             (let (lv, st) = close_phase sk tcp lv st
              in (lv_backend lv, tcp_stats_phase env tcp len lv st)))"
  by (simp add: find_tcp_backend_def tcp_lookup_def array_lookup_def Let_def)

lemma tcp_lookup_found:
  assumes ok: "maps_ok st" "sessions_ok st" and l: "tcp_lookup env bm sk tcp st = (lv, s)"
  shows "lv_backend lv = Some b \<Longrightarrow> \<not> pure_syn tcp \<and> session_found sk lv s \<and> hash_lookup (tcp_session_state s) sk \<noteq> None"
    and "lv_backend lv = None \<Longrightarrow> lv = tcp_start \<and> (\<not> pure_syn tcp \<longrightarrow> hash_lookup (tcp_session_state s) sk = None)"
  using tcp_lookup_step(6,7) [OF ok l] by (cases "pure_syn tcp"; auto simp: session_found_def split: option.splits)+

lemma close_phase_backend: "close_phase sk tcp lv s = (lv', s') \<Longrightarrow> lv_backend lv' = lv_backend lv"
  by (auto simp: close_phase_def split: if_splits)

text \<open>The three ways through: a live session, a new one, or no backend at all.\<close>

lemma find_tcp_cases:
  assumes ok: "maps_ok st" "sessions_ok st"
    and f: "find_tcp_backend env sk key tcp len st = (r, st')"
  obtains
    (Live) lv s lv' s' where
      "tcp_lookup env (backends_map st (atomic_index st 0)) sk tcp st = (lv, s)"
      "lv_backend lv = r" "r \<noteq> None" "\<not> pure_syn tcp" "session_found sk lv s"
      "hash_lookup (tcp_session_state s) sk \<noteq> None"
      "close_phase sk tcp lv s = (lv', s')" "st' = tcp_stats_phase env tcp len lv' s'"
  | (New) s lv s' where
      "tcp_lookup env (backends_map st (atomic_index st 0)) sk tcp st = (tcp_start, s)"
      "\<not> pure_syn tcp \<Longrightarrow> hash_lookup (tcp_session_state s) sk = None"
      "new_session_phase env sk key len (services_map st (atomic_index st 0))
         (backends_map st (atomic_index st 0)) tcp_start s = (Some lv, s')"
      "lv_backend lv = r" "r \<noteq> None" "st' = tcp_stats_phase env tcp len lv s'"
  | (Nothing) s where
      "tcp_lookup env (backends_map st (atomic_index st 0)) sk tcp st = (tcp_start, s)"
      "new_session_phase env sk key len (services_map st (atomic_index st 0))
         (backends_map st (atomic_index st 0)) tcp_start s = (None, st')" "r = None"
proof -
  obtain lv s where l: "tcp_lookup env (backends_map st (atomic_index st 0)) sk tcp st = (lv, s)"
    by (rule prod.exhaust)
  show ?thesis
  proof (cases "lv_backend lv")
    case (Some b)
    obtain lv' s' where c: "close_phase sk tcp lv s = (lv', s')" by (rule prod.exhaust)
    then have "lv_backend lv = r" "r \<noteq> None" "st' = tcp_stats_phase env tcp len lv' s'"
      using f [symmetric] Some close_phase_backend [OF c] by (simp_all add: find_tcp_backend_eq l c)
    then show ?thesis using tcp_lookup_found(1) [OF ok l Some] Live [OF l _ _ _ _ _ c] by blast
  next
    case None
    note lv = tcp_lookup_found(2) [OF ok l None]
    obtain found s' where n: "new_session_phase env sk key len (services_map st (atomic_index st 0))
        (backends_map st (atomic_index st 0)) tcp_start s = (found, s')"
      by (rule prod.exhaust)
    show ?thesis
    proof (cases found)
      case None
      then show ?thesis using Nothing l lv f n by (simp add: find_tcp_backend_eq)
    next
      case (Some lv')
      have "\<not> state_backend lv' \<and> lv_backend lv' \<noteq> None"
        using new_session_phase_step(5) [OF tcp_lookup_step(1,2) [OF ok l] n [unfolded Some]] by auto
      moreover from this have "r = lv_backend lv'" "st' = tcp_stats_phase env tcp len lv' s'"
        using f n lv by (simp_all add: find_tcp_backend_eq l Some close_phase_def)
      ultimately show ?thesis using New l lv n Some by simp
    qed
  qed
qed

lemma find_tcp_backend_step:
  assumes ok: "maps_ok st" "sessions_ok st"
    and f: "find_tcp_backend env sk key tcp len st = (r, st')"
  shows "maps_ok st' \<and> sessions_ok st' \<and> data_frame st st'"
  using ok f
proof (cases rule: find_tcp_cases)
  case (Live lv s lv' s')
  note l = tcp_lookup_step [OF ok Live(1)]
  note c = close_phase_step [OF l(1,2) conjI [OF Live(5,6)] Live(7)]
  show ?thesis
    using c data_frame_trans [OF data_frame_trans [OF l(3) c(3)]]
    by (simp_all add: Live(8) tcp_stats_phase_step)
next
  case (New s lv s')
  note l = tcp_lookup_step [OF ok New(1)]
  note m = new_session_phase_step [OF l(1,2) New(3)]
  show ?thesis
    using m(1-3) data_frame_trans [OF data_frame_trans [OF l(3) m(3)]]
    by (simp_all add: New(6) tcp_stats_phase_step)
next
  case (Nothing s)
  note l = tcp_lookup_step [OF ok Nothing(1)]
  note m = new_session_phase_step [OF l(1,2) Nothing(2)]
  show ?thesis
    using m(1-3) data_frame_trans [OF l(3) m(3)] by simp_all
qed

text \<open>
  The account: with room in the table a packet changes no backend's balance, unless it is a SYN
  that replaces a session, whose connection then stays counted.
\<close>

lemma find_tcp_backend_balance:
  assumes ok: "maps_ok st" "sessions_ok st" and cpu: "cpu env < n"
    and room: "length (tcp_session_state st) < MAX_SESSIONS"
    and f: "find_tcp_backend env sk key tcp len st = (r, st')"
  shows "balance n st' i = balance n st i +
    (if pure_syn tcp \<and> r \<noteq> None then of_nat (hit (at_backend i) (hash_lookup (tcp_session_state st) sk)) else 0)"
  using ok f
proof (cases rule: find_tcp_cases)
  case (Live lv s lv' s')
  note l = tcp_lookup_step [OF ok Live(1)]
  note c = close_phase_step [OF l(1,2) conjI [OF Live(5,6)] Live(7)]
  show ?thesis
    using l(5) [OF cpu, of i] c(5) [of n i] Live(4) tcp_stats_phase_step(4) [OF cpu, of tcp len lv' s' i]
    by (simp add: Live(8))
next
  case (New s lv s')
  note l = tcp_lookup_step [OF ok New(1)]
  note m = new_session_phase_step [OF l(1,2) New(3)]
  have "length (tcp_session_state s) < MAX_SESSIONS" using l(4) room by simp
  then have "balance n st' i = balance n s i + of_nat (hit (at_backend i) (hash_lookup (tcp_session_state s) sk))"
    using m(6) [OF refl, of n i] tcp_stats_phase_step(4) [OF cpu, of tcp len lv s' i] by (simp add: New(6))
  then show ?thesis using l(5) [OF cpu, of i] l(6) New(2,5)
    by (cases "pure_syn tcp") (simp_all add: hit_def)
next
  case (Nothing s)
  note l = tcp_lookup_step [OF ok Nothing(1)]
  note m = new_session_phase_step [OF l(1,2) Nothing(2)]
  show ?thesis using l(5) [OF cpu, of i] m(4) [OF refl, of n i] Nothing(3) by simp
qed

end
