(* ===== verification/Xdp_Reload.thy ===== *)
theory Xdp_Reload
  imports Xdp_Dataplane Session_Accounting
begin

section \<open>Reloading a configuration\<close>

text \<open>
  The rest of \<open>XdpDataplane::ReloadConfig\<close>: the consistent-hash tables, the counters, and the
  function as a whole.
\<close>

subsection \<open>Consistent-hash services\<close>

definition ch_callback :: "xdp_dataplane \<Rightarrow> xdp_maps bpf_callback option" where
  "ch_callback d = Some (updateChBpfMaps (maps_opened d))"

text \<open>The first backend of the whole configuration with the address of the real server.\<close>

definition matches_real :: "host \<Rightarrow> balancer_real \<Rightarrow> backend \<Rightarrow> bool" where
  "matches_real h real b =
     (if real_ip_version real = 4
      then (case inet_aton h (real_ip real) of
              None \<Rightarrow> False
            | Some addr \<Rightarrow> be_ipv4 b = addr \<and> be_ip_version b = 4)
      else (case inet_pton6 h (real_ip real) of
              None \<Rightarrow> False
            | Some addr \<Rightarrow> be_addr b = addr \<and> be_ip_version b = 6))"

fun collect_ch_backends :: "host \<Rightarrow> backend list \<Rightarrow> balancer_real list \<Rightarrow> backend list" where
  "collect_ch_backends h bs [] = []"
| "collect_ch_backends h bs (real # rs) =
     (if enabled real
      then (case find (matches_real h real) bs of
              None \<Rightarrow> collect_ch_backends h bs rs
            | Some b \<Rightarrow> b # collect_ch_backends h bs rs)
      else collect_ch_backends h bs rs)"

text \<open>The address functions have succeeded on the same text before; \<open>None\<close> is an unset address.\<close>

definition ch_key :: "host \<Rightarrow> balancer_service \<Rightarrow> service_key option" where
  "ch_key h service =
     (let key = \<lparr>vip6 = replicate 16 0, sk_port = ucast (srv_port service),
                 sk_protocol = protocol_number (srv_protocol service),
                 sk_ip_version = srv_ip_version service, sk_pad = replicate 4 0\<rparr>
      in if srv_ip_version service = 4
         then map_option (\<lambda>addr. key\<lparr>vip6 := bytes32 addr @ replicate 12 0\<rparr>) (inet_aton h (srv_vip service))
         else map_option (\<lambda>addr. key\<lparr>vip6 := addr\<rparr>) (inet_pton6 h (srv_vip service)))"

definition update_ch_service :: "host \<Rightarrow> balancer_service \<Rightarrow> phase" where
  "update_ch_service h service d =
     (if srv_type service \<noteq> CH then (None, d)
      else
        (let ch_backends = collect_ch_backends h (m_xdpBackends d) (reals service)
         in case ch_key h service of
              None \<Rightarrow> (Some Undefined_behaviour, d)
            | Some key \<Rightarrow>
                if ch_backends \<noteq> []
                then (case updateServiceBackends (ch_callback d) key ch_backends default_instance_config
                             (m_chManager d, kernel d) of
                        None \<Rightarrow> (Some Undefined_behaviour, d)
                      | Some (_, ms, st) \<Rightarrow> (None, d\<lparr>m_chManager := ms, kernel := st\<rparr>))
                else (None, d\<lparr>m_chManager := snd (removeService key (m_chManager d))\<rparr>)))"

fun update_ch :: "host \<Rightarrow> balancer_service list \<Rightarrow> phase" where
  "update_ch h [] d = (None, d)"
| "update_ch h (service # ss) d = and_then (update_ch_service h service) (update_ch h ss) d"

definition ChPeriodicMaintenance :: "xdp_dataplane \<Rightarrow> xdp_dataplane" where
  "ChPeriodicMaintenance d =
     (let (ms, st) = periodicMaintenance (ch_callback d) (m_chManager d, kernel d)
      in d\<lparr>m_chManager := ms, kernel := st\<rparr>)"

subsection \<open>Counters\<close>

text \<open>An update of a per-CPU array sets the entry of every CPU.\<close>

definition percpu_update :: "nat \<Rightarrow> 'v bpf_percpu_array \<Rightarrow> u32 \<Rightarrow> 'v \<Rightarrow> bool \<times> 'v bpf_percpu_array" where
  "percpu_update max_entries m i v =
     (if unat i < max_entries then (True, \<lambda>c. (m c)(unat i := v)) else (False, m))"

fun reset_backend_stats :: "nat \<Rightarrow> nat \<Rightarrow> phase" where
  "reset_backend_stats idx 0 d = (None, d)"
| "reset_backend_stats idx (Suc n) d =
     (case percpu_update MAX_BACKENDS (backends_packets_stats (kernel d)) (of_nat idx) zero_stats of
        (False, _) \<Rightarrow> (Some (Backend_stats_failed (of_nat idx)), d)
      | (True, m) \<Rightarrow>
          reset_backend_stats (Suc idx) n (in_kernel (\<lambda>st. st\<lparr>backends_packets_stats := m\<rparr>) d))"

text \<open>
  The map's key is a 32-bit index and the code passes a pointer to a service key: the index is
  the first four bytes of the key, the IPv4 address.
\<close>

fun reset_service_stats :: "service_key list \<Rightarrow> phase" where
  "reset_service_stats [] d = (None, d)"
| "reset_service_stats (key # ks) d =
     (case percpu_update MAX_SERVICES (services_packets_stats (kernel d)) (vip4 key) zero_stats of
        (False, _) \<Rightarrow> (Some Service_stats_failed, d)
      | (True, m) \<Rightarrow>
          reset_service_stats ks (in_kernel (\<lambda>st. st\<lparr>services_packets_stats := m\<rparr>) d))"

subsection \<open>The function\<close>

definition prepare :: "host \<Rightarrow> base_config \<Rightarrow> phase" where
  "prepare h config d =
     prepare_services h (services config) 0
       (d\<lparr>dp_currConfig := config, m_xdpBackends := [], m_xdpKeys := [], m_xdpServices := []\<rparr>)"

definition reset_stats :: phase where
  "reset_stats d =
     and_then (reset_backend_stats 0 (length (m_xdpBackends d)))
       (\<lambda>d. reset_service_stats (m_xdpKeys d) d) d"

definition after_switch :: "host \<Rightarrow> base_config \<Rightarrow> phase" where
  "after_switch h config =
     and_then reset_rr
       (and_then reset_wrr
         (and_then (update_ch h (services config))
           (and_then clear_sessions reset_stats)))"

definition load_half :: "u8 \<Rightarrow> phase" where
  "load_half index = and_then (load_backends index) (load_services index)"

definition write_config :: "host \<Rightarrow> base_config \<Rightarrow> phase" where
  "write_config h config d =
     (case read_index d of
        (Inl e, d) \<Rightarrow> (Some e, d)
      | (Inr index, d) \<Rightarrow>
          and_then (load_half index) (and_then (switch_index h index) (after_switch h config)) d)"

definition ReloadConfig :: "host \<Rightarrow> base_config \<Rightarrow> phase" where
  "ReloadConfig h config d =
     (if maps_opened d
      then and_then (prepare h config) (and_then (load_ddos config) (write_config h config)) d
      else (Some Invalid_maps, d))"

subsection \<open>The invariant of the data plane\<close>

text \<open>
  The maps and the sessions are well formed, the prepared backends too, and the consistent-hash services. What a
  lookup of a neighbour or an address gives has the size of an address.
\<close>

definition host_ok :: "host \<Rightarrow> bool" where
  "host_ok h \<longleftrightarrow>
     length (rest_of_union h) = 12
     \<and> (\<forall>s a. inet_pton6 h s = Some a \<longrightarrow> length a = 16)
     \<and> (\<forall>s a. Arp_Lookup h s = Some (Some a) \<longrightarrow> length a = 6)
     \<and> (\<forall>s a. Ndp_Lookup h s = Some (Resolved a) \<longrightarrow> length a = 6)"

definition chs_ok :: "ch_services \<Rightarrow> bool" where
  "chs_ok m \<longleftrightarrow> services_ok m \<and> (\<forall>(k, e) \<in> set m. list_all backend_ok (m_backends (se_instance e)))"

definition dataplane_ok :: "xdp_dataplane \<Rightarrow> bool" where
  "dataplane_ok d \<longleftrightarrow>
     maps_ok (kernel d) \<and> sessions_ok (kernel d) \<and> list_all backend_ok (m_xdpBackends d) \<and> chs_ok (m_chManager d)"

definition keeps :: "phase \<Rightarrow> bool" where
  "keeps f \<longleftrightarrow> (\<forall>d. dataplane_ok d \<longrightarrow> dataplane_ok (snd (f d)))"

lemma keepsI: "(\<And>d. dataplane_ok d \<Longrightarrow> dataplane_ok (snd (f d))) \<Longrightarrow> keeps f"
  by (simp add: keeps_def)

lemma keepsD: "keeps f \<Longrightarrow> dataplane_ok d \<Longrightarrow> dataplane_ok (snd (f d))"
  by (simp add: keeps_def)

lemma keeps_and_then [intro]: "keeps f \<Longrightarrow> keeps g \<Longrightarrow> keeps (and_then f g)"
  unfolding keeps_def and_then_def by (auto split: prod.split option.split)

lemma prepare_backend_ok:
  "host_ok h \<Longrightarrow> prepare_backend h service real = Inr b \<Longrightarrow> backend_ok b"
  by (auto simp: prepare_backend_def lookup_mac_def host_ok_def backend_ok_def Let_def
      split: if_splits option.splits sum.splits ndp_result.splits)

lemma prepare_reals_keeps: "host_ok h \<Longrightarrow> keeps (prepare_reals h service rs)"
proof (rule keepsI)
  show "host_ok h \<Longrightarrow> dataplane_ok d \<Longrightarrow> dataplane_ok (snd (prepare_reals h service rs d))" for d
  proof (induction rs arbitrary: d)
    case (Cons r rs)
    then show ?case
      using prepare_backend_ok [of h service r]
      by (auto simp: dataplane_ok_def split: sum.split)
  qed simp
qed

lemma prepare_services_keeps: "host_ok h \<Longrightarrow> keeps (prepare_services h ss start)"
proof (induction ss arbitrary: start)
  case (Cons s ss)
  show ?case
  proof (rule keepsI)
    fix d assume d: "dataplane_ok d"
    show "dataplane_ok (snd (prepare_services h (s # ss) start d))"
    proof (cases "prepare_key h s")
      case (Some key)
      have rest: "keeps (\<lambda>d. prepare_services h ss (start + length (reals s))
          (d\<lparr>m_xdpServices := m_xdpServices d @ [prepare_info s start (length (m_xdpServices d))]\<rparr>))"
        by (rule keepsI, rule keepsD [OF Cons.IH [OF Cons.prems]]) (simp add: dataplane_ok_def)
      have "dataplane_ok (d\<lparr>m_xdpKeys := m_xdpKeys d @ [key]\<rparr>)" using d by (simp add: dataplane_ok_def)
      from keepsD [OF keeps_and_then [OF prepare_reals_keeps [OF Cons.prems] rest] this]
      show ?thesis by (simp add: Some)
    qed (use d in simp)
  qed
qed (simp add: keeps_def)

lemma write_slots_backends_ok:
  "(\<forall>i. backend_ok (m i)) \<Longrightarrow> list_all backend_ok bs \<Longrightarrow> backend_ok (snd (write_slots n i bs m) j)"
  by (induction bs arbitrary: i m) (auto simp: array_update_def split: prod.split bool.split)

lemma hash_batch_ok: "hash_ok n m \<Longrightarrow> hash_ok n (snd (hash_batch n kvs m))"
proof (induction kvs arbitrary: m)
  case (Cons kv kvs)
  obtain k v where kv: "kv = (k, v)" by (rule prod.exhaust)
  obtain r m' where u: "hash_update n m k v = (r, m')" by (rule prod.exhaust)
  then show ?case using Cons hash_ok_update [OF _ u] by (cases r) (auto simp: kv)
qed simp

lemma write_slots_ok:
  "(\<forall>i. backend_ok (m i)) \<Longrightarrow> list_all backend_ok bs \<Longrightarrow> write_slots n i bs m = (r, m') \<Longrightarrow> backend_ok (m' j)"
  using write_slots_backends_ok [of m bs n i j] by simp

lemma load_ddos_keeps: "keeps (load_ddos config)"
  by (rule keepsI) (auto simp: load_ddos_def dataplane_ok_def in_kernel_def maps_ok_def sessions_ok_def split: option.split prod.split)

lemma load_backends_keeps: "keeps (load_backends index)"
  by (rule keepsI)
    (auto simp: load_backends_def dataplane_ok_def in_kernel_def maps_ok_def sessions_ok_def write_slots_backends_ok split_beta Let_def)

lemma load_services_keeps: "keeps (load_services index)"
  by (rule keepsI)
    (auto simp: load_services_def dataplane_ok_def in_kernel_def maps_ok_def sessions_ok_def hash_batch_ok split_beta Let_def)

lemma load_half_keeps: "keeps (load_half index)"
  unfolding load_half_def by (intro keeps_and_then load_backends_keeps load_services_keeps)

lemma switch_index_keeps: "keeps (switch_index h index)"
  by (rule keepsI) (auto simp: switch_index_def dataplane_ok_def in_kernel_def maps_ok_def sessions_ok_def split_beta Let_def)

lemma reset_rr_keeps: "keeps reset_rr"
  by (rule keepsI) (auto simp: reset_rr_def dataplane_ok_def in_kernel_def maps_ok_def sessions_ok_def hash_batch_ok split_beta Let_def)

lemma hash_ok_Nil [simp]: "hash_ok n []"
  by (simp add: hash_ok_def)

lemma reset_wrr_keeps: "keeps reset_wrr"
  by (rule keepsI) (auto simp: reset_wrr_def dataplane_ok_def in_kernel_def maps_ok_def sessions_ok_def)

lemma clear_sessions_keeps: "keeps clear_sessions"
  by (rule keepsI) (auto simp: clear_sessions_def dataplane_ok_def in_kernel_def maps_ok_def sessions_ok_def hash_lookup_def)

lemma dataplane_ok_stats [simp]:
  "dataplane_ok (in_kernel (\<lambda>st. st\<lparr>backends_packets_stats := m\<rparr>) d) = dataplane_ok d"
  "dataplane_ok (in_kernel (\<lambda>st. st\<lparr>services_packets_stats := m\<rparr>) d) = dataplane_ok d"
  by (simp_all add: dataplane_ok_def in_kernel_def maps_ok_def sessions_ok_def)

lemma reset_backend_stats_keeps: "keeps (reset_backend_stats idx n)"
proof (rule keepsI)
  show "dataplane_ok d \<Longrightarrow> dataplane_ok (snd (reset_backend_stats idx n d))" for d
    by (induction n arbitrary: idx d) (auto split: prod.split bool.split)
qed

lemma reset_service_stats_keeps: "keeps (reset_service_stats ks)"
proof (rule keepsI)
  show "dataplane_ok d \<Longrightarrow> dataplane_ok (snd (reset_service_stats ks d))" for d
    by (induction ks arbitrary: d) (auto split: prod.split bool.split)
qed

lemma reset_stats_keeps: "keeps reset_stats"
proof (rule keepsI)
  have "keeps (and_then (reset_backend_stats 0 n) (\<lambda>d. reset_service_stats (m_xdpKeys d) d))" for n
    using keepsD [OF reset_service_stats_keeps] by (intro keeps_and_then reset_backend_stats_keeps keepsI)
  then show "dataplane_ok d \<Longrightarrow> dataplane_ok (snd (reset_stats d))" for d by (simp add: reset_stats_def keepsD)
qed

subsection \<open>Consistent-hash services keep the invariant\<close>

lemma updateBackends_backends: "updateBackends bs inst = Some inst' \<Longrightarrow> m_backends inst' = bs"
  by (auto simp: updateBackends_def clear_instance_def Let_def split: if_splits option.splits)

lemma tick_backends: "m_backends (tick inst) = m_backends inst"
  by (simp add: tick_def tickMergeTimer_def merge_instance_def Let_def)

lemma updateChBpfMaps_ok:
  "maps_ok st \<Longrightarrow> list_all backend_ok bs \<Longrightarrow> maps_ok (snd (updateChBpfMaps f key bs c p m st))"
  by (auto simp: updateChBpfMaps_def maps_ok_def Let_def split_beta write_slots_backends_ok
      split: prod.split bool.split)

lemma updateChBpfMaps_sessions: "sessions_ok st \<Longrightarrow> sessions_ok (snd (updateChBpfMaps f key bs c p m st))"
  by (auto simp: updateChBpfMaps_def sessions_ok_def Let_def split_beta split: prod.split bool.split)

lemma call_bpf_ok:
  "maps_ok st \<Longrightarrow> list_all backend_ok (m_backends inst) \<Longrightarrow> maps_ok (call_bpf (ch_callback d) key inst st)"
  by (simp add: call_bpf_def ch_callback_def updateChBpfMaps_ok)

lemma call_bpf_sessions: "sessions_ok st \<Longrightarrow> sessions_ok (call_bpf (ch_callback d) key inst st)"
  by (simp add: call_bpf_def ch_callback_def updateChBpfMaps_sessions)

lemma chs_ok_put:
  assumes "chs_ok m" "services_ok (omap_put service_key_lt key e m)" "list_all backend_ok (m_backends (se_instance e))"
  shows "chs_ok (omap_put service_key_lt key e m)"
  using assms put_entries [of _ _ service_key_lt key e m] by (fastforce simp: chs_ok_def)

lemma collect_ch_backends_ok: "list_all backend_ok bs \<Longrightarrow> list_all backend_ok (collect_ch_backends h bs rs)"
  by (induction rs) (auto simp: list_all_iff split: option.split dest!: find_Some_iff [THEN iffD1])

lemma coprime_default: "coprime_size (unat (hashring_size default_instance_config))"
  using coprime_size_small by (simp add: default_instance_config_def HASHRING_SMALL_def)

lemma update_ch_service_keeps: "keeps (update_ch_service h service)"
proof (rule keepsI)
  fix d assume d: "dataplane_ok d"
  let ?bs = "collect_ch_backends h (m_xdpBackends d) (reals service)"
  have ok: "services_ok (m_chManager d)" "maps_ok (kernel d)" "chs_ok (m_chManager d)" "list_all backend_ok ?bs"
    using d collect_ch_backends_ok by (auto simp: dataplane_ok_def chs_ok_def)
  show "dataplane_ok (snd (update_ch_service h service d))"
  proof (cases "ch_key h service")
    case None
    then show ?thesis using d by (simp add: update_ch_service_def)
  next
    case (Some key)
    obtain inst m' where u: "updateBackends ?bs (se_instance (entry_of key default_instance_config (m_chManager d))) = Some inst"
        "updateServiceBackends (ch_callback d) key ?bs default_instance_config (m_chManager d, kernel d) =
           Some (True, m', call_bpf (ch_callback d) key inst (kernel d))" "services_ok m'"
      by (rule updateServiceBackends_ok [OF ok(1) coprime_default])
    have bs: "m_backends inst = ?bs" by (rule updateBackends_backends [OF u(1)])
    have "chs_ok m'"
      using u chs_ok_put [OF ok(3), of key "(entry_of key default_instance_config (m_chManager d))\<lparr>se_instance := inst\<rparr>"]
        ok(4) bs by (simp add: updateServiceBackends_eq)
    moreover have "chs_ok (snd (removeService key (m_chManager d)))"
      using ok(3) removeService_ok(1) [OF ok(1), of key] sk.erase_subset [of _ key "m_chManager d"]
      by (fastforce simp: chs_ok_def removeService_def split_beta)
    ultimately show ?thesis using d ok u call_bpf_ok [OF ok(2), of inst d key] call_bpf_sessions [of "kernel d" d key inst] bs Some
      by (auto simp: update_ch_service_def dataplane_ok_def Let_def)
  qed
qed

lemma update_ch_keeps: "keeps (update_ch h ss)"
proof (induction ss)
  case (Cons s ss)
  have "update_ch h (s # ss) = and_then (update_ch_service h s) (update_ch h ss)"
    by (rule ext) simp
  then show ?case using Cons update_ch_service_keeps by auto
qed (simp add: keeps_def)

lemma after_switch_keeps: "keeps (after_switch h config)"
  unfolding after_switch_def
  by (intro keeps_and_then reset_rr_keeps reset_wrr_keeps update_ch_keeps clear_sessions_keeps
      reset_stats_keeps)

lemma read_index_ok: "dataplane_ok d \<Longrightarrow> dataplane_ok (snd (read_index d))"
  by (simp add: read_index_def dataplane_ok_def split: option.split)

lemma write_config_keeps: "keeps (write_config h config)"
proof (rule keepsI)
  fix d assume "dataplane_ok d"
  then have r: "dataplane_ok (snd (read_index d))" by (rule read_index_ok)
  have k: "keeps (and_then (load_half i) (and_then (switch_index h i) (after_switch h config)))" for i
    by (auto intro: load_half_keeps switch_index_keeps after_switch_keeps)
  show "dataplane_ok (snd (write_config h config d))"
    using r keepsD [OF k] by (auto simp: write_config_def split: prod.split sum.split)
qed

lemma prepare_keeps: "host_ok h \<Longrightarrow> keeps (prepare h config)"
  by (rule keepsI) (auto simp: prepare_def dataplane_ok_def intro!: keepsD [OF prepare_services_keeps, unfolded dataplane_ok_def])

lemma ReloadConfig_keeps: "host_ok h \<Longrightarrow> keeps (ReloadConfig h config)"
proof (rule keepsI)
  fix d assume h: "host_ok h" and d: "dataplane_ok d"
  have "keeps (and_then (prepare h config) (and_then (load_ddos config) (write_config h config)))"
    by (intro keeps_and_then prepare_keeps h load_ddos_keeps write_config_keeps)
  from keepsD [OF this d] show "dataplane_ok (snd (ReloadConfig h config d))"
    using d by (simp add: ReloadConfig_def)
qed

text \<open>The XDP data plane is a data plane the configuration manager can rely on.\<close>

interpretation xdp: dataplane "ReloadConfig h" "\<lambda>d. host_ok h \<and> dataplane_ok d" for h
  by unfold_locales (simp add: keepsD [OF ReloadConfig_keeps])

end
