(* ===== verification/Bpf_Loader.thy ===== *)
theory Bpf_Loader
  imports Xdp_Reload
begin

section \<open>Loading and attaching the XDP program\<close>

text \<open>
  \<open>RunProgram\<close>, \<open>StopProgram\<close> and the destructor of \<open>XdpDataplane\<close>
  (\<open>controlplane/src/manager/xdpdataplane.cpp\<close>). What libbpf and the kernel answer is a record
  of functions. The BPF object is a handle: closing it frees it, and the pointer in
  \<open>m_xdpObject\<close> is never reset, so a second close is a use of freed memory; \<open>None\<close> is that.
  \<open>m_xdpLink\<close> is never assigned, and the branches on it are not taken.
\<close>

record bpf_host =
  object_opens :: "string \<Rightarrow> bool"
  object_loads :: "string \<Rightarrow> bool"
  program_fd :: "string \<Rightarrow> int"
  if_nametoindex :: "string \<Rightarrow> nat"
  xdp_attach :: "nat \<Rightarrow> int \<Rightarrow> u32 \<Rightarrow> bool"
  object_has_map :: "string \<Rightarrow> bool"

datatype object_handle = No_object | Open_object | Closed_object

text \<open>\<open>opened\<close>: the maps whose pointer is set, in order; \<open>attached\<close>: what the kernel runs.\<close>

record loader =
  m_progName :: string
  m_progInterface :: string
  m_xdpObject :: object_handle
  m_interfaceIdx :: nat
  m_xdpFlags :: u32
  opened :: "string list"
  callback_set :: bool
  attached :: "(nat \<times> u32) list"

datatype run_error =
    Open_failed
  | Load_failed
  | No_interface string
  | Attach_failed string
  | No_map string

definition XDP_FLAGS_UPDATE_IF_NOEXIST :: u32 where "XDP_FLAGS_UPDATE_IF_NOEXIST = 1"
definition XDP_FLAGS_SKB_MODE :: u32 where "XDP_FLAGS_SKB_MODE = 2"

definition new_loader :: "string \<Rightarrow> string \<Rightarrow> loader" where
  "new_loader name iface =
     \<lparr>m_progName = name, m_progInterface = iface, m_xdpObject = No_object, m_interfaceIdx = 0,
      m_xdpFlags = 0, opened = [], callback_set = False, attached = []\<rparr>"

text \<open>\<open>if (m_xdpObject) bpf_object__close(m_xdpObject);\<close>\<close>

definition close_object :: "loader \<Rightarrow> loader option" where
  "close_object l =
     (case m_xdpObject l of
        No_object \<Rightarrow> Some l
      | Open_object \<Rightarrow> Some (l\<lparr>m_xdpObject := Closed_object\<rparr>)
      | Closed_object \<Rightarrow> None)"

definition fail_run :: "run_error \<Rightarrow> loader \<Rightarrow> (run_error option \<times> loader) option" where
  "fail_run e l = map_option (\<lambda>l. (Some e, l)) (close_object l)"

text \<open>\<open>openBpfMap\<close>, and the blocks that open a list of maps.\<close>

definition openBpfMap :: "bpf_host \<Rightarrow> string \<Rightarrow> loader \<Rightarrow> (run_error option \<times> loader) option" where
  "openBpfMap b name l = (if object_has_map b name then Some (None, l) else fail_run (No_map name) l)"

fun open_maps :: "bpf_host \<Rightarrow> string list \<Rightarrow> loader \<Rightarrow> (run_error option \<times> loader) option" where
  "open_maps b [] l = Some (None, l)"
| "open_maps b (name # names) l =
     (case openBpfMap b name l of
        None \<Rightarrow> None
      | Some (Some e, l) \<Rightarrow> Some (Some e, l)
      | Some (None, l) \<Rightarrow> open_maps b names (l\<lparr>opened := opened l @ [name]\<rparr>))"

definition balancer_maps :: "string list" where
  "balancer_maps =
     [''backends_first'', ''backends_second'', ''services_first'', ''services_second'',
      ''atomic_index'', ''rr_index'', ''tcp_session_state'', ''wrr_state_map'',
      ''backends_packets_stats'', ''services_packets_stats'']"

definition ch_map_names :: "string list" where
  "ch_map_names = [''ch_curr_lookup'', ''ch_prev_lookup'', ''ch_backends'', ''ch_config'']"

definition ddos_map_names :: "string list" where
  "ddos_map_names = [''ddos_cfg'', ''blacklist'', ''global_syn'']"

definition all_maps :: "string list" where
  "all_maps = balancer_maps @ ch_map_names @ ddos_map_names"

text \<open>The native mode first, the generic one when that fails.\<close>

definition attach_program :: "bpf_host \<Rightarrow> nat \<Rightarrow> int \<Rightarrow> loader \<Rightarrow> (run_error option \<times> loader) option" where
  "attach_program b ifindex prog_fd l =
     (let l = l\<lparr>m_xdpFlags := XDP_FLAGS_UPDATE_IF_NOEXIST\<rparr>
      in if xdp_attach b ifindex prog_fd (m_xdpFlags l)
         then Some (None, l\<lparr>attached := (ifindex, m_xdpFlags l) # attached l\<rparr>)
         else
           (let l = l\<lparr>m_xdpFlags := XDP_FLAGS_SKB_MODE\<rparr>
            in if xdp_attach b ifindex prog_fd (m_xdpFlags l)
               then Some (None, l\<lparr>attached := (ifindex, m_xdpFlags l) # attached l\<rparr>)
               else fail_run (Attach_failed (m_progName l)) l))"

definition RunProgram :: "bpf_host \<Rightarrow> string \<Rightarrow> loader \<Rightarrow> (run_error option \<times> loader) option" where
  "RunProgram b binName l =
     (if \<not> object_opens b binName then Some (Some Open_failed, l\<lparr>m_xdpObject := No_object\<rparr>)
      else
        (let l = l\<lparr>m_xdpObject := Open_object\<rparr>
         in if \<not> object_loads b binName then fail_run Load_failed l
            else
              (let prog_fd = program_fd b (m_progName l);
                   ifindex = if_nametoindex b (m_progInterface l)
               in if ifindex = 0 then fail_run (No_interface (m_progInterface l)) l
                  else
                    (case attach_program b ifindex prog_fd l of
                       None \<Rightarrow> None
                     | Some (Some e, l) \<Rightarrow> Some (Some e, l)
                     | Some (None, l) \<Rightarrow>
                         (case open_maps b all_maps (l\<lparr>m_interfaceIdx := ifindex\<rparr>) of
                            None \<Rightarrow> None
                          | Some (Some e, l) \<Rightarrow> Some (Some e, l)
                          | Some (None, l) \<Rightarrow> Some (None, l\<lparr>callback_set := True\<rparr>))))))"

definition isValidBpfState :: "loader \<Rightarrow> bool" where
  "isValidBpfState l \<longleftrightarrow>
     ''backends_first'' \<in> set (opened l) \<and> ''backends_second'' \<in> set (opened l)
     \<and> ''atomic_index'' \<in> set (opened l) \<and> ''services_first'' \<in> set (opened l)
     \<and> ''services_second'' \<in> set (opened l)"

definition StopProgram :: "loader \<Rightarrow> loader option" where
  "StopProgram l = close_object l"

text \<open>The destructor: detach what this object attached, then close.\<close>

definition destroy :: "loader \<Rightarrow> loader option" where
  "destroy l =
     (let l = (if 0 < m_interfaceIdx l
               then l\<lparr>attached := filter (\<lambda>a. a \<noteq> (m_interfaceIdx l, m_xdpFlags l)) (attached l)\<rparr>
               else l)
      in close_object l)"

subsection \<open>What a run does\<close>

lemma open_maps_eq:
  "m_xdpObject l = Open_object \<Longrightarrow>
     open_maps b names l =
       (case find (\<lambda>n. \<not> object_has_map b n) names of
          None \<Rightarrow> Some (None, l\<lparr>opened := opened l @ names\<rparr>)
        | Some n \<Rightarrow> Some (Some (No_map n),
            l\<lparr>m_xdpObject := Closed_object, opened := opened l @ takeWhile (object_has_map b) names\<rparr>))"
  by (induction names arbitrary: l)
    (auto simp: openBpfMap_def fail_run_def close_object_def split: option.split)

lemma attach_program_eq:
  "m_xdpObject l = Open_object \<Longrightarrow>
     attach_program b i fd l =
       (if xdp_attach b i fd XDP_FLAGS_UPDATE_IF_NOEXIST
        then Some (None, l\<lparr>m_xdpFlags := XDP_FLAGS_UPDATE_IF_NOEXIST,
                           attached := (i, XDP_FLAGS_UPDATE_IF_NOEXIST) # attached l\<rparr>)
        else if xdp_attach b i fd XDP_FLAGS_SKB_MODE
        then Some (None, l\<lparr>m_xdpFlags := XDP_FLAGS_SKB_MODE,
                           attached := (i, XDP_FLAGS_SKB_MODE) # attached l\<rparr>)
        else Some (Some (Attach_failed (m_progName l)),
                   l\<lparr>m_xdpFlags := XDP_FLAGS_SKB_MODE, m_xdpObject := Closed_object\<rparr>))"
  by (simp add: attach_program_def fail_run_def close_object_def Let_def)

lemmas RunProgram_eqs = RunProgram_def fail_run_def close_object_def Let_def attach_program_eq open_maps_eq

lemma find_missing: "find (\<lambda>n. \<not> P n) xs = None \<longleftrightarrow> (\<forall>n \<in> set xs. P n)"
  by (auto simp: find_None_iff)

text \<open>A run is never undefined itself.\<close>

lemma RunProgram_defined: "RunProgram b bin l \<noteq> None"
  by (auto simp: RunProgram_eqs split: option.split)

lemma RunProgram_success:
  assumes "RunProgram b bin l = Some (None, l')"
  shows "\<forall>n \<in> set all_maps. object_has_map b n" "opened l' = opened l @ all_maps"
    "m_xdpObject l' = Open_object" "callback_set l'" "m_interfaceIdx l' = if_nametoindex b (m_progInterface l)"
    "0 < m_interfaceIdx l'" "(m_interfaceIdx l', m_xdpFlags l') \<in> set (attached l')"
  using assms find_missing [of "object_has_map b" all_maps]
  by (auto simp: RunProgram_eqs split: if_splits option.splits)

text \<open>A failed run either opened nothing or leaves a closed object behind.\<close>

lemma RunProgram_failure:
  assumes "RunProgram b bin l = Some (Some e, l')" "object_opens b bin"
  shows "m_xdpObject l' = Closed_object"
  using assms by (auto simp: RunProgram_eqs split: if_splits option.splits)

lemma isValidBpfState_success: "RunProgram b bin l = Some (None, l') \<Longrightarrow> isValidBpfState l'"
  by (drule RunProgram_success(2)) (simp add: isValidBpfState_def all_maps_def balancer_maps_def)

end
