(* ===== verification/Reload_Spec.thy ===== *)
theory Reload_Spec
  imports Xdp_Reload
begin

section \<open>What a reload installs\<close>

text \<open>
  The contract of \<open>ReloadConfig\<close>: when every address and neighbour resolves and the configuration
  fits, the half of the double buffer that the XDP program reads afterwards holds exactly the
  configured services and backends, in the layout the schedulers rely on. What an earlier
  configuration left in that half under other keys stays there.
\<close>

definition resolves :: "host \<Rightarrow> balancer_service \<Rightarrow> bool" where
  "resolves h s \<longleftrightarrow>
     prepare_key h s \<noteq> None \<and> (\<forall>r \<in> set (reals s). \<exists>b. prepare_backend h s r = Inr b)"

definition the_key :: "host \<Rightarrow> balancer_service \<Rightarrow> service_key" where
  "the_key h s = the (prepare_key h s)"

definition the_backend :: "host \<Rightarrow> balancer_service \<Rightarrow> balancer_real \<Rightarrow> backend" where
  "the_backend h s r = projr (prepare_backend h s r)"

definition service_backends :: "host \<Rightarrow> balancer_service \<Rightarrow> backend list" where
  "service_backends h s = map (the_backend h s) (reals s)"

definition config_backends :: "host \<Rightarrow> balancer_service list \<Rightarrow> backend list" where
  "config_backends h ss = concat (map (service_backends h) ss)"

text \<open>The services' ranges of the backends array follow one another.\<close>

definition service_start :: "balancer_service list \<Rightarrow> nat \<Rightarrow> nat" where
  "service_start ss i = sum_list (map (\<lambda>s. length (reals s)) (take i ss))"

definition config_infos :: "balancer_service list \<Rightarrow> nat \<Rightarrow> nat \<Rightarrow> service_info list" where
  "config_infos ss start idx =
     map (\<lambda>i. prepare_info (ss ! i) (start + service_start ss i) (idx + i)) [0..<length ss]"

definition serves :: "host \<Rightarrow> balancer_service list \<Rightarrow> xdp_maps \<Rightarrow> bool" where
  "serves h ss st \<longleftrightarrow>
     (\<forall>i < length ss. hash_lookup (services_map st (atomic_index st 0)) (the_key h (ss ! i))
        = Some (prepare_info (ss ! i) (service_start ss i) i))
     \<and> (\<forall>i < length (config_backends h ss).
          backends_map st (atomic_index st 0) i = config_backends h ss ! i)"

subsection \<open>Preparation\<close>

lemma config_infos_Nil [simp]: "config_infos [] start idx = []"
  by (simp add: config_infos_def)

lemma config_infos_Cons:
  "config_infos (s # ss) start idx =
     prepare_info s start idx # config_infos ss (start + length (reals s)) (Suc idx)"
  by (simp add: config_infos_def service_start_def upt_conv_Cons map_Suc_upt [symmetric] add.assoc del: upt_Suc)

lemma length_config_infos [simp]: "length (config_infos ss start idx) = length ss"
  by (simp add: config_infos_def)

lemma prepare_reals_resolved:
  "\<forall>r \<in> set rs. \<exists>b. prepare_backend h s r = Inr b \<Longrightarrow>
     prepare_reals h s rs d = (None, d\<lparr>m_xdpBackends := m_xdpBackends d @ map (the_backend h s) rs\<rparr>)"
  by (induction rs arbitrary: d) (auto simp: the_backend_def)

lemma prepare_services_resolved:
  "\<forall>s \<in> set ss. resolves h s \<Longrightarrow>
     prepare_services h ss start d =
       (None, d\<lparr>m_xdpBackends := m_xdpBackends d @ config_backends h ss,
                m_xdpKeys := m_xdpKeys d @ map (the_key h) ss,
                m_xdpServices := m_xdpServices d @ config_infos ss start (length (m_xdpServices d))\<rparr>)"
proof (induction ss arbitrary: start d)
  case Nil
  then show ?case by (simp add: config_backends_def)
next
  case (Cons s ss)
  have s: "prepare_key h s = Some (the_key h s)" "\<forall>r \<in> set (reals s). \<exists>b. prepare_backend h s r = Inr b"
    using Cons.prems by (auto simp: resolves_def the_key_def)
  show ?case using Cons
    by (simp add: s(1) and_then_def prepare_reals_resolved [OF s(2)] config_infos_Cons
        config_backends_def service_backends_def)
qed

lemma prepare_resolved:
  assumes "\<forall>s \<in> set (services config). resolves h s"
  shows "prepare h config d =
    (None, d\<lparr>dp_currConfig := config, m_xdpBackends := config_backends h (services config),
             m_xdpKeys := map (the_key h) (services config),
             m_xdpServices := config_infos (services config) 0 0\<rparr>)"
  using prepare_services_resolved [OF assms] by (simp add: prepare_def)

text \<open>Preparation alone does not touch the kernel, whether it succeeds or not.\<close>

definition prepared_frame :: "xdp_dataplane \<Rightarrow> xdp_dataplane \<Rightarrow> bool" where
  "prepared_frame d d' \<longleftrightarrow>
     d\<lparr>m_xdpBackends := [], m_xdpKeys := [], m_xdpServices := []\<rparr>
     = d'\<lparr>m_xdpBackends := [], m_xdpKeys := [], m_xdpServices := []\<rparr>"

lemma prepared_frame_simps [simp]:
  "prepared_frame d d" "prepared_frame (d\<lparr>m_xdpBackends := bs\<rparr>) d' = prepared_frame d d'"
  "prepared_frame (d\<lparr>m_xdpKeys := ks\<rparr>) d' = prepared_frame d d'"
  "prepared_frame (d\<lparr>m_xdpServices := is\<rparr>) d' = prepared_frame d d'"
  by (simp_all add: prepared_frame_def)

lemma prepared_frame_trans: "prepared_frame d e \<Longrightarrow> prepared_frame e f \<Longrightarrow> prepared_frame d f"
  by (simp add: prepared_frame_def)

lemma prepare_reals_frame: "prepared_frame d (snd (prepare_reals h s rs d))"
proof (induction rs arbitrary: d)
  case (Cons r rs)
  have "prepared_frame d (snd (prepare_reals h s rs (d\<lparr>m_xdpBackends := bs\<rparr>)))" for bs
    using Cons [of "d\<lparr>m_xdpBackends := bs\<rparr>"] by simp
  then show ?case by (simp split: sum.split)
qed simp

lemma and_then_frame:
  assumes "prepared_frame d (snd (f d))" "\<And>e. prepared_frame e (snd (g e))"
  shows "prepared_frame d (snd (and_then f g d))"
proof -
  obtain r e where "f d = (r, e)" by (rule prod.exhaust)
  then show ?thesis using assms prepared_frame_trans [of d e] by (auto simp: and_then_def split: option.split)
qed

lemma prepare_services_frame: "prepared_frame d (snd (prepare_services h ss start d))"
proof (induction ss arbitrary: start d)
  case (Cons s ss)
  have "prepared_frame e (snd (prepare_services h ss n (e\<lparr>m_xdpServices := is\<rparr>)))" for e n "is"
    using Cons [of "e\<lparr>m_xdpServices := is\<rparr>" n] by simp
  then have "prepared_frame (d\<lparr>m_xdpKeys := ks\<rparr>) (snd (and_then (prepare_reals h s (reals s))
      (\<lambda>d. prepare_services h ss n (d\<lparr>m_xdpServices := f d\<rparr>)) (d\<lparr>m_xdpKeys := ks\<rparr>)))" for ks n f
    by (intro and_then_frame prepare_reals_frame)
  then show ?case by (simp split: option.split)
qed simp

lemma prepared_frame_fields:
  "prepared_frame d d' \<Longrightarrow> kernel d' = kernel d \<and> m_chManager d' = m_chManager d
     \<and> m_isFirstRun d' = m_isFirstRun d \<and> maps_opened d' = maps_opened d"
  by (cases d; cases d') (simp add: prepared_frame_def)

lemma prepare_kernel:
  "kernel (snd (prepare h config d)) = kernel d" "m_chManager (snd (prepare h config d)) = m_chManager d"
  "m_isFirstRun (snd (prepare h config d)) = m_isFirstRun d"
  using prepared_frame_fields [OF prepare_services_frame] by (simp_all add: prepare_def)

subsection \<open>The batch update of the services\<close>

lemma hash_batch_fits:
  "hash_ok n m \<Longrightarrow> length m + length kvs \<le> n \<Longrightarrow>
     \<exists>m'. hash_batch n kvs m = (True, m') \<and> hash_ok n m'
       \<and> (\<forall>k. hash_lookup m' k = (case map_of (rev kvs) k of Some v \<Rightarrow> Some v | None \<Rightarrow> hash_lookup m k))"
proof (induction kvs arbitrary: m)
  case (Cons kv kvs)
  obtain k v where kv: "kv = (k, v)" by (rule prod.exhaust)
  obtain m1 where u: "hash_update n m k v = (True, m1)"
    using Cons.prems(2) by (simp add: hash_update_def)
  have m1: "hash_ok n m1" using hash_ok_update [OF Cons.prems(1) u] .
  have "length m1 \<le> Suc (length m)"
    using u by (cases "map_of m k") (auto simp: hash_update_def update_keys_absent length_update_present split: if_splits)
  then obtain m' where m': "hash_batch n kvs m1 = (True, m')" "hash_ok n m'"
      "\<forall>k. hash_lookup m' k = (case map_of (rev kvs) k of Some v \<Rightarrow> Some v | None \<Rightarrow> hash_lookup m1 k)"
    using Cons.IH [OF m1] Cons.prems(2) by auto
  then show ?case using hash_update_lookup [OF u]
    by (auto simp: kv u map_add_def split: option.split)
qed (auto intro: exI [of _ m])

lemma map_of_rev_distinct: "distinct (map fst xs) \<Longrightarrow> map_of (rev xs) k = map_of xs k"
  by (induction xs) (force simp: map_add_def image_iff dest: map_of_SomeD split: option.split)+

lemma map_of_rev_zip:
  "distinct ks \<Longrightarrow> length ks = length vs \<Longrightarrow> i < length ks \<Longrightarrow> map_of (rev (zip ks vs)) (ks ! i) = Some (vs ! i)"
  by (simp add: map_of_rev_distinct map_of_zip_nth)

subsection \<open>What follows the switch leaves the configuration alone\<close>

definition config_view :: "xdp_maps \<Rightarrow> _" where
  "config_view st =
     (services_first st, services_second st, backends_first st, backends_second st, atomic_index st)"

lemma config_view_fields:
  "config_view st = config_view st' \<Longrightarrow> services_map st = services_map st'"
  "config_view st = config_view st' \<Longrightarrow> backends_map st = backends_map st'"
  "config_view st = config_view st' \<Longrightarrow> atomic_index st = atomic_index st'"
  by (auto simp: config_view_def services_map_def backends_map_def fun_eq_iff)

definition leaves_config :: "phase \<Rightarrow> bool" where
  "leaves_config f \<longleftrightarrow> (\<forall>d. config_view (kernel (snd (f d))) = config_view (kernel d))"

lemma leavesI: "(\<And>d. config_view (kernel (snd (f d))) = config_view (kernel d)) \<Longrightarrow> leaves_config f"
  by (simp add: leaves_config_def)

lemma leavesD: "leaves_config f \<Longrightarrow> config_view (kernel (snd (f d))) = config_view (kernel d)"
  by (simp add: leaves_config_def)

lemma leaves_and_then: "leaves_config f \<Longrightarrow> leaves_config g \<Longrightarrow> leaves_config (and_then f g)"
  unfolding leaves_config_def and_then_def
  by (auto split: prod.split option.split) (metis snd_conv)+

lemma updateChBpfMaps_view: "config_view (snd (updateChBpfMaps f key bs c p m st)) = config_view st"
  by (auto simp: updateChBpfMaps_def config_view_def Let_def split_beta split: prod.split bool.split)

lemma call_bpf_view: "config_view (call_bpf (ch_callback d) key inst st) = config_view st"
  by (simp add: call_bpf_def ch_callback_def updateChBpfMaps_view)

lemma update_ch_service_leaves: "leaves_config (update_ch_service h s)"
  by (rule leavesI)
    (auto simp: update_ch_service_def updateServiceBackends_eq call_bpf_view Let_def
      split: option.split)

lemma update_ch_leaves: "leaves_config (update_ch h ss)"
proof (induction ss)
  case (Cons s ss)
  have "update_ch h (s # ss) = and_then (update_ch_service h s) (update_ch h ss)" by (rule ext) simp
  then show ?case by (simp add: leaves_and_then update_ch_service_leaves Cons)
qed (simp add: leaves_config_def)

lemma reset_stats_leaves: "leaves_config reset_stats"
proof -
  have b: "config_view (kernel (snd (reset_backend_stats i n d))) = config_view (kernel d)" for i n d
    by (induction n arbitrary: i d)
      (auto simp: in_kernel_def config_view_def split: prod.split bool.split)
  have s: "config_view (kernel (snd (reset_service_stats ks d))) = config_view (kernel d)" for ks d
    by (induction ks arbitrary: d)
      (auto simp: in_kernel_def config_view_def split: prod.split bool.split)
  have k: "leaves_config (and_then (reset_backend_stats 0 n) (\<lambda>d. reset_service_stats (m_xdpKeys d) d))" for n
    using b s by (intro leaves_and_then leavesI)
  show ?thesis by (rule leavesI) (simp add: reset_stats_def leavesD [OF k])
qed

lemma after_switch_leaves: "leaves_config (after_switch h config)"
proof -
  have "leaves_config reset_rr" "leaves_config reset_wrr" "leaves_config clear_sessions"
    by (auto simp: leaves_config_def reset_rr_def reset_wrr_def clear_sessions_def in_kernel_def
        config_view_def split_beta Let_def)
  then show ?thesis unfolding after_switch_def
    by (intro leaves_and_then update_ch_leaves reset_stats_leaves)
qed

subsection \<open>The installed configuration\<close>

text \<open>What the configuration does not name, an array or a map keeps.\<close>

definition elsewhere :: "host \<Rightarrow> balancer_service list \<Rightarrow> (service_key, service_info) bpf_hash \<Rightarrow> xdp_maps \<Rightarrow> bool" where
  "elsewhere h ss old st \<longleftrightarrow>
     (\<forall>k. k \<notin> the_key h ` set ss \<longrightarrow>
        hash_lookup (services_map st (atomic_index st 0)) k = hash_lookup old k)"

text \<open>The half that is written, by the control plane's low byte of the index.\<close>

definition standby :: "xdp_dataplane \<Rightarrow> u8" where
  "standby d = (if m_isFirstRun d then 0 else ucast (atomic_index (kernel d) 0))"

definition standby_services :: "xdp_dataplane \<Rightarrow> (service_key, service_info) bpf_hash" where
  "standby_services d = (if standby d = 0 then services_second (kernel d) else services_first (kernel d))"

definition fits :: "host \<Rightarrow> base_config \<Rightarrow> xdp_dataplane \<Rightarrow> bool" where
  "fits h config d \<longleftrightarrow>
     (\<forall>s \<in> set (services config). resolves h s)
     \<and> distinct (map (the_key h) (services config))
     \<and> length (standby_services d) + length (services config) \<le> MAX_SERVICES
     \<and> length (config_backends h (services config)) \<le> MAX_BACKENDS"

lemma read_index_standby: "read_index d = (Inr (standby d), d\<lparr>m_isFirstRun := False\<rparr>)"
  by (auto simp: read_index_def standby_def array_lookup_def)

lemma load_ddos_total:
  "\<exists>c. load_ddos config d = (None, in_kernel (\<lambda>st. st\<lparr>ddos_cfg := c\<rparr>) d)"
  by (auto simp: load_ddos_def array_update_def in_kernel_def Let_def split: option.split
      intro: exI [of _ "ddos_cfg (kernel d)"])

lemma index_word_switch:
  "rest_of_index h = 0 \<Longrightarrow> index_word h 0 = 1" "rest_of_index h = 0 \<Longrightarrow> index_word h 1 = 0"
  by (simp_all add: index_word_def)

subsection \<open>The half that is not in use\<close>

definition other_half :: "u8 \<Rightarrow> u64" where
  "other_half index = (if index = 0 then 1 else 0)"

definition half_backends :: "u8 \<Rightarrow> backend bpf_array \<Rightarrow> xdp_maps \<Rightarrow> xdp_maps" where
  "half_backends index m st = (if index = 0 then st\<lparr>backends_second := m\<rparr> else st\<lparr>backends_first := m\<rparr>)"

definition half_services :: "u8 \<Rightarrow> (service_key, service_info) bpf_hash \<Rightarrow> xdp_maps \<Rightarrow> xdp_maps" where
  "half_services index m st = (if index = 0 then st\<lparr>services_second := m\<rparr> else st\<lparr>services_first := m\<rparr>)"

definition half_switched :: "u8 \<Rightarrow> xdp_maps \<Rightarrow> xdp_maps" where
  "half_switched index st = st\<lparr>atomic_index := (atomic_index st)(0 := other_half index)\<rparr>"

lemmas half_defs = half_backends_def half_services_def half_switched_def other_half_def

lemma half_views [simp]:
  "backends_map (half_backends i m st) (other_half i) = m"
  "services_map (half_services i n st) (other_half i) = n"
  "services_map (half_backends i m st) = services_map st"
  "backends_map (half_services i n st) = backends_map st"
  "services_map (half_switched i st) = services_map st" "backends_map (half_switched i st) = backends_map st"
  "atomic_index (half_backends i m st) = atomic_index st" "atomic_index (half_services i n st) = atomic_index st"
  "atomic_index (half_switched i st) 0 = other_half i"
  "rr_index (half_backends i m st) = rr_index st" "rr_index (half_services i n st) = rr_index st"
  "rr_index (half_switched i st) = rr_index st"
  by (auto simp: half_defs services_map_def backends_map_def fun_eq_iff)

lemma half_kept:
  "j = 0 \<longleftrightarrow> i = 0 \<Longrightarrow> backends_map (half_backends i m st) j = backends_map st j"
  "j = 0 \<longleftrightarrow> i = 0 \<Longrightarrow> services_map (half_services i n st) j = services_map st j"
  by (auto simp: half_defs services_map_def backends_map_def)

lemma standby_services_half: "standby_services d = services_map (kernel d) (other_half (standby d))"
  by (simp add: standby_services_def services_map_def other_half_def)

definition loaded_backends :: "host \<Rightarrow> balancer_service list \<Rightarrow> backend bpf_array \<Rightarrow> bool" where
  "loaded_backends h ss m \<longleftrightarrow> (\<forall>i < length (config_backends h ss). m i = config_backends h ss ! i)"

definition loaded_services ::
    "host \<Rightarrow> balancer_service list \<Rightarrow> (service_key, service_info) bpf_hash \<Rightarrow> (service_key, service_info) bpf_hash \<Rightarrow> bool"
where
  "loaded_services h ss old m \<longleftrightarrow>
     (\<forall>i < length ss. hash_lookup m (the_key h (ss ! i)) = Some (prepare_info (ss ! i) (service_start ss i) i))
     \<and> (\<forall>k. k \<notin> the_key h ` set ss \<longrightarrow> hash_lookup m k = hash_lookup old k)"

lemma serves_loaded:
  "serves h ss st \<and> elsewhere h ss old st \<longleftrightarrow>
     loaded_services h ss old (services_map st (atomic_index st 0))
     \<and> loaded_backends h ss (backends_map st (atomic_index st 0))"
  by (auto simp: serves_def elsewhere_def loaded_services_def loaded_backends_def)

lemma load_backends_fits:
  assumes "m_xdpBackends d = config_backends h ss" "length (config_backends h ss) \<le> MAX_BACKENDS"
  obtains m where "load_backends i d = (None, in_kernel (half_backends i m) d)" "loaded_backends h ss m"
proof -
  let ?m = "\<lambda>m j. if j < length (config_backends h ss) then config_backends h ss ! j else (m :: backend bpf_array) j"
  have "write_slots MAX_BACKENDS 0 (config_backends h ss) m = (True, ?m m)" for m
    using assms(2) by (subst write_slots_fits) (auto simp: max_defs fun_eq_iff)
  then show ?thesis
    by (intro that [of "?m (backends_map (kernel d) (other_half i))"]; cases "i = 0")
      (simp_all add: load_backends_def assms(1) half_defs in_kernel_def backends_map_def loaded_backends_def cong: if_cong)
qed

lemma load_services_fits:
  assumes ok: "hash_ok MAX_SERVICES (services_map (kernel d) (other_half i))"
    and keys: "m_xdpKeys d = map (the_key h) ss" "m_xdpServices d = config_infos ss 0 0"
    and room: "distinct (map (the_key h) ss)" "length (services_map (kernel d) (other_half i)) + length ss \<le> MAX_SERVICES"
  obtains m where "load_services i d = (None, in_kernel (half_services i m) d)"
    "loaded_services h ss (services_map (kernel d) (other_half i)) m"
proof -
  let ?kvs = "zip (map (the_key h) ss) (config_infos ss 0 0)" and ?old = "services_map (kernel d) (other_half i)"
  from hash_batch_fits [OF ok, of ?kvs] room(2) obtain m where
    m: "hash_batch MAX_SERVICES ?kvs ?old = (True, m)"
      "\<And>k. hash_lookup m k = (case map_of (rev ?kvs) k of Some v \<Rightarrow> Some v | None \<Rightarrow> hash_lookup ?old k)"
    by auto
  have "hash_lookup m (the_key h (ss ! j)) = Some (prepare_info (ss ! j) (service_start ss j) j)"
    if "j < length ss" for j
    using map_of_rev_zip [OF room(1), of "config_infos ss 0 0" j] that m(2) [of "the_key h (ss ! j)"]
    by (simp add: config_infos_def)
  moreover have "hash_lookup m k = hash_lookup ?old k" if "k \<notin> the_key h ` set ss" for k
  proof -
    have "map_of (rev ?kvs) k = None" using that by (auto simp: map_of_eq_None_iff dest: set_zip_leftD)
    then show ?thesis by (simp add: m(2))
  qed
  ultimately have "loaded_services h ss ?old m" by (simp add: loaded_services_def)
  moreover have "load_services i d = (None, in_kernel (half_services i m) d)"
    using m(1) by (cases "i = 0") (simp_all add: load_services_def keys half_defs in_kernel_def services_map_def)
  ultimately show ?thesis using that by blast
qed

lemma switch_index_half:
  assumes "index = 0 \<or> index = 1" "rest_of_index h = 0"
  shows "switch_index h index d = (None, in_kernel (half_switched index) d)"
  using assms index_word_switch by (auto simp: switch_index_def half_defs array_update_def in_kernel_def)

text \<open>
  When everything fits, the phases up to the switch succeed, and the half they switch to holds
  the configuration.
\<close>

lemma write_config_switches:
  assumes ok: "maps_ok (kernel d)" and idx: "standby d = 0 \<or> standby d = 1" and rest: "rest_of_index h = 0"
    and keys: "m_xdpKeys d = map (the_key h) ss" and bs: "m_xdpBackends d = config_backends h ss"
    and infos: "m_xdpServices d = config_infos ss 0 0" and dist: "distinct (map (the_key h) ss)"
    and room: "length (standby_services d) + length ss \<le> MAX_SERVICES"
      "length (config_backends h ss) \<le> MAX_BACKENDS"
  obtains e where "write_config h config d = after_switch h config e" "serves h ss (kernel e)"
    "elsewhere h ss (standby_services d) (kernel e)" "atomic_index (kernel e) 0 = other_half (standby d)"
    "rr_index (kernel e) = rr_index (kernel d)" "m_xdpKeys e = m_xdpKeys d"
    "m_xdpBackends e = m_xdpBackends d" "m_chManager e = m_chManager d" "maps_opened e = maps_opened d"
    "dataplane_ok d \<longrightarrow> dataplane_ok e"
proof -
  let ?i = "standby d"
  define d1 where "d1 = d\<lparr>m_isFirstRun := False\<rparr>"
  obtain bm where b: "load_backends ?i d1 = (None, in_kernel (half_backends ?i bm) d1)" "loaded_backends h ss bm"
    by (rule load_backends_fits [of d1 h ss ?i]) (use bs room(2) in \<open>simp_all add: d1_def\<close>)
  define d2 where "d2 = in_kernel (half_backends ?i bm) d1"
  have d2: "services_map (kernel d2) (other_half ?i) = standby_services d"
    by (simp add: d2_def d1_def in_kernel_def standby_services_half)
  have "hash_ok MAX_SERVICES (standby_services d)" using ok by (simp add: maps_ok_def standby_services_def)
  then obtain sm where s: "load_services ?i d2 = (None, in_kernel (half_services ?i sm) d2)"
      "loaded_services h ss (standby_services d) sm"
    by (rule load_services_fits [of d2 ?i h ss, unfolded d2])
      (use keys infos dist room in \<open>simp_all add: d2_def d1_def in_kernel_def\<close>)
  define e where "e = in_kernel (half_switched ?i) (in_kernel (half_services ?i sm) d2)"
  have "write_config h config d = after_switch h config e"
    by (simp add: write_config_def read_index_standby d1_def [symmetric] and_then_def load_half_def b(1)
        d2_def [symmetric] s(1) switch_index_half [OF idx rest] e_def)
  moreover have "serves h ss (kernel e) \<and> elsewhere h ss (standby_services d) (kernel e)"
    unfolding serves_loaded using b(2) s(2) by (simp add: e_def d2_def in_kernel_def)
  moreover have "dataplane_ok e" if "dataplane_ok d"
  proof -
    have "dataplane_ok d1" using that by (simp add: d1_def dataplane_ok_def)
    from keepsD [OF switch_index_keeps keepsD [OF load_services_keeps keepsD [OF load_backends_keeps this]]]
    have "dataplane_ok (snd (switch_index h ?i (snd (load_services ?i (snd (load_backends ?i d1))))))" .
    then show ?thesis by (simp add: b(1) d2_def [symmetric] s(1) switch_index_half [OF idx rest] e_def)
  qed
  ultimately show ?thesis
    using that [of e] by (simp add: e_def d2_def d1_def in_kernel_def)
qed

text \<open>The reload as a whole, in terms of the phases after the switch.\<close>

lemma ReloadConfig_switches:
  assumes opened: "maps_opened d" and ok: "maps_ok (kernel d)" and idx: "standby d = 0 \<or> standby d = 1"
    and rest: "rest_of_index h = 0" and fits: "fits h config d"
  obtains e where "ReloadConfig h config d = after_switch h config e" "serves h (services config) (kernel e)"
    "elsewhere h (services config) (standby_services d) (kernel e)"
    "atomic_index (kernel e) 0 = (if standby d = 0 then 1 else 0)"
    "rr_index (kernel e) = rr_index (kernel d)" "m_xdpKeys e = map (the_key h) (services config)"
    "m_xdpBackends e = config_backends h (services config)" "m_chManager e = m_chManager d" "maps_opened e"
    "host_ok h \<longrightarrow> dataplane_ok d \<longrightarrow> dataplane_ok e"
proof -
  let ?d1 = "d\<lparr>dp_currConfig := config, m_xdpBackends := config_backends h (services config),
             m_xdpKeys := map (the_key h) (services config),
             m_xdpServices := config_infos (services config) 0 0\<rparr>"
  obtain c where c: "load_ddos config ?d1 = (None, in_kernel (\<lambda>st. st\<lparr>ddos_cfg := c\<rparr>) ?d1)"
    using load_ddos_total by blast
  let ?d2 = "in_kernel (\<lambda>st. st\<lparr>ddos_cfg := c\<rparr>) ?d1"
  have run: "ReloadConfig h config d = write_config h config ?d2"
    using fits opened c by (simp add: ReloadConfig_def and_then_def prepare_resolved fits_def)
  have s: "standby ?d2 = standby d" "standby_services ?d2 = standby_services d"
    by (simp_all add: standby_def standby_services_def in_kernel_def)
  have k: "rr_index (kernel ?d2) = rr_index (kernel d)" "m_xdpKeys ?d2 = map (the_key h) (services config)"
      "m_xdpBackends ?d2 = config_backends h (services config)" "m_xdpServices ?d2 = config_infos (services config) 0 0"
    by (simp_all add: in_kernel_def)
  have ok2: "maps_ok (kernel ?d2)" using ok by (simp add: in_kernel_def maps_ok_def)
  have fit: "distinct (map (the_key h) (services config))"
      "length (standby_services ?d2) + length (services config) \<le> MAX_SERVICES"
      "length (config_backends h (services config)) \<le> MAX_BACKENDS"
    using fits by (simp_all only: fits_def s)
  obtain e where "write_config h config ?d2 = after_switch h config e" "serves h (services config) (kernel e)"
    "elsewhere h (services config) (standby_services ?d2) (kernel e)"
    "atomic_index (kernel e) 0 = other_half (standby ?d2)"
    "rr_index (kernel e) = rr_index (kernel ?d2)" "m_xdpKeys e = m_xdpKeys ?d2"
    "m_xdpBackends e = m_xdpBackends ?d2" "m_chManager e = m_chManager ?d2" "maps_opened e = maps_opened ?d2"
    "dataplane_ok ?d2 \<longrightarrow> dataplane_ok e"
    by (rule write_config_switches [OF ok2 idx [folded s(1)] rest k(2-4) fit])
  moreover have "dataplane_ok ?d2" if "host_ok h" "dataplane_ok d"
  proof -
    have "snd (prepare h config d) = ?d1" using fits by (simp add: prepare_resolved fits_def)
    then have "dataplane_ok ?d1" using keepsD [OF prepare_keeps [OF that(1)] that(2), of config] by simp
    from keepsD [OF load_ddos_keeps this, of config] show ?thesis by (simp add: c)
  qed
  ultimately show ?thesis using that run s k opened by (simp add: other_half_def in_kernel_def)
qed

text \<open>
  Every outcome of the phases after the switch leaves the configuration installed: the switch
  itself is the last one that can prevent it.
\<close>

lemma ReloadConfig_installs:
  assumes opened: "maps_opened d" and ok: "maps_ok (kernel d)" and idx: "standby d = 0 \<or> standby d = 1"
    and rest: "rest_of_index h = 0" and fits: "fits h config d"
  shows "serves h (services config) (kernel (snd (ReloadConfig h config d)))"
    and "atomic_index (kernel (snd (ReloadConfig h config d))) 0 = (if standby d = 0 then 1 else 0)"
    and "elsewhere h (services config) (standby_services d) (kernel (snd (ReloadConfig h config d)))"
proof -
  obtain e where e: "ReloadConfig h config d = after_switch h config e" "serves h (services config) (kernel e)"
    "elsewhere h (services config) (standby_services d) (kernel e)" "atomic_index (kernel e) 0 = (if standby d = 0 then 1 else 0)"
    by (rule ReloadConfig_switches [OF assms])
  have view: "config_view (kernel (snd (ReloadConfig h config d))) = config_view (kernel e)"
    unfolding e(1) by (rule leavesD [OF after_switch_leaves])
  show "serves h (services config) (kernel (snd (ReloadConfig h config d)))"
    "atomic_index (kernel (snd (ReloadConfig h config d))) 0 = (if standby d = 0 then 1 else 0)"
    "elsewhere h (services config) (standby_services d) (kernel (snd (ReloadConfig h config d)))"
    using e(2-4) config_view_fields [OF view] by (simp_all add: serves_def elsewhere_def)
qed

subsection \<open>What becomes of the weighted cursors\<close>

text \<open>They are all removed, unless a map of round-robin cursors that is full stops the reload before.\<close>

definition leaves_wrr :: "phase \<Rightarrow> bool" where
  "leaves_wrr f \<longleftrightarrow> (\<forall>d. wrr_state_map (kernel (snd (f d))) = wrr_state_map (kernel d))"

lemma leaves_wrrI: "(\<And>d. wrr_state_map (kernel (snd (f d))) = wrr_state_map (kernel d)) \<Longrightarrow> leaves_wrr f"
  by (simp add: leaves_wrr_def)

lemma leaves_wrr_and_then: "leaves_wrr f \<Longrightarrow> leaves_wrr g \<Longrightarrow> leaves_wrr (and_then f g)"
  unfolding leaves_wrr_def and_then_def
  by (auto split: prod.split option.split) (metis snd_conv)+

lemma call_bpf_wrr: "wrr_state_map (call_bpf (ch_callback d) key inst st) = wrr_state_map st"
proof -
  have "wrr_state_map (snd (updateChBpfMaps f key bs c q m st)) = wrr_state_map st" for f bs c q m
    by (auto simp: updateChBpfMaps_def Let_def split_beta split: prod.split bool.split)
  then show ?thesis by (simp add: call_bpf_def ch_callback_def)
qed

lemma update_ch_wrr: "leaves_wrr (update_ch h ss)"
proof (induction ss)
  case (Cons s ss)
  have "leaves_wrr (update_ch_service h s)"
    by (rule leaves_wrrI)
      (auto simp: update_ch_service_def updateServiceBackends_eq call_bpf_wrr Let_def split: option.split)
  moreover have "update_ch h (s # ss) = and_then (update_ch_service h s) (update_ch h ss)" by (rule ext) simp
  ultimately show ?case by (simp add: leaves_wrr_and_then Cons)
qed (simp add: leaves_wrr_def)

lemma reset_stats_wrr: "leaves_wrr reset_stats"
proof -
  have b: "wrr_state_map (kernel (snd (reset_backend_stats i n d))) = wrr_state_map (kernel d)" for i n d
    by (induction n arbitrary: i d) (auto simp: in_kernel_def split: prod.split bool.split)
  have s: "wrr_state_map (kernel (snd (reset_service_stats ks d))) = wrr_state_map (kernel d)" for ks d
    by (induction ks arbitrary: d) (auto simp: in_kernel_def split: prod.split bool.split)
  have "leaves_wrr (and_then (reset_backend_stats 0 n) (\<lambda>d. reset_service_stats (m_xdpKeys d) d))" for n
    using b s by (intro leaves_wrr_and_then leaves_wrrI)
  then show ?thesis by (simp add: leaves_wrr_def reset_stats_def)
qed

lemma after_switch_resets:
  assumes "hash_ok MAX_SERVICES (rr_index (kernel e))"
    and "length (rr_index (kernel e)) + length (m_xdpKeys e) \<le> MAX_SERVICES"
  shows "wrr_state_map (kernel (snd (after_switch h config e))) = []"
proof -
  let ?rest = "and_then (update_ch h (services config)) (and_then clear_sessions reset_stats)"
  obtain m where "hash_batch MAX_SERVICES (map (\<lambda>k. (k, 0)) (m_xdpKeys e)) (rr_index (kernel e)) = (True, m)"
    using hash_batch_fits [OF assms(1), of "map (\<lambda>k. (k, 0)) (m_xdpKeys e)"] assms(2) by auto
  then have "after_switch h config e =
      ?rest (in_kernel (\<lambda>st. st\<lparr>rr_index := m, wrr_state_map := []\<rparr>) e)"
    by (simp add: after_switch_def and_then_def reset_rr_def reset_wrr_def in_kernel_def)
  moreover have "leaves_wrr ?rest"
    by (intro leaves_wrr_and_then update_ch_wrr reset_stats_wrr leaves_wrrI)
      (simp add: clear_sessions_def in_kernel_def)
  ultimately show ?thesis by (simp add: leaves_wrr_def in_kernel_def)
qed

lemma ReloadConfig_resets:
  assumes "maps_opened d" "maps_ok (kernel d)" "standby d = 0 \<or> standby d = 1" "rest_of_index h = 0"
    and "fits h config d" "length (rr_index (kernel d)) + length (services config) \<le> MAX_SERVICES"
  shows "wrr_state_map (kernel (snd (ReloadConfig h config d))) = []"
proof -
  obtain e where "ReloadConfig h config d = after_switch h config e"
    "rr_index (kernel e) = rr_index (kernel d)" "m_xdpKeys e = map (the_key h) (services config)"
    by (rule ReloadConfig_switches [OF assms(1-5)])
  then show ?thesis using after_switch_resets [of e] assms(2,6) by (simp add: maps_ok_def)
qed

subsection \<open>A reload that reports success\<close>

text \<open>
  The last phase takes the first four bytes of every service key for an index of 256 entries. A
  success so tells that all of them are small.
\<close>

definition keeps_keys :: "phase \<Rightarrow> bool" where
  "keeps_keys f \<longleftrightarrow> (\<forall>d. m_xdpKeys (snd (f d)) = m_xdpKeys d)"

lemma keeps_keysI: "(\<And>d. m_xdpKeys (snd (f d)) = m_xdpKeys d) \<Longrightarrow> keeps_keys f"
  by (simp add: keeps_keys_def)

lemma and_then_None:
  "fst (and_then f g d) = None \<longleftrightarrow> fst (f d) = None \<and> fst (g (snd (f d))) = None"
  by (cases "f d") (simp add: and_then_def split: option.split)

lemma keeps_keys_and_then: "keeps_keys f \<Longrightarrow> keeps_keys g \<Longrightarrow> keeps_keys (and_then f g)"
  unfolding keeps_keys_def and_then_def
  by (auto split: prod.split option.split) (metis snd_conv)+

lemma update_ch_keys: "keeps_keys (update_ch h ss)"
proof (induction ss)
  case (Cons s ss)
  have "keeps_keys (update_ch_service h s)"
    by (rule keeps_keysI) (auto simp: update_ch_service_def Let_def split: option.split prod.split)
  moreover have "update_ch h (s # ss) = and_then (update_ch_service h s) (update_ch h ss)" by (rule ext) simp
  ultimately show ?case by (simp add: keeps_keys_and_then Cons)
qed (simp add: keeps_keys_def)

lemma reset_service_stats_None:
  "fst (reset_service_stats ks d) = None \<Longrightarrow> \<forall>k \<in> set ks. unat (vip4 k) < MAX_SERVICES"
  by (induction ks arbitrary: d) (auto simp: percpu_update_def split: if_splits)

lemma after_switch_None:
  assumes "fst (after_switch h config e) = None"
  shows "\<forall>k \<in> set (m_xdpKeys e). unat (vip4 k) < MAX_SERVICES"
proof -
  have "m_xdpKeys (snd (reset_backend_stats i n d)) = m_xdpKeys d" for i n d
    by (induction n arbitrary: i d) (auto simp: in_kernel_def split: prod.split bool.split)
  moreover have "m_xdpKeys (snd (reset_rr d)) = m_xdpKeys d" "m_xdpKeys (snd (reset_wrr d)) = m_xdpKeys d"
    "m_xdpKeys (snd (clear_sessions d)) = m_xdpKeys d" "m_xdpKeys (snd (update_ch h ss d)) = m_xdpKeys d" for d ss
    using update_ch_keys [of h ss]
    by (simp_all add: keeps_keys_def reset_rr_def reset_wrr_def clear_sessions_def in_kernel_def split_beta Let_def)
  ultimately show ?thesis
    using assms by (auto simp: after_switch_def and_then_None reset_stats_def dest!: reset_service_stats_None)
qed

lemma prepare_key_v4:
  "srv_ip_version s = 4 \<Longrightarrow> inet_aton h (srv_vip s) = Some a \<Longrightarrow> vip4 (the_key h s) = a"
  by (simp add: the_key_def prepare_key_def vip4_def Let_def)

text \<open>An error before anything is written.\<close>

lemma ReloadConfig_refused:
  assumes "fst (prepare h config d) \<noteq> None"
  shows "fst (ReloadConfig h config d) \<noteq> None \<and> kernel (snd (ReloadConfig h config d)) = kernel d"
proof -
  obtain e d' where "prepare h config d = (Some e, d')" using assms by (cases "prepare h config d") auto
  then show ?thesis using prepare_kernel(1) [of h config d] by (simp add: ReloadConfig_def and_then_def)
qed

lemma prepare_reals_unresolved:
  "\<exists>r \<in> set rs. \<forall>b. prepare_backend h s r \<noteq> Inr b \<Longrightarrow> fst (prepare_reals h s rs d) \<noteq> None"
proof (induction rs arbitrary: d)
  case (Cons r rs)
  then show ?case by (cases "prepare_backend h s r") auto
qed simp

lemma prepare_unresolved:
  assumes "\<not> resolves h s" "s \<in> set (services config)"
  shows "fst (prepare h config d) \<noteq> None"
proof -
  have "fst (prepare_services h ss start e) \<noteq> None" if "s \<in> set ss" for ss start e
    using that
  proof (induction ss arbitrary: start e)
    case (Cons t ss)
    show ?case
    proof (cases "prepare_key h t")
      case (Some key)
      have "fst (prepare_reals h t (reals t) e') \<noteq> None" if "t = s" for e'
        by (rule prepare_reals_unresolved) (use assms(1) that Some in \<open>auto simp: resolves_def\<close>)
      then show ?thesis using Cons Some by (cases "t = s") (simp_all add: and_then_None del: not_None_eq)
    qed simp
  qed simp
  then show ?thesis using assms(2) by (simp add: prepare_def)
qed

end
