(* ===== verification/Session_Affinity.thy ===== *)
theory Session_Affinity
  imports Session_Accounting
begin

section \<open>A flow keeps its backend\<close>

text \<open>
  What one packet does to the session of its own flow and of every other flow, and what that
  gives for a whole sequence of packets of many flows, with an unchanged configuration.
\<close>

subsection \<open>Other flows\<close>

lemma session_phase_other:
  "session_phase env bm k st = (lv, st') \<Longrightarrow> j \<noteq> k \<Longrightarrow>
     hash_lookup (tcp_session_state st') j = hash_lookup (tcp_session_state st) j"
  by (auto simp: session_phase_def Let_def map_simps split: option.splits if_splits)

lemma new_session_phase_other:
  assumes "new_session_phase env k key len sm bm lv st = (found, st')" and "j \<noteq> k"
  shows "hash_lookup (tcp_session_state st') j = hash_lookup (tcp_session_state st) j"
proof (cases "hash_lookup sm key")
  case None
  then show ?thesis using assms(1) by (simp add: new_session_phase_def)
next
  case (Some info)
  obtain r l s where t: "tcp_schedule env k key len bm info (last_backend_index lv) st = (r, l, s)"
    by (metis prod_cases3)
  have upd: "hash_lookup (snd (hash_update n m k v)) j = hash_lookup m j"
    for n v and m :: "(session_state_key, session_state_val) bpf_hash"
    using hash_update_lookup [OF prod.collapse [symmetric], of n m k v j] assms(2) by simp
  show ?thesis
    using assms(1) Some t tcp_schedule_step(2) [OF t]
    by (auto simp: new_session_phase_def upd split: option.splits)
qed

lemma close_phase_other:
  "close_phase k tcp lv st = (lv', st') \<Longrightarrow> j \<noteq> k \<Longrightarrow>
     hash_lookup (tcp_session_state st') j = hash_lookup (tcp_session_state st) j"
  by (auto simp: close_phase_def map_simps split: if_splits)

lemma find_tcp_backend_other:
  assumes ok: "maps_ok st" "sessions_ok st" and j: "j \<noteq> sk"
    and f: "find_tcp_backend env sk key tcp len st = (r, st')"
  shows "hash_lookup (tcp_session_state st') j = hash_lookup (tcp_session_state st) j"
proof -
  have look: "hash_lookup (tcp_session_state s) j = hash_lookup (tcp_session_state st) j"
    if "tcp_lookup env bm sk tcp st = (lv, s)" for bm lv s
    using that session_phase_other [OF _ j] by (auto simp: tcp_lookup_def split: if_splits)
  from ok f show ?thesis
  proof (cases rule: find_tcp_cases)
    case (Live lv s lv' s')
    then show ?thesis using look [OF Live(1)] close_phase_other [OF Live(7) j]
      by (simp add: tcp_stats_phase_step)
  next
    case (New s lv s')
    then show ?thesis using look [OF New(1)] new_session_phase_other [OF New(3) j]
      by (simp add: tcp_stats_phase_step)
  next
    case (Nothing s)
    then show ?thesis using look [OF Nothing(1)] new_session_phase_other [OF Nothing(2) j] by simp
  qed
qed

subsection \<open>The flow's own packets\<close>

text \<open>A packet of a live session goes to the session's backend and refreshes or ends it.\<close>

lemma find_tcp_backend_live:
  assumes look: "hash_lookup (tcp_session_state st) sk = Some v"
    and idx: "unat (ss_backend_idx v) < MAX_BACKENDS"
    and tcp: "\<not> pure_syn tcp" and age: "\<not> ktime_hit env - created v > timeout v"
    and f: "find_tcp_backend env sk key tcp len st = (r, st')"
  shows "r = Some (backends_map st (atomic_index st 0) (unat (ss_backend_idx v)))"
    and "hash_lookup (tcp_session_state st') sk =
      (if fin tcp \<or> rst tcp then None else Some (v\<lparr>created := ktime_hit env\<rparr>))"
proof -
  let ?bm = "backends_map st (atomic_index st 0)"
  have bm: "array_lookup MAX_BACKENDS ?bm (ss_backend_idx v) = Some (?bm (unat (ss_backend_idx v)))"
    using idx by (simp add: array_lookup_def)
  have "tcp_lookup env ?bm sk tcp st =
      (\<lparr>lv_backend = Some (?bm (unat (ss_backend_idx v))), state_backend = True,
        last_backend_index = ss_backend_idx v, service_idx_for_stats = ss_service_idx v, conn_delta = 0\<rparr>,
       st\<lparr>tcp_session_state := hash_write (tcp_session_state st) sk (v\<lparr>created := ktime_hit env\<rparr>)\<rparr>)"
    using look tcp age by (simp add: tcp_lookup_def session_phase_def bm)
  then have "r = Some (?bm (unat (ss_backend_idx v))) \<and>
      hash_lookup (tcp_session_state st') sk =
        (if fin tcp \<or> rst tcp then None else Some (v\<lparr>created := ktime_hit env\<rparr>))"
    using f look
    by (auto simp: find_tcp_backend_eq close_phase_def tcp_stats_phase_step map_simps)
  then show "r = Some (?bm (unat (ss_backend_idx v)))"
    "hash_lookup (tcp_session_state st') sk =
      (if fin tcp \<or> rst tcp then None else Some (v\<lparr>created := ktime_hit env\<rparr>))" by blast+
qed

text \<open>The backend a new session gets, and the entry that records it.\<close>

lemma tcp_schedule_backend:
  assumes "tcp_schedule env sk key len bm info l st = (Some b, l', st')"
  shows "b = (if algorithm info = BALANCER_CH then ch_backends st (unat l') else bm (unat l'))"
  using assms
proof (cases rule: tcp_schedule_cases)
  case RR
  then show ?thesis using array_lookup_eq rr.loop_bounded [OF RR(1)]
    by (auto simp: balancer_alg_defs)
next
  case WRR
  then show ?thesis using array_lookup_eq wrr.loop_bounded [OF WRR(1)]
    by (auto simp: balancer_alg_defs)
next
  case (CH h)
  then show ?thesis using ch_balancer_slot(1) [OF CH(1)] by simp
qed simp

lemma tcp_schedule_in_service:
  assumes "tcp_schedule env sk key len bm info l st = (Some b, l', st')"
    and "info_ok info" "algorithm info = BALANCER_WRR \<Longrightarrow> wrr_cursor_ok info key st" "algorithm info \<noteq> BALANCER_CH"
  shows "in_service info l' \<and> b = bm (unat l') \<and> active b \<noteq> 0"
  using assms(1)
proof (cases rule: tcp_schedule_cases)
  case RR
  show ?thesis by (rule rr.loop_in_service [OF assms(2) TrueI RR(1)])
next
  case WRR
  show ?thesis by (rule wrr.loop_in_service [OF assms(2,3) WRR(1)]) (rule WRR(2))
next
  case (CH h)
  then show ?thesis using assms(4) by simp
qed simp

lemma find_tcp_backend_syn:
  assumes ok: "maps_ok st" "sessions_ok st" and syn: "pure_syn tcp"
    and f: "find_tcp_backend env sk key tcp len st = (Some b, st')"
  obtains info i t where
    "hash_lookup (services_map st (atomic_index st 0)) key = Some info"
    "tcp_schedule env sk key len (backends_map st (atomic_index st 0)) info 0 st = (Some b, i, t)"
    "unat i < MAX_BACKENDS" "active b \<noteq> 0"
    "b = (if algorithm info = BALANCER_CH then ch_backends st (unat i)
          else backends_map st (atomic_index st 0) (unat i))"
    "hash_lookup (tcp_session_state st) sk \<noteq> None \<or> length (tcp_session_state st) < MAX_SESSIONS \<longrightarrow>
     hash_lookup (tcp_session_state st') sk =
       Some \<lparr>ss_backend_idx = i, ss_service_idx = service_idx info, created = ktime_new env,
             timeout = TCP_STATE_TIMEOUT\<rparr>"
  using ok f
proof (cases rule: find_tcp_cases)
  case (Live lv s lv' s')
  then show ?thesis using syn by simp
next
  case (New s lv s')
  have s: "s = st" using tcp_lookup_step(6) [OF ok New(1) syn] by simp
  obtain info where info: "hash_lookup (services_map st (atomic_index st 0)) key = Some info"
    using New(3) by (auto simp: new_session_phase_def split: option.splits)
  obtain r l t where sched: "tcp_schedule env sk key len (backends_map st (atomic_index st 0)) info 0 st = (r, l, t)"
    by (metis prod_cases3)
  let ?v = "\<lparr>ss_backend_idx = l, ss_service_idx = service_idx info, created = ktime_new env,
             timeout = TCP_STATE_TIMEOUT\<rparr>"
  have r: "r = Some b"
      "s' = t\<lparr>tcp_session_state := snd (hash_update MAX_SESSIONS (tcp_session_state t) sk ?v)\<rparr>"
    using New(3,4) info sched by (auto simp: new_session_phase_def tcp_start_def s split: option.splits)
  have sess: "tcp_session_state t = tcp_session_state st" by (rule tcp_schedule_step(2) [OF sched])
  have "hash_lookup (tcp_session_state st') sk = Some ?v"
    if room: "hash_lookup (tcp_session_state st) sk \<noteq> None \<or> length (tcp_session_state st) < MAX_SESSIONS"
  proof -
    have upd: "fst (hash_update MAX_SESSIONS (tcp_session_state st) sk ?v)"
      using room by (simp add: hash_update_def hash_lookup_def)
    have "tcp_session_state st' = snd (hash_update MAX_SESSIONS (tcp_session_state st) sk ?v)"
      by (simp add: New(6) tcp_stats_phase_step r(2) sess)
    then show ?thesis
      using hash_update_lookup [OF prod.collapse [symmetric], of MAX_SESSIONS "tcp_session_state st" sk ?v sk] upd
      by simp
  qed
  then show ?thesis
    using that [OF info sched [unfolded r(1)]] tcp_schedule_step(5) [OF sched r(1)]
      tcp_schedule_backend [OF sched [unfolded r(1)]] by blast
qed simp

text \<open>An expired session is as good as none, once its connection is taken back.\<close>

definition forget_session :: "xdp_env \<Rightarrow> session_state_key \<Rightarrow> session_state_val \<Rightarrow> xdp_maps \<Rightarrow> xdp_maps" where
  "forget_session env sk v st =
     service_stats env drop_connection (ss_service_idx v)
       (backend_stats env drop_connection (ss_backend_idx v)
         (st\<lparr>tcp_session_state := hash_delete (tcp_session_state st) sk\<rparr>))"

lemma forget_session_maps:
  "services_map (forget_session env sk v st) = services_map st"
  "backends_map (forget_session env sk v st) = backends_map st"
  "atomic_index (forget_session env sk v st) = atomic_index st"
  "hash_lookup (tcp_session_state (forget_session env sk v st)) j =
     (if j = sk then None else hash_lookup (tcp_session_state st) j)"
  by (auto simp: forget_session_def services_map_def backends_map_def backend_stats_def
      service_stats_def map_simps)

lemma find_tcp_backend_expired:
  assumes "hash_lookup (tcp_session_state st) sk = Some v" "\<not> pure_syn tcp"
    and "ktime_hit env - created v > timeout v"
  shows "find_tcp_backend env sk key tcp len st = find_tcp_backend env sk key tcp len (forget_session env sk v st)"
  using assms
  by (simp add: find_tcp_backend_eq tcp_lookup_def session_phase_def forget_session_maps)
    (simp add: forget_session_def)

subsection \<open>Sequences of packets\<close>

record tcp_arrival =
  ar_env :: xdp_env
  ar_session :: session_state_key
  ar_key :: service_key
  ar_tcp :: tcp_flags
  ar_len :: u32

fun run_tcp :: "tcp_arrival list \<Rightarrow> xdp_maps \<Rightarrow> backend option list \<times> xdp_maps" where
  "run_tcp [] st = ([], st)"
| "run_tcp (a # as) st =
     (let (r, st) = find_tcp_backend (ar_env a) (ar_session a) (ar_key a) (ar_tcp a) (ar_len a) st;
          (rs, st) = run_tcp as st
      in (r # rs, st))"

text \<open>
  The flow \<open>sk\<close>, last seen at \<open>t\<close>, neither starts again nor closes nor pauses for longer than
  the timeout; other flows may do anything.
\<close>

fun steady :: "session_state_key \<Rightarrow> u64 \<Rightarrow> tcp_arrival list \<Rightarrow> bool" where
  "steady sk t [] = True"
| "steady sk t (a # as) =
     (if ar_session a = sk
      then \<not> pure_syn (ar_tcp a) \<and> \<not> fin (ar_tcp a) \<and> \<not> rst (ar_tcp a)
        \<and> ktime_hit (ar_env a) - t \<le> TCP_STATE_TIMEOUT \<and> steady sk (ktime_hit (ar_env a)) as
      else steady sk t as)"

lemma run_tcp_step:
  "maps_ok st \<Longrightarrow> sessions_ok st \<Longrightarrow> run_tcp as st = (rs, st') \<Longrightarrow>
     maps_ok st' \<and> sessions_ok st' \<and> data_frame st st' \<and> length rs = length as"
proof (induction as arbitrary: st rs)
  case (Cons a as)
  obtain r s where f: "find_tcp_backend (ar_env a) (ar_session a) (ar_key a) (ar_tcp a) (ar_len a) st = (r, s)"
    by (rule prod.exhaust)
  obtain rs1 s1 where run: "run_tcp as s = (rs1, s1)" by (rule prod.exhaust)
  note step = find_tcp_backend_step [OF Cons.prems(1,2) f]
  show ?case using Cons.IH [of s rs1] step run Cons.prems(3) f data_frame_trans by fastforce
qed simp

lemma run_tcp_affinity:
  "maps_ok st \<Longrightarrow> sessions_ok st \<Longrightarrow> hash_lookup (tcp_session_state st) sk = Some v \<Longrightarrow>
   timeout v = TCP_STATE_TIMEOUT \<Longrightarrow> steady sk (created v) as \<Longrightarrow> run_tcp as st = (rs, st') \<Longrightarrow>
   k < length as \<Longrightarrow> ar_session (as ! k) = sk \<Longrightarrow>
   rs ! k = Some (backends_map st (atomic_index st 0) (unat (ss_backend_idx v)))"
proof (induction as arbitrary: st v rs k)
  case (Cons a as)
  obtain r s where f: "find_tcp_backend (ar_env a) (ar_session a) (ar_key a) (ar_tcp a) (ar_len a) st = (r, s)"
    by (rule prod.exhaust)
  obtain rs1 s1 where run: "run_tcp as s = (rs1, s1)" by (rule prod.exhaust)
  have rs: "rs = r # rs1" "st' = s1" using Cons.prems(6) by (simp_all add: f run)
  note step = find_tcp_backend_step [OF Cons.prems(1,2) f]
  have fr: "data_frame st s" using step by simp
  have maps: "backends_map s (atomic_index s 0) = backends_map st (atomic_index st 0)"
    unfolding data_frame_maps(2) [OF fr] data_frame_fields(3) [OF fr] ..
  show ?case
  proof (cases "ar_session a = sk")
    case True
    then have a: "\<not> pure_syn (ar_tcp a)" "\<not> fin (ar_tcp a)" "\<not> rst (ar_tcp a)"
        "\<not> ktime_hit (ar_env a) - created v > timeout v" "steady sk (ktime_hit (ar_env a)) as"
      using Cons.prems(4,5) by (simp_all add: not_less)
    note live = find_tcp_backend_live [OF Cons.prems(3) sessions_okD [OF Cons.prems(2,3)] a(1,4) f [unfolded True]]
    let ?v = "v\<lparr>created := ktime_hit (ar_env a)\<rparr>"
    have "hash_lookup (tcp_session_state s) sk = Some ?v" using live(2) a(2,3) by simp
    from Cons.IH [OF _ _ this _ _ run [folded rs(2)]] show ?thesis
      using step live(1) Cons.prems(4,7,8) a(5) maps by (cases k) (simp_all add: rs)
  next
    case False
    then have "hash_lookup (tcp_session_state s) sk = Some v" "steady sk (created v) as"
      using find_tcp_backend_other [OF Cons.prems(1,2) _ f] Cons.prems(3,5) by simp_all
    from Cons.IH [OF _ _ this(1) Cons.prems(4) this(2) run [folded rs(2)]] show ?thesis
      using step Cons.prems(7,8) False maps by (cases k) (simp_all add: rs)
  qed
qed simp

end
