(* ===== verification/Ddos.thy ===== *)
theory Ddos
  imports Balancer_State Packet
begin

section \<open>SYN-flood protection\<close>

text \<open>
  \<open>ddos_check_v4\<close>, cut at its early returns: the blacklist, the source's counter (created on
  demand in the LRU table), the window reset, the global SYN counter and the two thresholds.
\<close>

datatype xdp_action = XDP_ABORTED | XDP_DROP | XDP_PASS | XDP_TX | XDP_REDIRECT

definition ddos_new_counter :: "u64 \<Rightarrow> syn_counter" where
  "ddos_new_counter now =
     \<lparr>syn_count = 0, ack_count = 0, window_start = now, sc_total_packets = 0\<rparr>"

text \<open>The counter of a source, inserted when it is missing; \<open>None\<close> if that fails.\<close>

definition ddos_get_counter :: "xdp_env \<Rightarrow> u32 \<Rightarrow> u64 \<Rightarrow> xdp_maps \<Rightarrow> syn_counter option \<times> xdp_maps" where
  "ddos_get_counter env src_ip now st =
     (case hash_lookup (syn_tracker st) src_ip of
        Some cnt \<Rightarrow> (Some cnt, st)
      | None \<Rightarrow>
          (let st = st\<lparr>syn_tracker :=
                 snd (lru_update MAX_SYN_TRACKER (lru_victim env) (syn_tracker st) src_ip (ddos_new_counter now))\<rparr>
           in (hash_lookup (syn_tracker st) src_ip, st)))"

definition ddos_window :: "u64 \<Rightarrow> syn_counter \<Rightarrow> syn_counter" where
  "ddos_window now cnt =
     (if now - window_start cnt > DDOS_WINDOW_NS
      then cnt\<lparr>syn_count := 0, ack_count := 0, sc_total_packets := 0, window_start := now\<rparr>
      else cnt)"

definition ddos_count :: "tcp_flags \<Rightarrow> u64 \<Rightarrow> syn_counter \<Rightarrow> syn_counter" where
  "ddos_count tcp now cnt =
     (let cnt = ddos_window now cnt;
          cnt = cnt\<lparr>sc_total_packets := sc_total_packets cnt + 1\<rparr>
      in if pure_syn tcp then cnt\<lparr>syn_count := syn_count cnt + 1\<rparr> else cnt)"

definition ddos_global_count :: "u64 \<Rightarrow> global_syn_stats \<Rightarrow> global_syn_stats" where
  "ddos_global_count now gs =
     (let gs = (if now - gs_window_start gs > DDOS_WINDOW_NS
                then gs\<lparr>gs_syn_count := 0, gs_window_start := now\<rparr> else gs)
      in gs\<lparr>gs_syn_count := gs_syn_count gs + 1\<rparr>)"

definition count_dropped :: "global_syn_stats \<Rightarrow> global_syn_stats" where
  "count_dropped gs = gs\<lparr>dropped_total := dropped_total gs + 1\<rparr>"

text \<open>The global counter; \<open>True\<close> for the immediate drop.\<close>

definition ddos_global :: "ddos_config option \<Rightarrow> tcp_flags \<Rightarrow> u64 \<Rightarrow> xdp_maps \<Rightarrow> bool \<times> xdp_maps" where
  "ddos_global cfg tcp now st =
     (if \<not> pure_syn tcp then (False, st)
      else case array_lookup 1 (global_syn st) 0 of
        None \<Rightarrow> (False, st)
      | Some gs \<Rightarrow>
          (let gs = ddos_global_count now gs;
               over = (case cfg of None \<Rightarrow> False
                       | Some c \<Rightarrow> global_syn_threshold c > 0
                           \<and> gs_syn_count gs > ucast (global_syn_threshold c));
               gs = (if over then count_dropped gs else gs)
           in (over, st\<lparr>global_syn := (global_syn st)(0 := gs)\<rparr>)))"

definition ddos_ban :: "u32 \<Rightarrow> u64 \<Rightarrow> xdp_maps \<Rightarrow> xdp_maps" where
  "ddos_ban src_ip now st =
     st\<lparr>blacklist := snd (hash_update MAX_BLACKLIST (blacklist st) src_ip now),
        global_syn := array_modify 1 count_dropped 0 (global_syn st)\<rparr>"

definition ddos_over :: "ddos_config \<Rightarrow> syn_counter \<Rightarrow> bool" where
  "ddos_over cfg cnt \<longleftrightarrow>
     (syn_threshold cfg > 0 \<and> syn_count cnt > ucast (syn_threshold cfg))
     \<or> (syn_ack_ratio cfg > 0 \<and> syn_count cnt > 10
        \<and> (let ack = (if ack_count cnt > 0 then ack_count cnt else 1);
               ratio = (syn_count cnt * 100) div ack
           in ratio > ucast (syn_ack_ratio cfg)))"

text \<open>Everything after the blacklist.\<close>

definition ddos_track ::
    "xdp_env \<Rightarrow> ddos_config option \<Rightarrow> u32 \<Rightarrow> tcp_flags \<Rightarrow> xdp_maps \<Rightarrow> xdp_action \<times> xdp_maps" where
  "ddos_track env cfg src_ip tcp st =
     (let now = ktime_ddos env;
          (counter, st) = ddos_get_counter env src_ip now st
      in case counter of
           None \<Rightarrow> (XDP_PASS, st)
         | Some cnt \<Rightarrow>
             (let cnt = ddos_count tcp now cnt;
                  st = st\<lparr>syn_tracker := hash_write (syn_tracker st) src_ip cnt\<rparr>;
                  (over, st) = ddos_global cfg tcp now st
              in if over then (XDP_DROP, st)
                 else
                   (let cnt = (if ack tcp \<and> \<not> syn tcp then cnt\<lparr>ack_count := ack_count cnt + 1\<rparr> else cnt);
                        st = st\<lparr>syn_tracker := hash_write (syn_tracker st) src_ip cnt\<rparr>
                    in case cfg of
                         None \<Rightarrow> (XDP_PASS, st)
                       | Some c \<Rightarrow>
                           if ddos_over c cnt then (XDP_DROP, ddos_ban src_ip now st)
                           else (XDP_PASS, st))))"

definition ddos_check_v4 :: "xdp_env \<Rightarrow> u32 \<Rightarrow> tcp_flags \<Rightarrow> xdp_maps \<Rightarrow> xdp_action \<times> xdp_maps" where
  "ddos_check_v4 env src_ip tcp st =
     (let now = ktime_ddos env;
          cfg = array_lookup 1 (ddos_cfg st) 0
      in case hash_lookup (blacklist st) src_ip of
           Some ban_time \<Rightarrow>
             (let duration = (case cfg of Some c \<Rightarrow> ban_duration_ns c | None \<Rightarrow> 300000000000)
              in if now - ban_time < duration then (XDP_DROP, st)
                 else ddos_track env cfg src_ip tcp
                        (st\<lparr>blacklist := hash_delete (blacklist st) src_ip\<rparr>))
         | None \<Rightarrow> ddos_track env cfg src_ip tcp st)"

subsection \<open>Frame and invariant\<close>

definition ddos_frame :: "xdp_maps \<Rightarrow> xdp_maps \<Rightarrow> bool" where
  "ddos_frame st st' \<longleftrightarrow>
     st' = st\<lparr>syn_tracker := syn_tracker st', blacklist := blacklist st', global_syn := global_syn st'\<rparr>"

lemma ddos_frame_refl [simp]: "ddos_frame st st"
  by (simp add: ddos_frame_def)

lemma ddos_frame_trans: "ddos_frame a b \<Longrightarrow> ddos_frame b c \<Longrightarrow> ddos_frame a c"
  by (cases a; cases b; cases c) (simp add: ddos_frame_def)

lemma ddos_frame_fields:
  assumes "ddos_frame st st'"
  shows "services_first st' = services_first st" "services_second st' = services_second st"
    "atomic_index st' = atomic_index st" "backends_first st' = backends_first st"
    "backends_second st' = backends_second st" "ch_backends st' = ch_backends st"
    "rr_index st' = rr_index st" "wrr_state_map st' = wrr_state_map st"
    "tcp_session_state st' = tcp_session_state st"
    "backends_packets_stats st' = backends_packets_stats st"
    "services_packets_stats st' = services_packets_stats st" "ddos_cfg st' = ddos_cfg st"
  by (subst assms [unfolded ddos_frame_def], simp)+

lemma ddos_frame_updates [simp]:
  "ddos_frame st (st\<lparr>syn_tracker := t\<rparr>)" "ddos_frame st (st\<lparr>global_syn := g\<rparr>)"
  "ddos_frame st (st\<lparr>blacklist := b\<rparr>)"
  "ddos_frame st (ddos_ban src now st)"
  by (simp_all add: ddos_frame_def ddos_ban_def)

text \<open>The counter a source has before this packet.\<close>

definition counter_of :: "u32 \<Rightarrow> u64 \<Rightarrow> xdp_maps \<Rightarrow> syn_counter" where
  "counter_of src now st =
     (case hash_lookup (syn_tracker st) src of None \<Rightarrow> ddos_new_counter now | Some c \<Rightarrow> c)"

text \<open>Nothing in the SYN table but the entry of \<open>src\<close> is new.\<close>

definition tracker_kept :: "u32 \<Rightarrow> xdp_maps \<Rightarrow> xdp_maps \<Rightarrow> bool" where
  "tracker_kept src st st' \<longleftrightarrow>
     (\<forall>j w. j \<noteq> src \<longrightarrow> hash_lookup (syn_tracker st') j = Some w \<longrightarrow> hash_lookup (syn_tracker st) j = Some w)"

lemma ddos_get_counter_step:
  assumes "maps_ok st" and "ddos_get_counter env src now st = (c, st')"
  shows "c = Some (counter_of src now st)"
    "hash_lookup (syn_tracker st') src = Some (counter_of src now st)"
    "maps_ok st'" "st' = st\<lparr>syn_tracker := syn_tracker st'\<rparr>" "tracker_kept src st st'"
proof -
  have "c = Some (counter_of src now st)
    \<and> hash_lookup (syn_tracker st') src = Some (counter_of src now st)
    \<and> maps_ok st' \<and> st' = st\<lparr>syn_tracker := syn_tracker st'\<rparr> \<and> tracker_kept src st st'"
  proof (cases "hash_lookup (syn_tracker st) src")
    case (Some x)
    then have "c = Some x" "st' = st" using assms(2) by (simp_all add: ddos_get_counter_def)
    then show ?thesis using Some assms(1) by (simp add: counter_of_def tracker_kept_def)
  next
    case None
    have ok: "0 < MAX_SYN_TRACKER \<and> hash_ok MAX_SYN_TRACKER (syn_tracker st)"
      using assms(1) by (simp add: maps_ok_def max_defs)
    obtain b m where u: "lru_update MAX_SYN_TRACKER (lru_victim env) (syn_tracker st) src (ddos_new_counter now) = (b, m)"
      by (rule prod.exhaust)
    have st': "st' = st\<lparr>syn_tracker := m\<rparr>" and c: "c = hash_lookup m src"
      using assms(2) None by (simp_all add: ddos_get_counter_def u)
    have "hash_lookup m src = Some (ddos_new_counter now)"
      using lru_update_lookup(2) [OF conjunct2 [OF ok] u] .
    moreover have "maps_ok st'" using assms(1) lru.upd_ok [OF ok u] by (simp add: maps_ok_def st')
    moreover have "tracker_kept src st st'"
      using lru.upd_invents_nothing [OF ok u] by (simp add: tracker_kept_def st')
    ultimately show ?thesis using c None by (simp add: st' counter_of_def)
  qed
  then show "c = Some (counter_of src now st)"
    "hash_lookup (syn_tracker st') src = Some (counter_of src now st)"
    "maps_ok st'" "st' = st\<lparr>syn_tracker := syn_tracker st'\<rparr>" "tracker_kept src st st'" by blast+
qed

subsection \<open>What one check does\<close>

text \<open>The source's counter after this packet, and the verdict of the configuration on it.\<close>

definition counted :: "xdp_env \<Rightarrow> u32 \<Rightarrow> tcp_flags \<Rightarrow> xdp_maps \<Rightarrow> syn_counter" where
  "counted env src tcp st =
     (let c = ddos_count tcp (ktime_ddos env) (counter_of src (ktime_ddos env) st)
      in if ack tcp \<and> \<not> syn tcp then c\<lparr>ack_count := ack_count c + 1\<rparr> else c)"

definition global_over :: "xdp_env \<Rightarrow> tcp_flags \<Rightarrow> xdp_maps \<Rightarrow> bool" where
  "global_over env tcp st \<longleftrightarrow> pure_syn tcp \<and> global_syn_threshold (ddos_cfg st 0) > 0
     \<and> gs_syn_count (ddos_global_count (ktime_ddos env) (global_syn st 0)) > ucast (global_syn_threshold (ddos_cfg st 0))"

lemma ddos_global_eq:
  "ddos_global (Some c) tcp now st =
     (let over = pure_syn tcp \<and> global_syn_threshold c > 0
            \<and> gs_syn_count (ddos_global_count now (global_syn st 0)) > ucast (global_syn_threshold c)
      in (over, if pure_syn tcp
                then st\<lparr>global_syn := (global_syn st)(0 :=
                       (if over then count_dropped (ddos_global_count now (global_syn st 0))
                        else ddos_global_count now (global_syn st 0)))\<rparr>
                else st))"
  by (simp add: ddos_global_def array_lookup_def Let_def)

text \<open>A state after some of the check, in which the source has the counter \<open>c\<close>.\<close>

definition tracked :: "u32 \<Rightarrow> xdp_maps \<Rightarrow> syn_counter \<Rightarrow> xdp_maps \<Rightarrow> bool" where
  "tracked src st c s \<longleftrightarrow> maps_ok s \<and> ddos_frame st s \<and> tracker_kept src st s \<and> hash_lookup (syn_tracker s) src = Some c"

lemma tracked_get_counter:
  assumes "maps_ok st" "ddos_get_counter env src now st = (c, s)"
  shows "tracked src st (counter_of src now st) s" "blacklist s = blacklist st" "global_syn s = global_syn st"
proof -
  note step = ddos_get_counter_step [OF assms]
  show "tracked src st (counter_of src now st) s"
    using step(2,3,5) by (simp add: tracked_def) (subst step(4), simp)
  show "blacklist s = blacklist st" "global_syn s = global_syn st" by (subst step(4), simp)+
qed

lemma tracked_write:
  assumes "tracked src st c s"
  shows "tracked src st c' (s\<lparr>syn_tracker := hash_write (syn_tracker s) src c'\<rparr>)"
  using assms ddos_frame_trans [OF _ ddos_frame_updates(1)]
  by (auto simp: tracked_def maps_ok_def tracker_kept_def map_simps)

lemma tracked_global:
  assumes "tracked src st c s"
  shows "tracked src st c (s\<lparr>global_syn := g\<rparr>)"
  using assms ddos_frame_trans [OF _ ddos_frame_updates(2)]
  by (auto simp: tracked_def maps_ok_def tracker_kept_def)

lemma tracked_ban:
  assumes "tracked src st c s"
  shows "tracked src st c (ddos_ban src now s)"
proof -
  have "ddos_frame st (ddos_ban src now s)"
    using assms ddos_frame_trans [OF _ ddos_frame_updates(4)] by (simp add: tracked_def)
  moreover have "maps_ok (ddos_ban src now s)"
    using assms by (auto simp: tracked_def ddos_ban_def maps_ok_def intro: hm.upd_ok [OF _ prod.collapse [symmetric]])
  ultimately show ?thesis using assms by (simp add: tracked_def ddos_ban_def tracker_kept_def)
qed

lemma ddos_track_run:
  assumes ok: "maps_ok st"
  obtains s where "tracked src st (ddos_count tcp (ktime_ddos env) (counter_of src (ktime_ddos env) st)) s" "blacklist s = blacklist st"
    "ddos_track env (Some (ddos_cfg st 0)) src tcp st =
      (let s' = s\<lparr>syn_tracker := hash_write (syn_tracker s) src (counted env src tcp st)\<rparr>
       in if global_over env tcp st then (XDP_DROP, s)
          else if ddos_over (ddos_cfg st 0) (counted env src tcp st) then (XDP_DROP, ddos_ban src (ktime_ddos env) s')
          else (XDP_PASS, s'))"
proof -
  let ?now = "ktime_ddos env" and ?cfg = "ddos_cfg st 0"
  obtain c s where g: "ddos_get_counter env src ?now st = (c, s)" by (rule prod.exhaust)
  note s = tracked_get_counter [OF ok g]
  let ?cnt = "ddos_count tcp ?now (counter_of src ?now st)"
  let ?s = "s\<lparr>syn_tracker := hash_write (syn_tracker s) src ?cnt\<rparr>"
  define s2 where "s2 = snd (ddos_global (Some ?cfg) tcp ?now ?s)"
  have "ddos_global (Some ?cfg) tcp ?now ?s = (global_over env tcp st, s2)"
    by (simp add: s2_def ddos_global_eq global_over_def Let_def s(3))
  then have run: "ddos_track env (Some ?cfg) src tcp st =
      (let s' = s2\<lparr>syn_tracker := hash_write (syn_tracker s2) src (counted env src tcp st)\<rparr>
       in if global_over env tcp st then (XDP_DROP, s2)
          else if ddos_over ?cfg (counted env src tcp st) then (XDP_DROP, ddos_ban src ?now s') else (XDP_PASS, s'))"
    by (simp add: ddos_track_def g ddos_get_counter_step(1) [OF ok g] counted_def Let_def)
  have "tracked src st ?cnt s2" "blacklist s2 = blacklist st"
    using tracked_write [OF s(1)] tracked_global [OF tracked_write [OF s(1)]]
    by (auto simp: s2_def ddos_global_eq Let_def s(2))
  then show ?thesis using run by (rule that)
qed

lemma ddos_track_step:
  assumes ok: "maps_ok st"
    and d: "ddos_track env (Some (ddos_cfg st 0)) src tcp st = (v, st')"
  shows "v = (if global_over env tcp st \<or> ddos_over (ddos_cfg st 0) (counted env src tcp st)
              then XDP_DROP else XDP_PASS)"
    and "hash_lookup (syn_tracker st') src = Some (counted env src tcp st)"
    and "maps_ok st'" "ddos_frame st st'" "tracker_kept src st st'"
    and "blacklist st' = (if \<not> global_over env tcp st \<and> v = XDP_DROP
           then snd (hash_update MAX_BLACKLIST (blacklist st) src (ktime_ddos env)) else blacklist st)"
proof -
  let ?now = "ktime_ddos env" and ?cfg = "ddos_cfg st 0" and ?fin = "counted env src tcp st"
  obtain s where s: "tracked src st (ddos_count tcp ?now (counter_of src ?now st)) s" "blacklist s = blacklist st"
    and run: "ddos_track env (Some ?cfg) src tcp st =
      (let s' = s\<lparr>syn_tracker := hash_write (syn_tracker s) src ?fin\<rparr>
       in if global_over env tcp st then (XDP_DROP, s)
          else if ddos_over ?cfg ?fin then (XDP_DROP, ddos_ban src ?now s') else (XDP_PASS, s'))"
    by (rule ddos_track_run [OF ok])
  show "v = (if global_over env tcp st \<or> ddos_over ?cfg ?fin then XDP_DROP else XDP_PASS)"
    using d by (auto simp: run Let_def split: if_splits)
  have "?fin = ddos_count tcp ?now (counter_of src ?now st)" if "global_over env tcp st"
    using that by (simp add: counted_def global_over_def pure_syn_def Let_def)
  then have "tracked src st ?fin st'"
    using d s(1) tracked_write [OF s(1)] tracked_ban [OF tracked_write [OF s(1)]]
    by (auto simp: run Let_def split: if_splits)
  then show "hash_lookup (syn_tracker st') src = Some ?fin" "maps_ok st'" "ddos_frame st st'" "tracker_kept src st st'"
    by (simp_all add: tracked_def)
  show "blacklist st' = (if \<not> global_over env tcp st \<and> v = XDP_DROP
           then snd (hash_update MAX_BLACKLIST (blacklist st) src ?now) else blacklist st)"
    using d s(2) by (auto simp: run Let_def ddos_ban_def split: if_splits)
qed

subsection \<open>The check\<close>

lemma ddos_check_banned:
  assumes "hash_lookup (blacklist st) src = Some t"
    and "ktime_ddos env - t < ban_duration_ns (ddos_cfg st 0)"
  shows "ddos_check_v4 env src tcp st = (XDP_DROP, st)"
  using assms by (simp add: ddos_check_v4_def array_lookup_def)

definition unban :: "u32 \<Rightarrow> xdp_maps \<Rightarrow> xdp_maps" where
  "unban src st = (if hash_lookup (blacklist st) src = None then st
     else st\<lparr>blacklist := hash_delete (blacklist st) src\<rparr>)"

lemma ddos_check_not_banned:
  assumes "\<And>t. hash_lookup (blacklist st) src = Some t \<Longrightarrow>
      \<not> ktime_ddos env - t < ban_duration_ns (ddos_cfg st 0)"
  shows "ddos_check_v4 env src tcp st = ddos_track env (Some (ddos_cfg st 0)) src tcp (unban src st)"
  using assms by (auto simp: ddos_check_v4_def unban_def array_lookup_def split: option.splits)

lemma unban_step:
  "maps_ok st \<Longrightarrow> maps_ok (unban src st)" "ddos_frame st (unban src st)"
  "ddos_cfg (unban src st) = ddos_cfg st" "syn_tracker (unban src st) = syn_tracker st"
  "global_syn (unban src st) = global_syn st"
  "hash_lookup (blacklist (unban src st)) src = None"
  by (auto simp: unban_def maps_ok_def ddos_frame_def map_simps)

lemma unban_same: "hash_lookup (blacklist st) src = None \<Longrightarrow> unban src st = st"
  by (simp add: unban_def)

lemma ddos_check_frame:
  assumes ok: "maps_ok st" and d: "ddos_check_v4 env src tcp st = (v, st')"
  shows "maps_ok st' \<and> ddos_frame st st' \<and> (v = XDP_DROP \<or> v = XDP_PASS)"
proof (cases "\<exists>t. hash_lookup (blacklist st) src = Some t
    \<and> ktime_ddos env - t < ban_duration_ns (ddos_cfg st 0)")
  case True
  then show ?thesis using ok d ddos_check_banned by auto
next
  case False
  then have d': "ddos_track env (Some (ddos_cfg (unban src st) 0)) src tcp (unban src st) = (v, st')"
    using ddos_check_not_banned d by (simp add: unban_step)
  note step = ddos_track_step [OF unban_step(1) [OF ok] d']
  show ?thesis using step(1,3) ddos_frame_trans [OF unban_step(2) step(4)] by simp
qed

subsection \<open>Packets that are not SYNs never trip the check\<close>

definition quiet :: "xdp_maps \<Rightarrow> bool" where
  "quiet st \<longleftrightarrow> blacklist st = []
     \<and> (\<forall>j c. hash_lookup (syn_tracker st) j = Some c \<longrightarrow> syn_count c = 0)"

lemma counted_quiet:
  "quiet st \<Longrightarrow> \<not> pure_syn tcp \<Longrightarrow> syn_count (counted env src tcp st) = 0"
  by (auto simp: counted_def ddos_count_def ddos_window_def counter_of_def ddos_new_counter_def
      quiet_def Let_def split: option.splits)

lemma ddos_check_quiet:
  assumes ok: "maps_ok st" and q: "quiet st" and tcp: "\<not> pure_syn tcp"
    and d: "ddos_check_v4 env src tcp st = (v, st')"
  shows "v = XDP_PASS \<and> quiet st'"
proof -
  have none: "hash_lookup (blacklist st) src = None" using q by (simp add: quiet_def hash_lookup_def)
  then have d': "ddos_track env (Some (ddos_cfg st 0)) src tcp st = (v, st')"
    using d ddos_check_not_banned [of st src env tcp] by (simp add: unban_same)
  note step = ddos_track_step [OF ok d']
  have v: "v = XDP_PASS"
    using step(1) counted_quiet [OF q tcp, of env src] tcp by (simp add: ddos_over_def global_over_def)
  moreover have "syn_count c = 0" if "hash_lookup (syn_tracker st') j = Some c" for j c
  proof (cases "j = src")
    case True
    then show ?thesis using that step(2) counted_quiet [OF q tcp, of env src] by simp
  next
    case False
    then show ?thesis using that step(5) q unfolding tracker_kept_def quiet_def by blast
  qed
  ultimately show ?thesis using step(6) q by (simp add: quiet_def)
qed

subsection \<open>A SYN flood from one source\<close>

fun ddos_run :: "xdp_env list \<Rightarrow> u32 \<Rightarrow> tcp_flags \<Rightarrow> xdp_maps \<Rightarrow> xdp_action list \<times> xdp_maps" where
  "ddos_run [] src tcp st = ([], st)"
| "ddos_run (e # es) src tcp st =
     (let (v, st) = ddos_check_v4 e src tcp st; (vs, st) = ddos_run es src tcp st in (v # vs, st))"

text \<open>Only the per-source threshold is configured.\<close>

definition threshold_only :: "ddos_config \<Rightarrow> bool" where
  "threshold_only cfg \<longleftrightarrow> 0 < syn_threshold cfg \<and> syn_ack_ratio cfg = 0 \<and> global_syn_threshold cfg = 0"

lemma ddos_syn:
  assumes ok: "maps_ok st" and cfg: "threshold_only (ddos_cfg st 0)" and syn: "pure_syn tcp"
    and free: "hash_lookup (blacklist st) src = None"
    and c: "unat (syn_count (counter_of src (ktime_ddos e) st)) = k"
      "window_start (counter_of src (ktime_ddos e) st) = w"
      "ktime_ddos e - w \<le> DDOS_WINDOW_NS" "k \<le> unat (syn_threshold (ddos_cfg st 0))"
    and d: "ddos_check_v4 e src tcp st = (v, st')"
  shows "v = (if k < unat (syn_threshold (ddos_cfg st 0)) then XDP_PASS else XDP_DROP)
    \<and> maps_ok st' \<and> ddos_cfg st' = ddos_cfg st
    \<and> (\<exists>c. hash_lookup (syn_tracker st') src = Some c \<and> unat (syn_count c) = k + 1 \<and> window_start c = w)
    \<and> blacklist st' = (if v = XDP_DROP then snd (hash_update MAX_BLACKLIST (blacklist st) src (ktime_ddos e)) else blacklist st)"
proof -
  let ?c = "counter_of src (ktime_ddos e) st"
  have d': "ddos_track e (Some (ddos_cfg st 0)) src tcp st = (v, st')"
    using d free ddos_check_not_banned [of st src e tcp] by (simp add: unban_same)
  note step = ddos_track_step [OF ok d']
  have "unat (syn_threshold (ddos_cfg st 0)) < 4294967296" using unsigned_less [of "syn_threshold (ddos_cfg st 0)", where ?'a = nat] by simp
  then have suc: "unat (syn_count ?c + 1) = k + 1"
    using c(1,4) by (subst unat_plus_one) simp_all
  have cnt: "counted e src tcp st = ?c\<lparr>sc_total_packets := sc_total_packets ?c + 1, syn_count := syn_count ?c + 1\<rparr>"
  proof -
    have "\<not> DDOS_WINDOW_NS < ktime_ddos e - window_start ?c" using c(3) unfolding c(2) by (rule leD)
    then have "ddos_window (ktime_ddos e) ?c = ?c" unfolding ddos_window_def by simp
    moreover have "syn tcp" using syn by (simp add: pure_syn_def)
    ultimately show ?thesis by (simp add: counted_def ddos_count_def syn Let_def)
  qed
  have over: "ddos_over (ddos_cfg st 0) (counted e src tcp st) \<longleftrightarrow> \<not> k < unat (syn_threshold (ddos_cfg st 0))"
    using cfg suc by (auto simp: cnt ddos_over_def threshold_only_def word_less_nat_alt unsigned_ucast_eq
        take_bit_nat_eq_self unsigned_less [THEN order_less_le_trans])
  have no: "\<not> global_over e tcp st" using cfg by (simp add: global_over_def threshold_only_def)
  show ?thesis
    using step(1,2,3,6) ddos_frame_fields(12) [OF step(4)] over no suc c(2) by (simp add: cnt)
qed

lemma ddos_flood:
  "maps_ok st \<Longrightarrow> threshold_only (ddos_cfg st 0) \<Longrightarrow> pure_syn tcp \<Longrightarrow>
   hash_lookup (blacklist st) src = None \<Longrightarrow> length (blacklist st) < MAX_BLACKLIST \<Longrightarrow>
   unat (syn_count (counter_of src (ktime_ddos (hd es)) st)) = k \<Longrightarrow>
   window_start (counter_of src (ktime_ddos (hd es)) st) = w \<Longrightarrow>
   (\<forall>e \<in> set es. ktime_ddos e - w \<le> DDOS_WINDOW_NS) \<Longrightarrow> es \<noteq> [] \<Longrightarrow>
   k + length es = unat (syn_threshold (ddos_cfg st 0)) + 1 \<Longrightarrow>
   ddos_run es src tcp st = (vs, st') \<Longrightarrow>
   vs = replicate (length es - 1) XDP_PASS @ [XDP_DROP]
   \<and> hash_lookup (blacklist st') src = Some (ktime_ddos (last es))"
proof (induction es arbitrary: st k vs)
  case (Cons e es)
  obtain v s where d: "ddos_check_v4 e src tcp st = (v, s)" by (rule prod.exhaust)
  obtain vs1 s1 where run: "ddos_run es src tcp s = (vs1, s1)" by (rule prod.exhaust)
  have vs: "vs = v # vs1" "s1 = st'" using Cons.prems(11) by (simp_all add: d run)
  have c: "unat (syn_count (counter_of src (ktime_ddos e) st)) = k"
      "window_start (counter_of src (ktime_ddos e) st) = w" "ktime_ddos e - w \<le> DDOS_WINDOW_NS"
      "k \<le> unat (syn_threshold (ddos_cfg st 0))"
    using Cons.prems(6,7,8,10) by simp_all
  note step = ddos_syn [OF Cons.prems(1-4) c d]
  show ?case
  proof (cases es)
    case Nil
    then have "\<not> k < unat (syn_threshold (ddos_cfg st 0))" using Cons.prems(10) by simp
    then have v: "v = XDP_DROP" using step by simp
    obtain r m where u: "hash_update MAX_BLACKLIST (blacklist st) src (ktime_ddos e) = (r, m)" by (rule prod.exhaust)
    have "r" using u Cons.prems(5) by (auto simp: hash_update_def split: if_splits)
    then have "hash_lookup m src = Some (ktime_ddos e)" using hash_update_lookup [OF u] by simp
    moreover have "blacklist s = m" using step v u by simp
    ultimately show ?thesis using vs v run Nil by simp
  next
    case (Cons e2 es2)
    then have k: "k < unat (syn_threshold (ddos_cfg st 0))" using Cons.prems(10) by simp
    then have v: "v = XDP_PASS" using step by simp
    have s: "maps_ok s" "ddos_cfg s = ddos_cfg st" "blacklist s = blacklist st"
      using step v by simp_all
    obtain c where c: "hash_lookup (syn_tracker s) src = Some c" "unat (syn_count c) = k + 1" "window_start c = w"
      using step by blast
    have co: "counter_of src now s = c" for now using c(1) by (simp add: counter_of_def)
    have "vs1 = replicate (length es - 1) XDP_PASS @ [XDP_DROP]
      \<and> hash_lookup (blacklist st') src = Some (ktime_ddos (last es))"
      by (rule Cons.IH [of s "k + 1"])
        (use s c Cons.prems(2-5,8,10) run vs(2) local.Cons in \<open>simp_all add: co\<close>)
    then show ?thesis using vs(1) v local.Cons by simp
  qed
qed simp

end
