(* ===== verification/Checksum.thy ===== *)
theory Checksum
  imports Prelude
begin

section \<open>Internet checksums\<close>

text \<open>
  The checksum helpers of \<open>xdp/balancer.bpf.c\<close>, on 16-bit and 32-bit words with the C
  promotions written out (a \<open>__u16\<close> operand of \<open>~\<close> is widened first). The correctness
  lemmas work modulo 65535, the modulus of one's complement addition: a segment whose words,
  the checksum field included, sum to a value stays at that value when the field is updated
  for a changed word.
\<close>

definition csum_fold :: "u32 \<Rightarrow> u16" where
  "csum_fold sum0 =
     (let sum1 = drop_bit 16 sum0 + (sum0 AND 0xffff);
          sum2 = sum1 + drop_bit 16 sum1
      in ucast (NOT sum2))"

definition csum_replace16 :: "u16 \<Rightarrow> u16 \<Rightarrow> u16 \<Rightarrow> u16" where
  "csum_replace16 check old_val new_val =
     (let c = (NOT (ucast check) AND 0xffff) + (NOT (ucast old_val) AND 0xffff) + ucast new_val :: u32;
          c = drop_bit 16 c + (c AND 0xffff)
      in ucast (NOT c))"

definition csum_replace32 :: "u16 \<Rightarrow> u32 \<Rightarrow> u32 \<Rightarrow> u16" where
  "csum_replace32 check old_val new_val =
     (let c = NOT (ucast check) AND 0xffff :: u32;
          c = c + (drop_bit 16 (NOT old_val) + (NOT old_val AND 0xffff));
          c = c + (drop_bit 16 new_val + (new_val AND 0xffff));
          c = drop_bit 16 c + (c AND 0xffff);
          c = c + drop_bit 16 c
      in ucast (NOT c))"

text \<open>The \<open>i\<close>-th 32-bit word of an IPv6 address (\<open>memcpy(&o, addr + i * 4, 4)\<close>).\<close>

definition addr_word :: "bytes \<Rightarrow> nat \<Rightarrow> u32" where
  "addr_word a i = le32 (take 4 (drop (i * 4) a))"

definition csum_replace_ipv6 :: "u16 \<Rightarrow> bytes \<Rightarrow> bytes \<Rightarrow> u16" where
  "csum_replace_ipv6 check old_addr new_addr =
     foldl (\<lambda>check i. csum_replace32 check (addr_word old_addr i) (addr_word new_addr i))
       check [0..<4]"

text \<open>\<open>ip_checksum\<close> over the header read as 16-bit words.\<close>

definition ip_checksum :: "u16 list \<Rightarrow> u16" where
  "ip_checksum ws =
     (let sum0 = foldl (\<lambda>s w. s + ucast w) 0 ws :: u32;
          sum1 = drop_bit 16 sum0 + (sum0 AND 0xffff);
          sum2 = sum1 + drop_bit 16 sum1
      in ucast (NOT sum2))"

text \<open>
  The four update routines: the argument \<open>check\<close> is the checksum field, the result the value
  they leave in it.
\<close>

definition update_tcp_checksum_v4 :: "u16 \<Rightarrow> u32 \<Rightarrow> u32 \<Rightarrow> u16 \<Rightarrow> u16 \<Rightarrow> u16" where
  "update_tcp_checksum_v4 check old_daddr new_daddr old_dport new_dport =
     (let check = csum_replace32 check old_daddr new_daddr
      in csum_replace16 check old_dport new_dport)"

definition update_tcp_checksum_v6 :: "u16 \<Rightarrow> bytes \<Rightarrow> bytes \<Rightarrow> u16 \<Rightarrow> u16 \<Rightarrow> u16" where
  "update_tcp_checksum_v6 check old_daddr new_daddr old_dport new_dport =
     (let check = csum_replace_ipv6 check old_daddr new_daddr
      in csum_replace16 check old_dport new_dport)"

definition update_udp_checksum_v4 :: "u16 \<Rightarrow> u32 \<Rightarrow> u32 \<Rightarrow> u16 \<Rightarrow> u16 \<Rightarrow> u16" where
  "update_udp_checksum_v4 check old_daddr new_daddr old_dport new_dport =
     (if check = 0 then check
      else (let check = csum_replace32 check old_daddr new_daddr;
                check = csum_replace16 check old_dport new_dport
            in if check = 0 then 0xFFFF else check))"

definition update_udp_checksum_v6 :: "u16 \<Rightarrow> bytes \<Rightarrow> bytes \<Rightarrow> u16 \<Rightarrow> u16 \<Rightarrow> u16" where
  "update_udp_checksum_v6 check old_daddr new_daddr old_dport new_dport =
     (let check = csum_replace_ipv6 check old_daddr new_daddr;
          check = csum_replace16 check old_dport new_dport
      in if check = 0 then 0xFFFF else check)"

subsection \<open>Words as numbers\<close>

lemma unat_lo16: "unat (c AND 0xffff :: u32) = unat c mod 65536"
proof -
  have "c AND 0xffff = take_bit 16 c" by (simp add: take_bit_eq_mask mask_eq_exp_minus_1)
  also have "unat (take_bit 16 c) = take_bit 16 (unat c)" by (rule unsigned_take_bit_eq)
  finally show ?thesis by (simp only: take_bit_eq_mod) simp
qed

lemma unat_hi16: "unat (drop_bit 16 c :: u32) = unat c div 65536"
  by (simp add: unat_drop_bit_eq drop_bit_eq_div unat_div)

lemma unat_not: "unat (NOT w :: 'a::len word) = 2 ^ LENGTH('a) - 1 - unat w"
proof -
  have "NOT w = - 1 - w" by (simp add: not_eq_complement)
  then show ?thesis by (simp add: unat_sub unsigned_minus_1_eq_mask mask_eq_exp_minus_1)
qed

lemma unat_ucast16: "unat (ucast w :: u16) = unat (w :: u32) mod 65536"
  by (simp add: unsigned_ucast_eq take_bit_eq_mod)

lemma unat_ucast32: "unat (ucast w :: u32) = unat (w :: u16)"
  using unsigned_less [of w, where ?'a = nat] by (simp add: unsigned_ucast_eq take_bit_eq_mod)

lemma u16_bound: "unat (w :: u16) < 65536"
  using unsigned_less [of w, where ?'a = nat] by simp

lemma u32_bound: "unat (w :: u32) < 4294967296"
  using unsigned_less [of w, where ?'a = nat] by simp

lemma unat_add32: "unat a + unat b < 4294967296 \<Longrightarrow> unat (a + b :: u32) = unat a + unat b"
  by (simp add: unat_word_ariths)

lemma unat_not16: "unat (NOT w :: u16) = 65535 - unat w"
  by (simp add: unat_not)

text \<open>Division by \<open>2 ^ 16\<close> made explicit, so that linear arithmetic can follow.\<close>

lemma split16:
  fixes n :: nat
  obtains q r where "n = 65536 * q + r" and "r < 65536"
    and "n div 65536 = q" and "n mod 65536 = r"
  by (rule that [of "n div 65536" "n mod 65536"]) simp_all

lemma compl_mod16: "n < 4294967296 \<Longrightarrow> (4294967295 - n) mod 65536 = 65535 - n mod (65536 :: nat)"
proof -
  assume n: "n < 4294967296"
  obtain q r where qr: "n = 65536 * q + r" "r < 65536" "n mod 65536 = r" by (rule split16)
  then have "q \<le> 65535" using n by linarith
  then have "4294967295 - n = 65536 * (65535 - q) + (65535 - r)" using qr(1,2) by linarith
  then have "4294967295 - n = (65535 - r) + 65536 * (65535 - q)" by (simp only: add.commute)
  then have "(4294967295 - n) mod 65536 = (65535 - r) mod 65536" by (simp only: mod_mult_self2)
  then have "(4294967295 - n) mod 65536 = 65535 - r" by simp
  then show ?thesis using qr(3) by simp
qed

lemma inv16: "unat (NOT (ucast c) AND 0xffff :: u32) = 65535 - unat (c :: u16)"
  using u16_bound [of c] by (simp add: unat_lo16 unat_not unat_ucast32 compl_mod16)

text \<open>The value the field gets, as a number: the complement of the low half.\<close>

lemma unat_ucast_not: "unat (ucast (NOT c) :: u16) = 65535 - unat (c :: u32) mod 65536"
  using u32_bound [of c] by (simp add: unat_ucast16 unat_not compl_mod16)

text \<open>Folding a 32-bit sum of a few 16-bit numbers.\<close>

lemma unat_fold_once:
  "unat (drop_bit 16 c + (c AND 0xffff) :: u32) = unat c div 65536 + unat c mod 65536"
proof -
  obtain q r where qr: "unat c = 65536 * q + r" "r < 65536"
      "unat c div 65536 = q" "unat c mod 65536 = r" by (rule split16)
  then have "q < 65536" using u32_bound [of c] by linarith
  then have "unat c div 65536 + unat c mod 65536 < 4294967296" using qr by linarith
  then show ?thesis by (simp only: unat_add32 unat_lo16 unat_hi16)
qed

lemma fold_twice:
  fixes c :: u32
  defines "c1 \<equiv> drop_bit 16 c + (c AND 0xffff)"
  shows "(unat (ucast (NOT (c1 + drop_bit 16 c1)) :: u16) + unat c) mod 65535 = 0"
proof -
  obtain q r where qr: "unat c = 65536 * q + r" "r < 65536"
      "unat c div 65536 = q" "unat c mod 65536 = r" by (rule split16)
  have q: "q < 65536" using qr u32_bound [of c] by linarith
  have c1: "unat c1 = q + r" unfolding c1_def unat_fold_once using qr by simp
  define k where "k = (q + r) div 65536"
  have k: "k = (if q + r < 65536 then 0 else 1)" unfolding k_def using q qr(2) by auto
  have "unat (c1 + drop_bit 16 c1) = q + r + k"
    using c1 q qr(2) k unfolding k_def by (simp add: unat_add32 unat_hi16)
  moreover have "(q + r + k) mod 65536 = q + r - 65535 * k"
    using q qr(2) unfolding k by (auto simp: mod_if)
  ultimately have "unat (ucast (NOT (c1 + drop_bit 16 c1)) :: u16) = 65535 - (q + r - 65535 * k)"
    by (simp add: unat_ucast_not)
  then have "unat (ucast (NOT (c1 + drop_bit 16 c1)) :: u16) + unat c = 65535 * (1 + q + k)"
    using q qr(1,2) unfolding k by (auto split: if_splits)
  then show ?thesis by simp
qed

subsection \<open>Incremental update against recomputation\<close>

lemma cong65535I:
  fixes a b :: nat
  assumes "a + 65535 * i = b + 65535 * j"
  shows "a mod 65535 = b mod 65535"
proof -
  have "(a + 65535 * i) mod 65535 = (b + 65535 * j) mod 65535" using assms by simp
  then show ?thesis by (simp only: mod_mult_self2)
qed

lemma csum_replace16_sum:
  fixes check old_val new_val :: u16
  defines "s \<equiv> (65535 - unat check) + (65535 - unat old_val) + unat new_val"
  shows "unat (csum_replace16 check old_val new_val) = 65535 - (s div 65536 + s mod 65536) mod 65536"
proof -
  have b: "s < 196608"
    using u16_bound [of new_val] unfolding s_def by linarith
  have "unat ((NOT (ucast check) AND 0xffff) + (NOT (ucast old_val) AND 0xffff)
      + ucast new_val :: u32) = s"
    using b u16_bound [of check] u16_bound [of old_val]
    by (simp add: unat_add32 inv16 unat_ucast32 s_def)
  then show ?thesis
    unfolding csum_replace16_def Let_def unat_ucast_not unat_fold_once by simp
qed

text \<open>
  One fold of the sum is enough unless the sum is \<open>0x1FFFF\<close>: then the second carry is lost
  and the field is off by one. The sum has this value exactly when the new word is one more
  than the old word and the checksum together.
\<close>

lemma csum_replace16_correct_iff:
  "(unat (csum_replace16 check old_val new_val) + unat new_val) mod 65535 =
     (unat check + unat old_val) mod 65535 \<longleftrightarrow> unat new_val \<noteq> unat check + unat old_val + 1"
proof -
  define s where "s = (65535 - unat check) + (65535 - unat old_val) + unat new_val"
  have eq: "s + unat check + unat old_val = 131070 + unat new_val"
    using u16_bound [of check] u16_bound [of old_val] unfolding s_def by linarith
  obtain q r where qr: "s = 65536 * q + r" "r < 65536" "s div 65536 = q" "s mod 65536 = r"
    by (rule split16)
  have res: "unat (csum_replace16 check old_val new_val) = 65535 - (q + r) mod 65536"
    using csum_replace16_sum [of check old_val new_val] qr(3,4) by (simp add: s_def)
  have small: "s \<le> 196605" using eq u16_bound [of new_val] by linarith
  show ?thesis
  proof (cases "s = 131071")
    case True
    then have "q = 1" "r = 65535" using qr(3,4) by simp_all
    then have r: "unat (csum_replace16 check old_val new_val) = 65535" using res by simp
    have n: "unat new_val = unat check + unat old_val + 1" using True eq by linarith
    have "unat check + unat old_val < 65535" using n u16_bound [of new_val] by linarith
    then show ?thesis using r n by (auto simp: mod_if)
  next
    case False
    have lt: "q + r < 65536"
    proof -
      consider "q = 0" | "q = 1" | "q = 2" using small qr(1) by linarith
      then show ?thesis using False qr(1,2) small by cases linarith+
    qed
    then have "unat (csum_replace16 check old_val new_val) = 65535 - (q + r)" using res by simp
    then have "unat (csum_replace16 check old_val new_val) + unat new_val + 65535 * 1 =
        unat check + unat old_val + 65535 * q"
      using lt eq qr(1) by linarith
    then have "(unat (csum_replace16 check old_val new_val) + unat new_val) mod 65535 =
        (unat check + unat old_val) mod 65535" by (rule cong65535I)
    moreover have "unat new_val \<noteq> unat check + unat old_val + 1" using False eq by linarith
    ultimately show ?thesis by simp
  qed
qed

lemma csum_replace32_correct:
  "(unat (csum_replace32 check old_val new_val) + unat new_val) mod 65535 =
     (unat check + unat old_val) mod 65535"
proof -
  obtain oq oR where o: "unat old_val = 65536 * oq + oR" "oR < 65536"
      "unat old_val div 65536 = oq" "unat old_val mod 65536 = oR" by (rule split16)
  obtain nq nr where n: "unat new_val = 65536 * nq + nr" "nr < 65536"
      "unat new_val div 65536 = nq" "unat new_val mod 65536 = nr" by (rule split16)
  have oq: "oq < 65536" using o(1) u32_bound [of old_val] by linarith
  have nq: "nq < 65536" using n(1) u32_bound [of new_val] by linarith
  have no: "unat (NOT old_val) = 65536 * (65535 - oq) + (65535 - oR)"
    using o(1,2) oq by (simp add: unat_not)
  have hi: "unat (NOT old_val) div 65536 = 65535 - oq"
    unfolding no using o(2) by simp
  have lo: "unat (NOT old_val) mod 65536 = 65535 - oR"
    using o(4) u32_bound [of old_val] by (simp add: unat_not compl_mod16)
  define c where "c = (NOT (ucast check) AND 0xffff :: u32)
    + (drop_bit 16 (NOT old_val) + (NOT old_val AND 0xffff))
    + (drop_bit 16 new_val + (new_val AND 0xffff))"
  have inv: "unat (NOT (ucast check) :: u32) mod 65536 = 65535 - unat check"
    using inv16 [of check] by (simp add: unat_lo16)
  have c: "unat c = (65535 - unat check) + ((65535 - oq) + (65535 - oR)) + (nq + nr)"
    unfolding c_def using n(2) nq
    by (simp add: unat_add32 unat_lo16 unat_hi16 inv hi lo n(3,4))
  have c': "unat c + unat check + oq + oR = 196605 + nq + nr"
    using c u16_bound [of check] oq o(2) by simp
  have "(unat (csum_replace32 check old_val new_val) + unat c) mod 65535 = 0"
    using fold_twice [of c] by (simp only: csum_replace32_def Let_def c_def)
  then obtain k where k: "unat (csum_replace32 check old_val new_val) + unat c = 65535 * k"
    by (metis dvd_def mod_eq_0_iff_dvd)
  have "unat (csum_replace32 check old_val new_val) + unat new_val + 65535 * (3 + oq)
      = unat check + unat old_val + 65535 * (k + nq)"
    using k c' o(1) n(1) by (simp add: algebra_simps)
  then show ?thesis by (rule cong65535I)
qed

lemma csum_fold_correct: "(unat (csum_fold sum0) + unat sum0) mod 65535 = 0"
  using fold_twice [of sum0] by (simp only: csum_fold_def Let_def)

lemma foldl_add_words:
  "unat (s :: u32) + (\<Sum>w\<leftarrow>ws. unat (w :: u16)) < 4294967296 \<Longrightarrow>
     unat (foldl (\<lambda>s w. s + ucast w) s ws) = unat s + (\<Sum>w\<leftarrow>ws. unat w)"
proof (induction ws arbitrary: s)
  case (Cons w ws)
  then have "unat (s + ucast w) = unat s + unat w"
    by (simp add: unat_add32 unat_ucast32)
  with Cons show ?case by simp
qed simp

lemma sum_words_le: "(\<Sum>w\<leftarrow>ws. unat (w :: u16)) \<le> 65535 * length ws"
proof (induction ws)
  case (Cons w ws)
  then show ?case using u16_bound [of w] by simp
qed simp

lemma ip_checksum_correct:
  assumes "length ws \<le> 65536"
  shows "(unat (ip_checksum ws) + (\<Sum>w\<leftarrow>ws. unat w)) mod 65535 = 0"
proof -
  have "(\<Sum>w\<leftarrow>ws. unat w) < 4294967296"
    using sum_words_le [of ws] assms by linarith
  then have "unat (foldl (\<lambda>s w. s + ucast w) (0 :: u32) ws) = (\<Sum>w\<leftarrow>ws. unat w)"
    by (simp add: foldl_add_words)
  then show ?thesis
    using fold_twice [of "foldl (\<lambda>s w. s + ucast w) 0 ws"] by (simp only: ip_checksum_def Let_def)
qed

text \<open>The four words of an IPv6 address, and their sum.\<close>

definition addr_sum :: "bytes \<Rightarrow> nat" where
  "addr_sum a = (\<Sum>i\<leftarrow>[0..<4]. unat (addr_word a i))"

lemma csum_replace_foldl:
  "(unat (foldl (\<lambda>check i. csum_replace32 check (f i) (g i)) check is) + (\<Sum>i\<leftarrow>is. unat (g i))) mod 65535
     = (unat check + (\<Sum>i\<leftarrow>is. unat (f i))) mod 65535"
proof (induction "is" arbitrary: check)
  case (Cons i "is")
  let ?c = "csum_replace32 check (f i) (g i)"
  let ?r = "foldl (\<lambda>check i. csum_replace32 check (f i) (g i)) ?c is"
  have "(unat ?r + (\<Sum>i\<leftarrow>i # is. unat (g i))) mod 65535
      = (unat (g i) + (unat ?r + (\<Sum>i\<leftarrow>is. unat (g i)))) mod 65535" by (simp add: ac_simps)
  also have "\<dots> = (unat (g i) + (unat ?c + (\<Sum>i\<leftarrow>is. unat (f i)))) mod 65535"
    using Cons.IH [of ?c] by (rule mod_add_cong [OF refl])
  also have "\<dots> = ((\<Sum>i\<leftarrow>is. unat (f i)) + (unat ?c + unat (g i))) mod 65535" by (simp add: ac_simps)
  also have "\<dots> = ((\<Sum>i\<leftarrow>is. unat (f i)) + (unat check + unat (f i))) mod 65535"
    using csum_replace32_correct [of check "f i" "g i"] by (rule mod_add_cong [OF refl])
  finally show ?case by (simp add: ac_simps)
qed simp

lemma csum_replace_ipv6_correct:
  "(unat (csum_replace_ipv6 check old_addr new_addr) + addr_sum new_addr) mod 65535 =
     (unat check + addr_sum old_addr) mod 65535"
  unfolding csum_replace_ipv6_def addr_sum_def by (rule csum_replace_foldl)

text \<open>
  The update of the address and the port together: what the port step gets is the address
  step's result, and the port step is the one that can be off by one.
\<close>

lemma port_after_addr:
  assumes addr: "(unat c1 + na) mod 65535 = (unat check + oa) mod 65535"
    and port: "unat new_dport \<noteq> unat c1 + unat old_dport + 1"
  shows "(unat (csum_replace16 c1 old_dport new_dport) + (na + unat new_dport)) mod 65535 =
     (unat check + (oa + unat old_dport)) mod 65535"
proof -
  let ?r = "csum_replace16 c1 old_dport new_dport"
  have "(unat ?r + (na + unat new_dport)) mod 65535 = (na + (unat ?r + unat new_dport)) mod 65535"
    by (simp add: ac_simps)
  also have "\<dots> = (na + (unat c1 + unat old_dport)) mod 65535"
    using csum_replace16_correct_iff [of c1 old_dport new_dport] port
    by (intro mod_add_cong [OF refl]) blast
  also have "\<dots> = (unat old_dport + (unat c1 + na)) mod 65535" by (simp add: ac_simps)
  also have "\<dots> = (unat old_dport + (unat check + oa)) mod 65535"
    using addr by (rule mod_add_cong [OF refl])
  finally show ?thesis by (simp add: ac_simps)
qed

lemma update_tcp_checksum_v6_correct:
  assumes "unat new_dport \<noteq> unat (csum_replace_ipv6 check old_daddr new_daddr) + unat old_dport + 1"
  shows "(unat (update_tcp_checksum_v6 check old_daddr new_daddr old_dport new_dport)
      + (addr_sum new_daddr + unat new_dport)) mod 65535 =
    (unat check + (addr_sum old_daddr + unat old_dport)) mod 65535"
  unfolding update_tcp_checksum_v6_def Let_def
  using csum_replace_ipv6_correct assms by (rule port_after_addr)

lemma update_tcp_checksum_v4_correct:
  assumes "unat new_dport \<noteq> unat (csum_replace32 check old_daddr new_daddr) + unat old_dport + 1"
  shows "(unat (update_tcp_checksum_v4 check old_daddr new_daddr old_dport new_dport)
      + (unat new_daddr + unat new_dport)) mod 65535 =
    (unat check + (unat old_daddr + unat old_dport)) mod 65535"
  unfolding update_tcp_checksum_v4_def Let_def
  using csum_replace32_correct assms by (rule port_after_addr)

lemma zero_as_ones:
  "(unat (if c = 0 then 0xFFFF else c :: u16) + n) mod 65535 = (unat c + n) mod 65535"
  by auto

lemma update_udp_checksum_v6_correct:
  assumes "unat new_dport \<noteq> unat (csum_replace_ipv6 check old_daddr new_daddr) + unat old_dport + 1"
  shows "(unat (update_udp_checksum_v6 check old_daddr new_daddr old_dport new_dport)
      + (addr_sum new_daddr + unat new_dport)) mod 65535 =
    (unat check + (addr_sum old_daddr + unat old_dport)) mod 65535"
  unfolding update_udp_checksum_v6_def Let_def zero_as_ones
  using csum_replace_ipv6_correct assms by (rule port_after_addr)

lemma update_udp_checksum_v4_correct:
  assumes "check \<noteq> 0"
    and "unat new_dport \<noteq> unat (csum_replace32 check old_daddr new_daddr) + unat old_dport + 1"
  shows "(unat (update_udp_checksum_v4 check old_daddr new_daddr old_dport new_dport)
      + (unat new_daddr + unat new_dport)) mod 65535 =
    (unat check + (unat old_daddr + unat old_dport)) mod 65535"
  using assms(1) unfolding update_udp_checksum_v4_def Let_def
  by (simp only: if_False zero_as_ones) (rule port_after_addr [OF csum_replace32_correct assms(2)])

text \<open>A UDP checksum of zero means "none" to the receiver; the updates never produce it.\<close>

lemma update_udp_checksum_v6_nonzero:
  "update_udp_checksum_v6 check old_daddr new_daddr old_dport new_dport \<noteq> 0"
  by (simp add: update_udp_checksum_v6_def Let_def)

lemma update_udp_checksum_v4_zero_iff:
  "update_udp_checksum_v4 check old_daddr new_daddr old_dport new_dport = 0 \<longleftrightarrow> check = 0"
  by (simp add: update_udp_checksum_v4_def Let_def)

end
