(* ===== verification/Xdp_Handler.thy ===== *)
theory Xdp_Handler
  imports Session_Affinity Ddos Checksum
begin

section \<open>The XDP program\<close>

text \<open>
  \<open>balancer_handler\<close> and the four protocol handlers, on a packet and the maps. A header pointer
  is an offset into the packet; \<open>None\<close> is an access outside \<open>[data, data_end)\<close>.
\<close>

definition ETH_P_IP :: u16 where "ETH_P_IP = 0x0800"
definition ETH_P_IPV6 :: u16 where "ETH_P_IPV6 = 0x86DD"

type_synonym handler_result = "(u8 \<times> packet \<times> xdp_maps) option"
type_synonym xdp_result = "(xdp_action \<times> packet \<times> xdp_maps) option"

text \<open>\<open>memset(&key, 0, sizeof key)\<close> and the four assignments.\<close>

definition make_service_key :: "bytes \<Rightarrow> u16 \<Rightarrow> u8 \<Rightarrow> u8 \<Rightarrow> service_key" where
  "make_service_key vip port protocol ip_version =
     \<lparr>vip6 = vip, sk_port = port, sk_protocol = protocol, sk_ip_version = ip_version,
      sk_pad = replicate 4 0\<rparr>"

text \<open>The MAC rewrite of all four handlers.\<close>

definition rewrite_l2 :: "packet \<Rightarrow> nat \<Rightarrow> bytes \<Rightarrow> packet option" where
  "rewrite_l2 p eth backend_mac =
     do {
       my_mac \<leftarrow> load p (eth_h_dest eth) 6;
       p \<leftarrow> store p (eth_h_dest eth) backend_mac;
       store p (eth_h_source eth) my_mac
     }"

definition packet_len_of :: "packet \<Rightarrow> nat \<Rightarrow> u32" where
  "packet_len_of p eth = of_nat (length p - eth)"

definition tcp_balancer_handle_v4 ::
    "xdp_env \<Rightarrow> packet \<Rightarrow> nat \<Rightarrow> nat \<Rightarrow> nat \<Rightarrow> xdp_maps \<Rightarrow> handler_result" where
  "tcp_balancer_handle_v4 env p eth ip tcp st =
     do {
       dst_ip \<leftarrow> load32 p (ip_daddr ip);
       dest \<leftarrow> load16 p (l4_dest tcp);
       saddr \<leftarrow> load32 p (ip_saddr ip);
       source \<leftarrow> load16 p (l4_source tcp);
       flags \<leftarrow> load_tcp_flags p tcp;
       let key = make_service_key (addr_of_v4 dst_ip) (bswap16 dest) IPPROTO_TCP 4;
           state_key = \<lparr>src_ipv6 = addr_of_v4 saddr, dst_ipv6 = addr_of_v4 dst_ip,
                        src_port = source, dst_port = dest\<rparr>;
           (backend, st) = find_tcp_backend env state_key key flags (packet_len_of p eth) st
       in case backend of
            None \<Rightarrow> Some (3, p, st)
          | Some b \<Rightarrow> do { p \<leftarrow> rewrite_l2 p eth (mac b); Some (0, p, st) }
     }"

definition udp_balancer_handle_v4 ::
    "xdp_env \<Rightarrow> packet \<Rightarrow> nat \<Rightarrow> nat \<Rightarrow> nat \<Rightarrow> xdp_maps \<Rightarrow> handler_result" where
  "udp_balancer_handle_v4 env p eth ip udp st =
     do {
       dst_ip \<leftarrow> load32 p (ip_daddr ip);
       dest \<leftarrow> load16 p (l4_dest udp);
       let key = make_service_key (addr_of_v4 dst_ip) (bswap16 dest) IPPROTO_UDP 4;
           (backend, st) = find_udp_backend env key (packet_len_of p eth) st
       in case backend of
            None \<Rightarrow> Some (3, p, st)
          | Some b \<Rightarrow> do { p \<leftarrow> rewrite_l2 p eth (mac b); Some (0, p, st) }
     }"

text \<open>
  The IPv6 handlers also write the backend's address and port and update the checksum, which
  is at another offset for TCP and UDP.
\<close>

definition rewrite_v6 ::
    "(u16 \<Rightarrow> bytes \<Rightarrow> bytes \<Rightarrow> u16 \<Rightarrow> u16 \<Rightarrow> u16) \<Rightarrow> nat \<Rightarrow> packet \<Rightarrow> nat \<Rightarrow> nat \<Rightarrow> nat \<Rightarrow> backend \<Rightarrow> packet option" where
  "rewrite_v6 update_checksum check_off p eth ip l4 b =
     do {
       old_daddr6 \<leftarrow> load p (ip6_daddr ip) 16;
       old_dport6 \<leftarrow> load16 p (l4_dest l4);
       p \<leftarrow> rewrite_l2 p eth (mac b);
       p \<leftarrow> store p (ip6_daddr ip) (be_addr b);
       p \<leftarrow> store16 p (l4_dest l4) (bswap16 (be_port b));
       new_daddr6 \<leftarrow> load p (ip6_daddr ip) 16;
       new_dport6 \<leftarrow> load16 p (l4_dest l4);
       check \<leftarrow> load16 p check_off;
       store16 p check_off (update_checksum check old_daddr6 new_daddr6 old_dport6 new_dport6)
     }"

definition tcp_balancer_handle_v6 ::
    "xdp_env \<Rightarrow> packet \<Rightarrow> nat \<Rightarrow> nat \<Rightarrow> nat \<Rightarrow> xdp_maps \<Rightarrow> handler_result" where
  "tcp_balancer_handle_v6 env p eth ip tcp st =
     do {
       dest \<leftarrow> load16 p (l4_dest tcp);
       daddr \<leftarrow> load p (ip6_daddr ip) 16;
       saddr \<leftarrow> load p (ip6_saddr ip) 16;
       source \<leftarrow> load16 p (l4_source tcp);
       flags \<leftarrow> load_tcp_flags p tcp;
       let key = make_service_key daddr (bswap16 dest) IPPROTO_TCP 6;
           state_key = \<lparr>src_ipv6 = saddr, dst_ipv6 = daddr, src_port = source, dst_port = dest\<rparr>;
           (backend, st) = find_tcp_backend env state_key key flags (packet_len_of p eth) st
       in case backend of
            None \<Rightarrow> Some (3, p, st)
          | Some b \<Rightarrow> do { p \<leftarrow> rewrite_v6 update_tcp_checksum_v6 (tcp_check tcp) p eth ip tcp b;
                           Some (0, p, st) }
     }"

definition udp_balancer_handle_v6 ::
    "xdp_env \<Rightarrow> packet \<Rightarrow> nat \<Rightarrow> nat \<Rightarrow> nat \<Rightarrow> xdp_maps \<Rightarrow> handler_result" where
  "udp_balancer_handle_v6 env p eth ip udp st =
     do {
       dest \<leftarrow> load16 p (l4_dest udp);
       daddr \<leftarrow> load p (ip6_daddr ip) 16;
       let key = make_service_key daddr (bswap16 dest) IPPROTO_UDP 6;
           (backend, st) = find_udp_backend env key (packet_len_of p eth) st
       in case backend of
            None \<Rightarrow> Some (3, p, st)
          | Some b \<Rightarrow> do { p \<leftarrow> rewrite_v6 update_udp_checksum_v6 (udp_check udp) p eth ip udp b;
                           Some (0, p, st) }
     }"

text \<open>\<open>if (result > 0) return XDP_PASS; return XDP_TX;\<close>\<close>

definition verdict_of :: "handler_result \<Rightarrow> xdp_result" where
  "verdict_of r = map_option (\<lambda>(result, p, st). (if result > 0 then XDP_PASS else XDP_TX, p, st)) r"

definition handle_ipv4 :: "xdp_env \<Rightarrow> packet \<Rightarrow> nat \<Rightarrow> xdp_maps \<Rightarrow> xdp_result" where
  "handle_ipv4 env p eth st =
     (let ip = eth + sizeof_ethhdr
      in if ip + sizeof_iphdr > length p then Some (XDP_PASS, p, st)
         else do {
           vihl \<leftarrow> load8 p (ip_ihl ip);
           let ip_header_len = 4 * unat (vihl AND 0x0F)
           in if ip_header_len < sizeof_iphdr then Some (XDP_PASS, p, st)
              else if ip + ip_header_len > length p then Some (XDP_PASS, p, st)
              else do {
                protocol \<leftarrow> load8 p (ip_protocol ip);
                let l4 = ip + ip_header_len
                in if protocol = IPPROTO_TCP
                   then (if l4 + sizeof_tcphdr > length p then Some (XDP_PASS, p, st)
                         else do {
                           flags \<leftarrow> load_tcp_flags p l4;
                           saddr \<leftarrow> load32 p (ip_saddr ip);
                           let (ddos_verdict, st) =
                                 (if \<not> pure_syn flags then ddos_check_v4 env saddr flags st
                                  else (XDP_PASS, st))
                           in if ddos_verdict = XDP_DROP then Some (XDP_DROP, p, st)
                              else verdict_of (tcp_balancer_handle_v4 env p eth ip l4 st)
                         })
                   else if protocol = IPPROTO_UDP
                   then (if l4 + sizeof_udphdr > length p then Some (XDP_PASS, p, st)
                         else verdict_of (udp_balancer_handle_v4 env p eth ip l4 st))
                   else Some (XDP_PASS, p, st)
              }
         })"

definition handle_ipv6 :: "xdp_env \<Rightarrow> packet \<Rightarrow> nat \<Rightarrow> xdp_maps \<Rightarrow> xdp_result" where
  "handle_ipv6 env p eth st =
     (let ip6 = eth + sizeof_ethhdr
      in if ip6 + sizeof_ipv6hdr > length p then Some (XDP_PASS, p, st)
         else do {
           nexthdr \<leftarrow> load8 p (ip6_nexthdr ip6);
           let l4 = ip6 + sizeof_ipv6hdr
           in if nexthdr = IPPROTO_TCP
              then (if l4 + sizeof_tcphdr > length p then Some (XDP_PASS, p, st)
                    else verdict_of (tcp_balancer_handle_v6 env p eth ip6 l4 st))
              else if nexthdr = IPPROTO_UDP
              then (if l4 + sizeof_udphdr > length p then Some (XDP_PASS, p, st)
                    else verdict_of (udp_balancer_handle_v6 env p eth ip6 l4 st))
              else Some (XDP_PASS, p, st)
         })"

definition balancer_handler :: "xdp_env \<Rightarrow> packet \<Rightarrow> xdp_maps \<Rightarrow> xdp_result" where
  "balancer_handler env p st =
     (let eth = 0
      in if eth + sizeof_ethhdr > length p then Some (XDP_PASS, p, st)
         else do {
           h_proto \<leftarrow> load16 p (eth_h_proto eth);
           if h_proto = bswap16 ETH_P_IP then handle_ipv4 env p eth st
           else if h_proto = bswap16 ETH_P_IPV6 then handle_ipv6 env p eth st
           else Some (XDP_PASS, p, st)
         })"

end
