(* ===== verification/Xdp_Safety.thy ===== *)
theory Xdp_Safety
  imports Xdp_Handler
begin

section \<open>What the XDP program does to packets\<close>

text \<open>
  Memory safety, the verdicts, the rewritten fields, and the invariants of the maps over any
  sequence of packets.
\<close>

subsection \<open>Backends are well formed\<close>

lemma maps_ok_bm: "maps_ok st \<Longrightarrow> backend_ok (backends_map st idx i)"
  by (rule backends_map_ok)

lemma maps_ok_ch: "maps_ok st \<Longrightarrow> backend_ok (ch_backends st i)"
  by (simp add: maps_ok_def)

text \<open>A backend of the active half, or of the consistent-hash table.\<close>

definition configured :: "xdp_maps \<Rightarrow> backend \<Rightarrow> bool" where
  "configured st b \<longleftrightarrow>
     (\<exists>i < MAX_BACKENDS. b = backends_map st (atomic_index st 0) i)
     \<or> (\<exists>i < MAX_CH_BACKENDS. b = ch_backends st i)"

lemma configured_ok: "maps_ok st \<Longrightarrow> configured st b \<Longrightarrow> backend_ok b"
  by (auto simp: configured_def maps_ok_bm maps_ok_ch)

lemma configured_data_frame: "data_frame st st' \<Longrightarrow> configured st' b = configured st b"
  by (simp add: configured_def data_frame_fields(3,6) data_frame_maps(2) [of st st'])

lemma configured_ddos_frame: "ddos_frame st st' \<Longrightarrow> configured st' b = configured st b"
  by (simp add: configured_def backends_map_def ddos_frame_fields(3,4,5,6))

lemma lookup_configured:
  "array_lookup MAX_BACKENDS (backends_map st (atomic_index st 0)) i = Some b \<Longrightarrow> configured st b"
  by (auto simp: configured_def array_lookup_def split: if_splits)

lemma tcp_schedule_configured:
  assumes "tcp_schedule env sk key len (backends_map st (atomic_index st 0)) info l st = (Some b, l', st')"
  shows "configured st b"
  using assms
proof (cases rule: tcp_schedule_cases)
  case RR
  then show ?thesis using rr.loop_bounded [OF RR(1)] by (auto intro: lookup_configured)
next
  case WRR
  then show ?thesis using wrr.loop_bounded [OF WRR(1)] by (auto intro: lookup_configured)
next
  case (CH h)
  then show ?thesis using ch_balancer_slot(1,2) [OF CH(1)] by (auto simp: configured_def)
qed simp

lemma new_session_configured:
  assumes n: "new_session_phase env sk key len sm (backends_map st (atomic_index st 0)) lv0 st = (Some lv, st')"
    and b: "lv_backend lv = Some b"
  shows "configured st b"
proof -
  obtain info where info: "hash_lookup sm key = Some info"
    using n by (auto simp: new_session_phase_def split: option.splits)
  obtain r l t where sched: "tcp_schedule env sk key len (backends_map st (atomic_index st 0)) info
      (last_backend_index lv0) st = (r, l, t)"
    by (metis prod_cases3)
  have "r = Some b" using n info sched b by (auto simp: new_session_phase_def split: option.splits)
  from tcp_schedule_configured [OF sched [unfolded this]] show ?thesis .
qed

lemma find_tcp_backend_configured:
  assumes ok: "maps_ok st" "sessions_ok st"
    and f: "find_tcp_backend env sk key tcp len st = (Some b, st')"
  shows "configured st b"
  using ok f
proof (cases rule: find_tcp_cases)
  case (Live lv s lv' s')
  then have "session_phase env (backends_map st (atomic_index st 0)) sk st = (lv, s)"
    by (simp add: tcp_lookup_def)
  then show ?thesis
    using Live(2) by (auto simp: session_phase_def Let_def intro: lookup_configured split: option.splits if_splits)
next
  case (New s lv s')
  have fr: "data_frame st s" by (rule tcp_lookup_step(3) [OF ok New(1)])
  have "backends_map s (atomic_index s 0) = backends_map st (atomic_index st 0)"
    unfolding data_frame_maps(2) [OF fr] data_frame_fields(3) [OF fr] ..
  then show ?thesis
    using new_session_configured [of env sk key len _ s _ lv s' b] New(3,4) configured_data_frame [OF fr]
    by simp
qed simp

text \<open>UDP: an active backend of the service; the session table is not touched.\<close>

lemma udp_schedule_step:
  assumes "udp_schedule key bm info l st = (r, l', st')"
  shows "sched_frame st st'" "maps_ok st \<Longrightarrow> maps_ok st'"
    "r = Some b \<Longrightarrow> array_lookup MAX_BACKENDS bm l' = Some b \<and> active b \<noteq> 0"
proof -
  have "sched_frame st st' \<and> (maps_ok st \<longrightarrow> maps_ok st')
    \<and> (r = Some b \<longrightarrow> array_lookup MAX_BACKENDS bm l' = Some b \<and> active b \<noteq> 0)"
  proof -
    consider (RR) "pick_loop (rr_balancer_handle bm info key) 0 l st = (r, l', st')"
    | (WRR) "pick_loop (wrr_balancer_handle bm info key) 0 l st = (r, l', st')"
    | (Other) "r = None" "st' = st"
      using assms by (auto simp: udp_schedule_def split: if_splits)
    then show ?thesis
    proof cases
      case RR
      then show ?thesis using rr.loop_frame [OF RR] rr.loop_maps_ok [OF _ RR]
          rr.loop_bounded [of bm info key 0 l st b l' st'] by blast
    next
      case WRR
      then show ?thesis using wrr.loop_frame [OF WRR] wrr.loop_maps_ok [OF _ WRR]
          wrr.loop_bounded [of bm info key 0 l st b l' st'] by blast
    next
      case Other
      then show ?thesis by simp
    qed
  qed
  then show "sched_frame st st'" "maps_ok st \<Longrightarrow> maps_ok st'"
    "r = Some b \<Longrightarrow> array_lookup MAX_BACKENDS bm l' = Some b \<and> active b \<noteq> 0" by blast+
qed

lemma find_udp_backend_step:
  assumes ok: "maps_ok st" "sessions_ok st" and f: "find_udp_backend env key len st = (r, st')"
  shows "maps_ok st' \<and> sessions_ok st' \<and> data_frame st st' \<and> tcp_session_state st' = tcp_session_state st
    \<and> (\<forall>b. r = Some b \<longrightarrow> configured st b \<and> active b \<noteq> 0)"
proof (cases "hash_lookup (services_map st (atomic_index st 0)) key")
  case None
  then show ?thesis using f ok by (simp add: find_udp_backend_def array_lookup_def)
next
  case (Some info)
  obtain x l s where sched: "udp_schedule key (backends_map st (atomic_index st 0)) info 0 st = (x, l, s)"
    by (metis prod_cases3)
  note step = udp_schedule_step [OF sched]
  have s: "maps_ok s" "data_frame st s" "tcp_session_state s = tcp_session_state st"
    using step(2) [OF ok(1)] sched_frame_step(1,2) [OF step(1)] by simp_all
  show ?thesis
  proof (cases x)
    case None
    then have "r = None" "st' = s" using f Some sched by (simp_all add: find_udp_backend_def array_lookup_def)
    then show ?thesis using s ok(2) by (simp add: sessions_ok_def)
  next
    case (Some b)
    let ?t = "backend_stats env (count_packet len) l s"
    have r: "r = Some b" "st' = service_stats env (count_packet len) (service_idx info) ?t"
      using f Some sched \<open>hash_lookup _ _ = Some info\<close> by (simp_all add: find_udp_backend_def array_lookup_def)
    have "data_frame st st'" unfolding r(2)
      by (rule data_frame_trans [OF data_frame_trans [OF s(2) data_frame_backend_stats] data_frame_service_stats])
    moreover have "configured st b" "active b \<noteq> 0"
      using step(3) [OF Some] lookup_configured by blast+
    ultimately show ?thesis using s ok(2) by (simp add: r sessions_ok_def)
  qed
qed

subsection \<open>Rewriting\<close>

lemma store_ex:
  assumes "off + length bs \<le> length p"
  obtains p' where "store p off bs = Some p'" "length p' = length p"
    "load p' off (length bs) = Some bs"
    "\<And>i n. i + n \<le> off \<or> off + length bs \<le> i \<Longrightarrow> load p' i n = load p i n"
    "\<And>i. i < length p \<Longrightarrow> i < off \<or> off + length bs \<le> i \<Longrightarrow> p' ! i = p ! i"
proof -
  obtain p' where s: "store p off bs = Some p'" using assms by (simp add: store_total)
  show ?thesis
    by (rule that [OF s length_store [OF s] load_store_same [OF s]])
      (use load_store_before [OF s] load_store_after [OF s] nth_store [OF s] in auto)
qed

lemma rewrite_l2_eq:
  assumes "12 \<le> length p" "length m = 6"
  shows "rewrite_l2 p 0 m = Some (m @ take 6 p @ drop 12 p)"
  using assms by (simp add: rewrite_l2_def field_defs load_def store_def)

lemma load_prefix_kept:
  "12 \<le> length p \<Longrightarrow> length m = 6 \<Longrightarrow> 12 \<le> i \<Longrightarrow> load (m @ take 6 p @ drop 12 p) i n = load p i n"
  by (simp add: load_def)

text \<open>The fields of an IPv6 packet after the rewrite, and that no other byte changes.\<close>

definition v6_rewritten ::
    "(u16 \<Rightarrow> bytes \<Rightarrow> bytes \<Rightarrow> u16 \<Rightarrow> u16 \<Rightarrow> u16) \<Rightarrow> nat \<Rightarrow> backend \<Rightarrow> packet \<Rightarrow> packet \<Rightarrow> bool" where
  "v6_rewritten update_checksum off b p p' \<longleftrightarrow> length p' = length p
     \<and> load p' 0 6 = Some (mac b) \<and> load p' 6 6 = load p 0 6
     \<and> load p' 38 16 = Some (be_addr b)
     \<and> load16 p' 56 = Some (bswap16 (be_port b))
     \<and> load16 p' off = Some (update_checksum (the (load16 p off)) (the (load p 38 16)) (be_addr b)
           (the (load16 p 56)) (bswap16 (be_port b)))
     \<and> (\<forall>i < length p. 12 \<le> i \<longrightarrow> \<not> (38 \<le> i \<and> i < 54) \<longrightarrow> \<not> (56 \<le> i \<and> i < 58)
          \<longrightarrow> \<not> (off \<le> i \<and> i < off + 2) \<longrightarrow> p' ! i = p ! i)"

text \<open>The first three writes: the hardware addresses, the destination address, the port.\<close>

lemma rewrite_v6_addresses:
  assumes lb: "length (mac b) = 6" "length (be_addr b) = 16" and len: "60 \<le> length p"
  obtains p1 p2 p3 where "rewrite_l2 p 0 (mac b) = Some p1" "store p1 38 (be_addr b) = Some p2"
    "store16 p2 56 (bswap16 (be_port b)) = Some p3" "length p3 = length p"
    "load p3 0 6 = Some (mac b)" "load p3 6 6 = load p 0 6" "load p3 38 16 = Some (be_addr b)"
    "load p3 56 2 = Some (bytes16 (bswap16 (be_port b)))"
    "\<And>i n. 58 \<le> i \<Longrightarrow> load p3 i n = load p i n"
    "\<And>i. i < length p \<Longrightarrow> 12 \<le> i \<Longrightarrow> \<not> (38 \<le> i \<and> i < 54) \<Longrightarrow> \<not> (56 \<le> i \<and> i < 58) \<Longrightarrow> p3 ! i = p ! i"
proof -
  let ?p1 = "mac b @ take 6 p @ drop 12 p"
  have p1: "rewrite_l2 p 0 (mac b) = Some ?p1" "length ?p1 = length p"
    using len lb by (simp_all add: rewrite_l2_eq)
  have p1_low: "load ?p1 0 6 = Some (mac b)" "load ?p1 6 6 = load p 0 6"
    using len lb by (simp_all add: load_def)
  have p1_nth: "?p1 ! i = p ! i" if "12 \<le> i" "i < length p" for i
  proof -
    from that(1) obtain k where "i = 12 + k" by (auto simp: le_iff_add)
    then show ?thesis using that(2) len lb by (simp add: nth_append)
  qed
  obtain p2 where p2: "store ?p1 38 (be_addr b) = Some p2" "length p2 = length ?p1"
      "load p2 38 16 = Some (be_addr b)"
      "\<And>i n. i + n \<le> 38 \<or> 54 \<le> i \<Longrightarrow> load p2 i n = load ?p1 i n"
      "\<And>i. i < length ?p1 \<Longrightarrow> i < 38 \<or> 54 \<le> i \<Longrightarrow> p2 ! i = ?p1 ! i"
    using store_ex [of 38 "be_addr b" ?p1] len lb p1(2) by auto
  obtain p3 where p3: "store16 p2 56 (bswap16 (be_port b)) = Some p3" "length p3 = length p2"
      "load p3 56 2 = Some (bytes16 (bswap16 (be_port b)))"
      "\<And>i n. i + n \<le> 56 \<or> 58 \<le> i \<Longrightarrow> load p3 i n = load p2 i n"
      "\<And>i. i < length p2 \<Longrightarrow> i < 56 \<or> 58 \<le> i \<Longrightarrow> p3 ! i = p2 ! i"
    using store_ex [of 56 "bytes16 (bswap16 (be_port b))" p2] len p1(2) p2(2) by (auto simp: store16_def)
  have "load p3 i n = load p i n" if "58 \<le> i" for i n
    using that len lb by (simp add: p3(4) p2(4) load_prefix_kept)
  moreover have "p3 ! i = p ! i" if "i < length p" "12 \<le> i" "\<not> (38 \<le> i \<and> i < 54)" "\<not> (56 \<le> i \<and> i < 58)" for i
    using that p3(5) [of i] p2(5) [of i] p1_nth [of i] p1(2) p2(2) by auto
  ultimately show ?thesis
    by (intro that [OF p1(1) p2(1) p3(1)]) (use p1(2) p2(2) p3(2,3) in \<open>simp_all add: p3(4) p2(3,4) p1_low\<close>)
qed

lemma rewrite_v6_fields:
  assumes b: "backend_ok b" and off: "58 \<le> off" "off + 2 \<le> length p"
  obtains p' where "rewrite_v6 upd off p 0 14 54 b = Some p'" "v6_rewritten upd off b p p'"
proof -
  have lb: "length (mac b) = 6" "length (be_addr b) = 16" using b by (simp_all add: backend_ok_def)
  have len: "60 \<le> length p" using off by simp
  obtain p1 p2 p3 where run: "rewrite_l2 p 0 (mac b) = Some p1" "store p1 38 (be_addr b) = Some p2"
      "store16 p2 56 (bswap16 (be_port b)) = Some p3"
    and p3: "length p3 = length p" "load p3 0 6 = Some (mac b)" "load p3 6 6 = load p 0 6" "load p3 38 16 = Some (be_addr b)"
      "load p3 56 2 = Some (bytes16 (bswap16 (be_port b)))" "\<And>i n. 58 \<le> i \<Longrightarrow> load p3 i n = load p i n"
      "\<And>i. i < length p \<Longrightarrow> 12 \<le> i \<Longrightarrow> \<not> (38 \<le> i \<and> i < 54) \<Longrightarrow> \<not> (56 \<le> i \<and> i < 58) \<Longrightarrow> p3 ! i = p ! i"
    by (rule rewrite_v6_addresses [OF lb len]) blast
  obtain da dp ck where some: "load p 38 16 = Some da" "load16 p 56 = Some dp" "load16 p off = Some ck"
    using len off by (simp add: load_def load16_def)
  let ?c = "upd ck da (be_addr b) dp (bswap16 (be_port b))"
  obtain p4 where p4: "store16 p3 off ?c = Some p4" "length p4 = length p3"
      "load p4 off 2 = Some (bytes16 ?c)"
      "\<And>i n. i + n \<le> off \<or> off + 2 \<le> i \<Longrightarrow> load p4 i n = load p3 i n"
      "\<And>i. i < length p3 \<Longrightarrow> i < off \<or> off + 2 \<le> i \<Longrightarrow> p4 ! i = p3 ! i"
    using store_ex [of off "bytes16 ?c" p3] off p3(1) by (auto simp: store16_def)
  have "load16 p3 off = Some ck" using off some(3) by (simp add: load16_def p3(6))
  moreover have "load p2 38 16 = Some (be_addr b)" by (rule load_store_same [OF run(2), unfolded lb(2)])
  ultimately have "rewrite_v6 upd off p 0 14 54 b = Some p4"
    unfolding rewrite_v6_def field_defs
    using p3(4,5) by (simp add: some run p4(1) load16_def [of p3 56])
  moreover have "v6_rewritten upd off b p p4"
    unfolding v6_rewritten_def some option.sel
  proof (intro conjI allI impI)
    show "load16 p4 off = Some ?c" "load16 p4 56 = Some (bswap16 (be_port b))"
      using off by (simp_all add: load16_def p4(3,4) p3(5))
    show "p4 ! i = p ! i" if "i < length p" "12 \<le> i" "\<not> (38 \<le> i \<and> i < 54)" "\<not> (56 \<le> i \<and> i < 58)"
        "\<not> (off \<le> i \<and> i < off + 2)" for i
      using that p4(5) [of i] p3(7) [of i] p3(1) by auto
  qed (use off p3(1) p4(2) in \<open>simp_all add: p4(4) p3(2-4)\<close>)
  ultimately show ?thesis by (rule that)
qed

subsection \<open>The protocol handlers\<close>

text \<open>
  What a handler delivers: always a result, kept invariants, and either the untouched packet
  (3) or a packet forwarded as \<open>fwd\<close> says (0).
\<close>

definition delivers :: "xdp_maps \<Rightarrow> packet \<Rightarrow> (backend \<Rightarrow> packet \<Rightarrow> bool) \<Rightarrow> handler_result \<Rightarrow> bool" where
  "delivers st p fwd res \<longleftrightarrow>
     (case res of
        None \<Rightarrow> False
      | Some (r, p', st') \<Rightarrow> maps_ok st' \<and> sessions_ok st' \<and> data_frame st st'
          \<and> (r = 3 \<and> p' = p \<or> r = 0 \<and> (\<exists>b. configured st b \<and> fwd b p')))"

definition l2_forwarded :: "packet \<Rightarrow> backend \<Rightarrow> packet \<Rightarrow> bool" where
  "l2_forwarded p b p' \<longleftrightarrow> p' = mac b @ take 6 p @ drop 12 p"

lemma deliversI:
  assumes "maps_ok st'" "sessions_ok st'" "data_frame st st'"
    and "r = None \<Longrightarrow> res = Some (3, p, st')"
    and "\<And>b. r = Some b \<Longrightarrow> configured st b \<and> (\<exists>p'. res = Some (0, p', st') \<and> fwd b p')"
  shows "delivers st p fwd res"
proof (cases r)
  case None
  then show ?thesis using assms by (simp add: delivers_def)
next
  case (Some b)
  then show ?thesis using assms(1-3) assms(5) [of b] by (auto simp: delivers_def)
qed

lemma tcp_v4_delivers:
  assumes ok: "maps_ok st" "sessions_ok st" and len: "34 \<le> length p" "l4 + 20 \<le> length p"
  shows "delivers st p (l2_forwarded p) (tcp_balancer_handle_v4 env p 0 14 l4 st)"
proof -
  obtain daddr dport saddr sport flags where loads: "load32 p 30 = Some daddr" "load16 p (Suc (Suc l4)) = Some dport"
      "load32 p 26 = Some saddr" "load16 p l4 = Some sport" "load_tcp_flags p l4 = Some flags"
    using len by (simp add: load32_total load16_total load_tcp_flags_total)
  let ?key = "make_service_key (addr_of_v4 daddr) (bswap16 dport) IPPROTO_TCP 4"
  let ?sk = "\<lparr>src_ipv6 = addr_of_v4 saddr, dst_ipv6 = addr_of_v4 daddr, src_port = sport, dst_port = dport\<rparr>"
  obtain r st' where f: "find_tcp_backend env ?sk ?key flags (packet_len_of p 0) st = (r, st')"
    by (rule prod.exhaust)
  show ?thesis
  proof (rule deliversI [of st' st r])
    show "maps_ok st'" "sessions_ok st'" "data_frame st st'"
      using find_tcp_backend_step [OF ok f] by simp_all
    show "tcp_balancer_handle_v4 env p 0 14 l4 st = Some (3, p, st')" if "r = None"
      using f that by (simp add: tcp_balancer_handle_v4_def field_defs loads)
    show "configured st b \<and> (\<exists>p'. tcp_balancer_handle_v4 env p 0 14 l4 st = Some (0, p', st') \<and> l2_forwarded p b p')"
      if r: "r = Some b" for b
      using f r find_tcp_backend_configured [OF ok f [unfolded r]] rewrite_l2_eq [of p "mac b"] len
        configured_ok [OF ok(1), of b]
      by (simp add: tcp_balancer_handle_v4_def field_defs loads l2_forwarded_def backend_ok_def)
  qed
qed

lemma udp_v4_delivers:
  assumes ok: "maps_ok st" "sessions_ok st" and len: "34 \<le> length p" "l4 + 8 \<le> length p"
  shows "delivers st p (l2_forwarded p) (udp_balancer_handle_v4 env p 0 14 l4 st)"
proof -
  obtain daddr dport where loads: "load32 p 30 = Some daddr" "load16 p (Suc (Suc l4)) = Some dport"
    using len by (simp add: load32_total load16_total)
  let ?key = "make_service_key (addr_of_v4 daddr) (bswap16 dport) IPPROTO_UDP 4"
  obtain r st' where f: "find_udp_backend env ?key (packet_len_of p 0) st = (r, st')"
    by (rule prod.exhaust)
  note step = find_udp_backend_step [OF ok f]
  show ?thesis
  proof (rule deliversI [of st' st r])
    show "maps_ok st'" "sessions_ok st'" "data_frame st st'" using step by simp_all
    show "udp_balancer_handle_v4 env p 0 14 l4 st = Some (3, p, st')" if "r = None"
      using f that by (simp add: udp_balancer_handle_v4_def field_defs loads)
    show "configured st b \<and> (\<exists>p'. udp_balancer_handle_v4 env p 0 14 l4 st = Some (0, p', st') \<and> l2_forwarded p b p')"
      if r: "r = Some b" for b
      using f r step rewrite_l2_eq [of p "mac b"] len configured_ok [OF ok(1), of b]
      by (simp add: udp_balancer_handle_v4_def field_defs loads l2_forwarded_def backend_ok_def)
  qed
qed

lemma tcp_v6_delivers:
  assumes ok: "maps_ok st" "sessions_ok st" and len: "74 \<le> length p"
  shows "delivers st p (\<lambda>b p'. v6_rewritten update_tcp_checksum_v6 70 b p p')
    (tcp_balancer_handle_v6 env p 0 14 54 st)"
proof -
  obtain daddr dport saddr sport flags where loads: "load p 38 16 = Some daddr" "load16 p 56 = Some dport"
      "load p 22 16 = Some saddr" "load16 p 54 = Some sport" "load_tcp_flags p 54 = Some flags"
    using len by (simp add: load_def load16_total load_tcp_flags_total)
  let ?key = "make_service_key daddr (bswap16 dport) IPPROTO_TCP 6"
  let ?sk = "\<lparr>src_ipv6 = saddr, dst_ipv6 = daddr, src_port = sport, dst_port = dport\<rparr>"
  obtain r st' where f: "find_tcp_backend env ?sk ?key flags (packet_len_of p 0) st = (r, st')"
    by (rule prod.exhaust)
  show ?thesis
  proof (rule deliversI [of st' st r])
    show "maps_ok st'" "sessions_ok st'" "data_frame st st'"
      using find_tcp_backend_step [OF ok f] by simp_all
    show "tcp_balancer_handle_v6 env p 0 14 54 st = Some (3, p, st')" if "r = None"
      using f that by (simp add: tcp_balancer_handle_v6_def field_defs loads)
    show "configured st b \<and> (\<exists>p'. tcp_balancer_handle_v6 env p 0 14 54 st = Some (0, p', st')
        \<and> v6_rewritten update_tcp_checksum_v6 70 b p p')" if r: "r = Some b" for b
    proof -
      have c: "configured st b" by (rule find_tcp_backend_configured [OF ok f [unfolded r]])
      then have b: "backend_ok b" by (rule configured_ok [OF ok(1)])
      obtain p' where "rewrite_v6 update_tcp_checksum_v6 70 p 0 14 54 b = Some p'"
          "v6_rewritten update_tcp_checksum_v6 70 b p p'"
        using rewrite_v6_fields [OF b, of 70 p] len by auto
      then show ?thesis using f r c by (simp add: tcp_balancer_handle_v6_def field_defs loads)
    qed
  qed
qed

lemma udp_v6_delivers:
  assumes ok: "maps_ok st" "sessions_ok st" and len: "62 \<le> length p"
  shows "delivers st p (\<lambda>b p'. v6_rewritten update_udp_checksum_v6 60 b p p')
    (udp_balancer_handle_v6 env p 0 14 54 st)"
proof -
  obtain daddr dport where loads: "load p 38 16 = Some daddr" "load16 p 56 = Some dport"
    using len by (simp add: load_def load16_total)
  let ?key = "make_service_key daddr (bswap16 dport) IPPROTO_UDP 6"
  obtain r st' where f: "find_udp_backend env ?key (packet_len_of p 0) st = (r, st')"
    by (rule prod.exhaust)
  note step = find_udp_backend_step [OF ok f]
  show ?thesis
  proof (rule deliversI [of st' st r])
    show "maps_ok st'" "sessions_ok st'" "data_frame st st'" using step by simp_all
    show "udp_balancer_handle_v6 env p 0 14 54 st = Some (3, p, st')" if "r = None"
      using f that by (simp add: udp_balancer_handle_v6_def field_defs loads)
    show "configured st b \<and> (\<exists>p'. udp_balancer_handle_v6 env p 0 14 54 st = Some (0, p', st')
        \<and> v6_rewritten update_udp_checksum_v6 60 b p p')" if r: "r = Some b" for b
    proof -
      have c: "configured st b" using step r by simp
      then have b: "backend_ok b" by (rule configured_ok [OF ok(1)])
      obtain p' where "rewrite_v6 update_udp_checksum_v6 60 p 0 14 54 b = Some p'"
          "v6_rewritten update_udp_checksum_v6 60 b p p'"
        using rewrite_v6_fields [OF b, of 60 p] len by auto
      then show ?thesis using f r c by (simp add: udp_balancer_handle_v6_def field_defs loads)
    qed
  qed
qed

subsection \<open>The program\<close>

text \<open>A forwarded packet, by its EtherType.\<close>

definition well_forwarded :: "xdp_maps \<Rightarrow> packet \<Rightarrow> packet \<Rightarrow> bool" where
  "well_forwarded st p p' \<longleftrightarrow>
     (\<exists>b. configured st b \<and>
        (load16 p 12 = Some (bswap16 ETH_P_IP) \<and> l2_forwarded p b p'
         \<or> load16 p 12 = Some (bswap16 ETH_P_IPV6)
           \<and> (load8 p 20 = Some IPPROTO_TCP \<and> v6_rewritten update_tcp_checksum_v6 70 b p p'
              \<or> load8 p 20 = Some IPPROTO_UDP \<and> v6_rewritten update_udp_checksum_v6 60 b p p')))"

text \<open>The program changes only what the DDoS check and the packet path change.\<close>

definition xdp_frame :: "xdp_maps \<Rightarrow> xdp_maps \<Rightarrow> bool" where
  "xdp_frame st st' \<longleftrightarrow> (\<exists>mid. ddos_frame st mid \<and> data_frame mid st')"

definition xdp_post :: "xdp_maps \<Rightarrow> packet \<Rightarrow> xdp_result \<Rightarrow> bool" where
  "xdp_post st p res \<longleftrightarrow>
     (case res of
        None \<Rightarrow> False
      | Some (v, p', st') \<Rightarrow> maps_ok st' \<and> sessions_ok st' \<and> xdp_frame st st'
          \<and> (v = XDP_PASS \<and> p' = p \<or> v = XDP_DROP \<and> p' = p \<or> v = XDP_TX \<and> well_forwarded st p p')
          \<and> (quiet st \<longrightarrow> quiet st' \<and> v \<noteq> XDP_DROP))"

lemma xdp_frame_refl [simp]: "xdp_frame st st"
  unfolding xdp_frame_def by (rule exI [of _ st]) simp

lemma xdp_post_pass: "maps_ok st \<Longrightarrow> sessions_ok st \<Longrightarrow> xdp_post st p (Some (XDP_PASS, p, st))"
  by (simp add: xdp_post_def)

lemma quiet_data_frame: "data_frame st st' \<Longrightarrow> quiet st' = quiet st"
  by (simp add: quiet_def data_frame_fields(10,11))

lemma xdp_post_verdict:
  assumes d: "delivers mid p fwd res" and mid: "ddos_frame st mid" "quiet st \<Longrightarrow> quiet mid"
    and fwd: "\<And>b p'. configured st b \<Longrightarrow> fwd b p' \<Longrightarrow> well_forwarded st p p'"
  shows "xdp_post st p (verdict_of res)"
proof -
  obtain r p' st' where res: "res = Some (r, p', st')"
    and post: "maps_ok st'" "sessions_ok st'" "data_frame mid st'"
      "r = 3 \<and> p' = p \<or> r = 0 \<and> (\<exists>b. configured st b \<and> fwd b p')"
    using d configured_ddos_frame [OF mid(1)] by (auto simp: delivers_def split: option.splits prod.splits)
  have "xdp_frame st st'" using mid(1) post(3) by (auto simp: xdp_frame_def)
  moreover have "quiet st \<Longrightarrow> quiet st'" using mid(2) quiet_data_frame [OF post(3)] by simp
  ultimately show ?thesis using post fwd by (auto simp: xdp_post_def verdict_of_def res)
qed

lemma handle_ipv4_post:
  assumes ok: "maps_ok st" "sessions_ok st" and proto: "load16 p 12 = Some (bswap16 ETH_P_IP)"
  shows "xdp_post st p (handle_ipv4 env p 0 st)"
proof (cases "34 \<le> length p")
  case False
  then show ?thesis using xdp_post_pass [OF ok] by (simp add: handle_ipv4_def sizeof_defs)
next
  case len: True
  have fwd: "configured st b \<Longrightarrow> l2_forwarded p b p' \<Longrightarrow> well_forwarded st p p'" for b p'
    using proto by (auto simp: well_forwarded_def)
  let ?hl = "4 * unat (p ! 14 AND 0x0F)"
  let ?l4 = "14 + ?hl"
  have udp: "xdp_post st p (verdict_of (udp_balancer_handle_v4 env p 0 14 ?l4 st))" if "?l4 + 8 \<le> length p"
    using udp_v4_delivers [OF ok len that] by (rule xdp_post_verdict) (use fwd in simp_all)
  have tcp: "xdp_post st p
      (let (v, st) = (if \<not> pure_syn flags then ddos_check_v4 env saddr flags st else (XDP_PASS, st))
       in if v = XDP_DROP then Some (XDP_DROP, p, st)
          else verdict_of (tcp_balancer_handle_v4 env p 0 14 ?l4 st))"
    if l4: "?l4 + 20 \<le> length p" for flags saddr
  proof (cases "pure_syn flags")
    case True
    have "xdp_post st p (verdict_of (tcp_balancer_handle_v4 env p 0 14 ?l4 st))"
      using tcp_v4_delivers [OF ok len l4] by (rule xdp_post_verdict) (use fwd in simp_all)
    then show ?thesis using True by simp
  next
    case False
    obtain v mid where d: "ddos_check_v4 env saddr flags st = (v, mid)" by (rule prod.exhaust)
    note fr = ddos_check_frame [OF ok(1) d]
    have mid: "maps_ok mid" "sessions_ok mid" "ddos_frame st mid" "quiet st \<Longrightarrow> quiet mid \<and> v = XDP_PASS"
      using fr ok ddos_frame_fields(9) [of st mid] ddos_check_quiet [OF ok(1) _ False d]
      by (auto simp: sessions_ok_def)
    have "xdp_post st p (verdict_of (tcp_balancer_handle_v4 env p 0 14 ?l4 mid))"
      using tcp_v4_delivers [OF mid(1,2) len l4] by (rule xdp_post_verdict) (use fwd mid in simp_all)
    moreover have "xdp_post st p (Some (XDP_DROP, p, mid))" if "v = XDP_DROP"
    proof -
      have "xdp_frame st mid" unfolding xdp_frame_def using mid(3) by (intro exI [of _ mid]) simp
      then show ?thesis using mid that by (auto simp: xdp_post_def)
    qed
    ultimately show ?thesis using False d by simp
  qed
  show ?thesis
    using udp tcp len xdp_post_pass [OF ok]
    by (simp add: handle_ipv4_def sizeof_defs field_defs load8_total load_tcp_flags_total load32_total Let_def)
qed

lemma handle_ipv6_post:
  assumes ok: "maps_ok st" "sessions_ok st" and proto: "load16 p 12 = Some (bswap16 ETH_P_IPV6)"
  shows "xdp_post st p (handle_ipv6 env p 0 st)"
proof (cases "54 \<le> length p")
  case False
  then show ?thesis using xdp_post_pass [OF ok] by (simp add: handle_ipv6_def sizeof_defs)
next
  case len: True
  then have nh: "load8 p 20 = Some (p ! 20)" by (simp add: load8_total)
  have udp: "xdp_post st p (verdict_of (udp_balancer_handle_v6 env p 0 14 54 st))"
    if "62 \<le> length p" "p ! 20 = IPPROTO_UDP"
    using udp_v6_delivers [OF ok that(1)] by (rule xdp_post_verdict)
      (use proto nh that in \<open>auto simp: well_forwarded_def\<close>)
  have tcp: "xdp_post st p (verdict_of (tcp_balancer_handle_v6 env p 0 14 54 st))"
    if "74 \<le> length p" "p ! 20 = IPPROTO_TCP"
    using tcp_v6_delivers [OF ok that(1)] by (rule xdp_post_verdict)
      (use proto nh that in \<open>auto simp: well_forwarded_def\<close>)
  show ?thesis
    using udp tcp len nh xdp_post_pass [OF ok]
    by (simp add: handle_ipv6_def sizeof_defs field_defs Let_def)
qed

lemma balancer_handler_post:
  assumes ok: "maps_ok st" "sessions_ok st"
  shows "xdp_post st p (balancer_handler env p st)"
  using handle_ipv4_post [OF ok, of p env] handle_ipv6_post [OF ok, of p env] xdp_post_pass [OF ok, of p]
  by (simp add: balancer_handler_def sizeof_defs field_defs load16_total)

subsection \<open>Runs of the program\<close>

text \<open>
  One step of the data plane: some CPU processes some packet at some time. The maps are
  reachable when a sequence of packets leads to them.
\<close>

inductive xdp_step :: "xdp_maps \<Rightarrow> xdp_maps \<Rightarrow> bool" where
  packet: "balancer_handler env p st = Some (v, p', st') \<Longrightarrow> xdp_step st st'"

inductive xdp_reachable :: "xdp_maps \<Rightarrow> xdp_maps \<Rightarrow> bool" for st0 where
  start: "xdp_reachable st0 st0"
| step: "xdp_reachable st0 st \<Longrightarrow> xdp_step st st' \<Longrightarrow> xdp_reachable st0 st'"

inductive_cases xdp_stepE: "xdp_step st st'"

inductive_simps xdp_step_iff: "xdp_step st st'"

lemma xdp_step_invariant:
  assumes "xdp_step st st'" and "maps_ok st" "sessions_ok st"
  shows "maps_ok st'" "sessions_ok st'" "xdp_frame st st'" "quiet st \<Longrightarrow> quiet st'"
proof -
  have "maps_ok st' \<and> sessions_ok st' \<and> xdp_frame st st' \<and> (quiet st \<longrightarrow> quiet st')"
    using assms(1)
  proof (rule xdp_stepE)
    fix env p v p'
    assume "balancer_handler env p st = Some (v, p', st')"
    then show ?thesis using balancer_handler_post [OF assms(2,3), of p env] by (auto simp: xdp_post_def)
  qed
  then show "maps_ok st'" "sessions_ok st'" "xdp_frame st st'" "quiet st \<Longrightarrow> quiet st'" by blast+
qed

lemma xdp_reachable_invariant:
  "xdp_reachable st0 st \<Longrightarrow> maps_ok st0 \<Longrightarrow> sessions_ok st0 \<Longrightarrow>
     maps_ok st \<and> sessions_ok st \<and> (quiet st0 \<longrightarrow> quiet st)"
  by (induction rule: xdp_reachable.induct) (auto dest: xdp_step_invariant)

lemma initial_quiet: "quiet initial_maps" "sessions_ok initial_maps"
  by (simp_all add: quiet_def initial_maps_def hash_lookup_def sessions_ok_def)

end
