(* ===== verification/Balancer_System.thy ===== *)
theory Balancer_System
  imports Reload_Spec Xdp_Safety Session_Affinity
begin

section \<open>Control plane and data path together\<close>

text \<open>
  The process and the XDP program share the BPF maps: a step of the system is a packet, a command
  of the configuration manager or one second of maintenance, in any order. The manager's data
  plane is the XDP one. A command is a step when its reload returns; what it asks the data plane
  for is what it hands to one that only writes the configuration down (\<open>asks\<close>).
\<close>

definition asks :: "(reload_error, base_config option) reload" where
  "asks conf d = (None, Some conf)"

definition finishes :: "host \<Rightarrow> base_config option \<Rightarrow> xdp_dataplane \<Rightarrow> bool" where
  "finishes h c d \<longleftrightarrow> (case c of None \<Rightarrow> True | Some conf \<Rightarrow> comes_back (fst (ReloadConfig h conf d)))"

type_synonym system = "config_manager \<times> xdp_dataplane"

definition initial_dataplane :: "bool \<Rightarrow> xdp_dataplane" where
  "initial_dataplane opened =
     \<lparr>maps_opened = opened, m_isFirstRun = True, m_xdpBackends = [], m_xdpKeys = [], m_xdpServices = [],
      dp_currConfig = \<lparr>services = [], ddosConf = None\<rparr>, m_chManager = [], kernel = initial_maps\<rparr>"

inductive system_step :: "host \<Rightarrow> system \<Rightarrow> system \<Rightarrow> bool" for h where
  sys_packet: "xdp_step (kernel d) st \<Longrightarrow> system_step h (m, d) (m, d\<lparr>kernel := st\<rparr>)"
| sys_load: "finishes h (Some conf) (snd md) \<Longrightarrow> system_step h md (LoadConfig (Some (ReloadConfig h)) conf md)"
| sys_add: "finishes h (snd (AddService (Some asks) srv (fst md, None))) (snd md) \<Longrightarrow>
     system_step h md (AddService (Some (ReloadConfig h)) srv md)"
| sys_set: "finishes h (snd (snd (SetRealState (Some asks) request (fst md, None)))) (snd md) \<Longrightarrow>
     SetRealState (Some (ReloadConfig h)) request md = (err, md') \<Longrightarrow> system_step h md md'"
| sys_maintain: "system_step h (m, d) (m, ChPeriodicMaintenance d)"

inductive_cases system_stepE: "system_step h md md'"

inductive system_reachable :: "host \<Rightarrow> system \<Rightarrow> bool" for h where
  sys_start: "system_reachable h (\<lparr>m_currConfig = None\<rparr>, initial_dataplane opened)"
| sys_step: "system_reachable h md \<Longrightarrow> system_step h md md' \<Longrightarrow> system_reachable h md'"

subsection \<open>Maintenance keeps the invariant\<close>

lemma periodicMaintenance_kernel_ok:
  "\<forall>(k, e) \<in> set m. list_all backend_ok (m_backends (se_instance e)) \<Longrightarrow> maps_ok st \<Longrightarrow> sessions_ok st \<Longrightarrow>
     maps_ok (snd (periodicMaintenance (ch_callback d) (m, st)))
     \<and> sessions_ok (snd (periodicMaintenance (ch_callback d) (m, st)))"
proof (induction m arbitrary: st)
  case (Cons ke m)
  obtain k e where ke: "ke = (k, e)" by (rule prod.exhaust)
  have b: "list_all backend_ok (m_backends (snd (tickMergeTimer (se_instance e))))"
    using Cons.prems(1) tick_backends [of "se_instance e"] by (simp add: ke tick_def)
  show ?case using Cons call_bpf_ok [OF _ b] call_bpf_sessions
    by (auto simp: ke Let_def split_beta)
qed simp

lemma maintenance_ok: "dataplane_ok d \<Longrightarrow> dataplane_ok (ChPeriodicMaintenance d)"
proof -
  assume d: "dataplane_ok d"
  then have c: "services_ok (m_chManager d)" "\<forall>(k, e) \<in> set (m_chManager d). list_all backend_ok (m_backends (se_instance e))"
    by (simp_all add: dataplane_ok_def chs_ok_def)
  have "chs_ok (fst (periodicMaintenance (ch_callback d) (m_chManager d, kernel d)))"
    using periodicMaintenance_ok [OF c(1), of "ch_callback d" "kernel d"] c(2)
    by (auto simp: chs_ok_def periodicMaintenance_ticks tick_backends)
  then show ?thesis using periodicMaintenance_kernel_ok [OF c(2), of "kernel d" d] d
    by (simp add: ChPeriodicMaintenance_def dataplane_ok_def split_beta Let_def)
qed

subsection \<open>The invariant of the system\<close>

lemma dataplane_ok_initial: "dataplane_ok (initial_dataplane opened)"
  by (simp add: dataplane_ok_def initial_dataplane_def maps_ok_initial chs_ok_def)
    (simp add: sessions_ok_def initial_maps_def hash_lookup_def)

lemma dataplane_ok_kernel:
  "dataplane_ok d \<Longrightarrow> maps_ok st \<Longrightarrow> sessions_ok st \<Longrightarrow> dataplane_ok (d\<lparr>kernel := st\<rparr>)"
  by (simp add: dataplane_ok_def)

text \<open>A packet at a state of the invariant.\<close>

lemma dataplane_packet:
  assumes d: "dataplane_ok d"
  shows "\<exists>v p' st'. balancer_handler env p (kernel d) = Some (v, p', st') \<and> v \<in> {XDP_PASS, XDP_DROP, XDP_TX}
    \<and> length p' = length p \<and> dataplane_ok (d\<lparr>kernel := st'\<rparr>)"
proof -
  have "xdp_post (kernel d) p (balancer_handler env p (kernel d))"
    by (rule balancer_handler_post) (use d in \<open>simp_all add: dataplane_ok_def\<close>)
  then obtain v p' st' where run: "balancer_handler env p (kernel d) = Some (v, p', st')" "maps_ok st'" "sessions_ok st'"
      "v = XDP_PASS \<and> p' = p \<or> v = XDP_DROP \<and> p' = p \<or> v = XDP_TX \<and> well_forwarded (kernel d) p p'"
    by (auto simp: xdp_post_def split: option.splits prod.splits)
  have "backend_ok b" if "configured (kernel d) b" for b
    using configured_ok that d by (auto simp: dataplane_ok_def)
  then have "length p' = length p"
    using run(4) by (auto simp: well_forwarded_def v6_rewritten_def l2_forwarded_def backend_ok_def
        load16_def load_def split: if_splits)
  then show ?thesis using run dataplane_ok_kernel [OF d run(2,3)] by auto
qed

lemma system_step_ok:
  assumes "host_ok h" "system_step h md md'" "dataplane_ok (snd md)"
  shows "dataplane_ok (snd md')"
  using assms(2)
proof (rule system_stepE)
  fix d st m assume "md = (m, d)" "md' = (m, d\<lparr>kernel := st\<rparr>)" "xdp_step (kernel d) st"
  then show ?thesis using assms(3) xdp_step_invariant(1,2) [of "kernel d" st]
    by (simp add: dataplane_ok_kernel) (simp add: dataplane_ok_def)
next
  fix conf assume "md' = LoadConfig (Some (ReloadConfig h)) conf md"
  then show ?thesis using assms xdp.LoadConfig_inv [of h "snd md" conf "fst md"] by simp
next
  fix srv assume "md' = AddService (Some (ReloadConfig h)) srv md"
  then show ?thesis using assms xdp.AddService_inv [of h "snd md" srv "fst md"] by simp
next
  fix request err assume "SetRealState (Some (ReloadConfig h)) request md = (err, md')"
  then show ?thesis using assms xdp.SetRealState_inv [of h "snd md" request "fst md"] by simp
next
  fix d m assume "md = (m, d)" "md' = (m, ChPeriodicMaintenance d)"
  then show ?thesis using assms(3) maintenance_ok by simp
qed

lemma system_reachable_ok: "system_reachable h md \<Longrightarrow> host_ok h \<Longrightarrow> dataplane_ok (snd md)"
  by (induction rule: system_reachable.induct) (auto simp: dataplane_ok_initial system_step_ok)

subsection \<open>Packets and maintenance leave the configuration alone\<close>

lemma data_frame_view: "data_frame st st' \<Longrightarrow> config_view st' = config_view st"
  by (simp add: config_view_def data_frame_fields)

lemma ddos_frame_view: "ddos_frame st st' \<Longrightarrow> config_view st' = config_view st"
  by (simp add: config_view_def ddos_frame_fields)

lemma xdp_frame_view: "xdp_frame st st' \<Longrightarrow> config_view st' = config_view st"
  by (auto simp: xdp_frame_def data_frame_view ddos_frame_view)

lemma periodicMaintenance_view:
  "config_view (snd (periodicMaintenance (ch_callback d) (m, st))) = config_view st"
  by (induction m arbitrary: st) (auto simp: Let_def split_beta call_bpf_view)

lemma serves_view: "config_view st' = config_view st \<Longrightarrow> serves h ss st' = serves h ss st"
  by (simp add: serves_def config_view_fields(1,2,3) [of st' st])

subsection \<open>Flows of a configured service\<close>

lemma service_start_Suc: "service_start (s # ss) (Suc i) = length (reals s) + service_start ss i"
  by (simp add: service_start_def)

lemma config_backends_nth:
  "i < length ss \<Longrightarrow> j < length (reals (ss ! i)) \<Longrightarrow>
     service_start ss i + j < length (config_backends h ss)
     \<and> config_backends h ss ! (service_start ss i + j) = the_backend h (ss ! i) (reals (ss ! i) ! j)"
proof (induction ss arbitrary: i)
  case (Cons s ss)
  show ?case
  proof (cases i)
    case 0
    then show ?thesis using Cons.prems
      by (simp add: service_start_def config_backends_def service_backends_def nth_append)
  next
    case (Suc k)
    then show ?thesis using Cons.prems Cons.IH [of k]
      by (simp add: service_start_Suc config_backends_def service_backends_def nth_append add.assoc)
  qed
qed simp

lemma config_backends_room:
  assumes "i < length ss" "0 < length (reals (ss ! i))"
  shows "service_start ss i + length (reals (ss ! i)) \<le> length (config_backends h ss)"
  using config_backends_nth [OF assms(1), of "length (reals (ss ! i)) - 1" h] assms(2) by linarith

lemma the_backend_active: "prepare_backend h s r = Inr b \<Longrightarrow> active (the_backend h s r) \<noteq> 0 \<longleftrightarrow> enabled r"
  by (auto simp: the_backend_def prepare_backend_def Let_def split: if_splits option.splits sum.splits)

lemma served_info:
  assumes n: "length (config_backends h ss) \<le> MAX_BACKENDS" and i: "i < length ss" "reals (ss ! i) \<noteq> []"
  defines "info \<equiv> prepare_info (ss ! i) (service_start ss i) i"
  shows "info_ok info" "unat (backend_start_idx info) = service_start ss i"
    "unat (backend_count info) = length (reals (ss ! i))"
proof -
  have le: "service_start ss i + length (reals (ss ! i)) \<le> MAX_BACKENDS"
    using config_backends_room [OF i(1), of h] i(2) n by simp
  then show "unat (backend_start_idx info) = service_start ss i" "unat (backend_count info) = length (reals (ss ! i))"
    by (simp_all add: info_def prepare_info_def unat_small_u32 max_defs)
  then show "info_ok info" using le i(2) by (simp add: info_ok_def)
qed

lemma served_backend:
  assumes serves: "serves h ss st" and n: "length (config_backends h ss) \<le> MAX_BACKENDS"
    and i: "i < length ss" "reals (ss ! i) \<noteq> []"
    and l: "in_service (prepare_info (ss ! i) (service_start ss i) i) l"
  obtains j where "j < length (reals (ss ! i))" "unat l = service_start ss i + j"
    "backends_map st (atomic_index st 0) (unat l) = the_backend h (ss ! i) (reals (ss ! i) ! j)"
proof -
  note info = served_info [OF n i]
  have "service_start ss i \<le> unat l" "unat l < service_start ss i + length (reals (ss ! i))"
    using l by (simp_all add: in_service_def info(2,3))
  then obtain j where j: "unat l = service_start ss i + j" "j < length (reals (ss ! i))"
    by (metis le_add_diff_inverse less_diff_conv2 add.commute)
  then show ?thesis
    using that config_backends_nth [OF i(1) j(2), of h] serves by (simp add: serves_def)
qed

lemma algorithm_not_ch: "srv_type s \<noteq> CH \<Longrightarrow> algorithm (prepare_info s a b) \<noteq> BALANCER_CH"
  by (cases "srv_type s") (simp_all add: prepare_info_def algorithm_number_def BALANCER_CH_def)

lemma algorithm_wrr: "algorithm (prepare_info s a b) = BALANCER_WRR \<Longrightarrow> srv_type s = WRR"
  by (cases "srv_type s") (simp_all add: prepare_info_def algorithm_number_def BALANCER_WRR_def)

lemma served_flow:
  assumes ok: "maps_ok st" "sessions_ok st" and serves: "serves h ss st"
    and n: "length (config_backends h ss) \<le> MAX_BACKENDS"
    and i: "i < length ss" "reals (ss ! i) \<noteq> []" and res: "resolves h (ss ! i)"
    and t: "srv_type (ss ! i) \<noteq> CH" and syn: "pure_syn tcp"
    and cursor: "srv_type (ss ! i) = WRR \<Longrightarrow>
      wrr_cursor_ok (prepare_info (ss ! i) (service_start ss i) i) (the_key h (ss ! i)) st"
    and f: "find_tcp_backend env sk (the_key h (ss ! i)) tcp len st = (Some b, st')"
  shows "\<exists>r \<in> set (reals (ss ! i)). enabled r \<and> b = the_backend h (ss ! i) r"
proof -
  obtain info l s where s: "hash_lookup (services_map st (atomic_index st 0)) (the_key h (ss ! i)) = Some info"
      "tcp_schedule env sk (the_key h (ss ! i)) len (backends_map st (atomic_index st 0)) info 0 st = (Some b, l, s)"
    by (rule find_tcp_backend_syn [OF ok syn f])
  have info: "info = prepare_info (ss ! i) (service_start ss i) i"
    using s(1) serves i(1) by (simp add: serves_def)
  note io = served_info [OF n i]
  have pick: "in_service info l" "b = backends_map st (atomic_index st 0) (unat l)" "active b \<noteq> 0"
    using tcp_schedule_in_service [OF s(2)] io(1) cursor algorithm_wrr algorithm_not_ch [OF t] unfolding info by blast+
  obtain j where j: "j < length (reals (ss ! i))"
      "backends_map st (atomic_index st 0) (unat l) = the_backend h (ss ! i) (reals (ss ! i) ! j)"
    by (rule served_backend [OF serves n i pick(1) [unfolded info]])
  obtain b' where "prepare_backend h (ss ! i) (reals (ss ! i) ! j) = Inr b'"
    using res nth_mem [OF j(1)] unfolding resolves_def by blast
  then have "enabled (reals (ss ! i) ! j)" using the_backend_active pick(2,3) j(2) by metis
  then show ?thesis using j pick(2) by (intro bexI [of _ "reals (ss ! i) ! j"]) simp_all
qed

end
