(* ===== verification/Startup.thy ===== *)
theory Startup
  imports Bpf_Loader Balancer_System
begin

section \<open>Starting the control plane\<close>

text \<open>
  \<open>main\<close> of \<open>controlplane/main.cpp\<close> up to the threads it starts: the configuration file is opened,
  the XDP program loaded, the configuration parsed, validated and given to the manager, whose
  reload can block in the lookup of a neighbour (\<open>Hangs\<close>). The
  command line is a record of its options. A return from \<open>main\<close> once the data plane exists runs
  the data plane's destructor.
\<close>

record main_args =
  arg_help :: bool
  arg_config_file :: "string option"
  arg_format :: "string option"
  arg_xdp_binary :: "string option"
  arg_iface :: "string option"

datatype main_outcome =
    Exits int "loader option"
  | Terminated
  | Undefined
  | Hangs loader
  | Serving "config_manager \<times> xdp_dataplane" loader

definition iface_of :: "main_args \<Rightarrow> string" where
  "iface_of args = (case arg_iface args of None \<Rightarrow> ''eth0'' | Some i \<Rightarrow> i)"

definition leave_main :: "int \<Rightarrow> loader \<Rightarrow> main_outcome" where
  "leave_main code l = (case destroy l of None \<Rightarrow> Undefined | Some l \<Rightarrow> Exits code (Some l))"

text \<open>The data plane a loader stands for: no configuration yet, the maps as the kernel creates them.\<close>

definition dataplane_of :: "loader \<Rightarrow> xdp_dataplane" where
  "dataplane_of l = initial_dataplane (isValidBpfState l)"

text \<open>From the text of the file to the running manager.\<close>

definition main_configure ::
    "host \<Rightarrow> ('j, 'm) json_api_scheme \<Rightarrow> file_loader \<Rightarrow> loader \<Rightarrow> main_outcome" where
  "main_configure h api f l =
     (let data = fst (file_LoadConfig f)
      in if data = '''' then leave_main (-1) l
         else
           (case json_Parse api data of
              Inl (Message _) \<Rightarrow> leave_main 1 l
            | Inl (Fault Throws) \<Rightarrow> Terminated
            | Inl (Fault Undefined_access) \<Rightarrow> Undefined
            | Inr conf \<Rightarrow>
                (case Validate conf of
                   (Some _, _) \<Rightarrow> leave_main 1 l
                 | (None, conf) \<Rightarrow>
                     let r = fst (ReloadConfig h conf (dataplane_of l))
                     in if r = Some Never_returns then Hangs l
                        else if r = Some Undefined_behaviour then Undefined
                        else Serving (LoadConfig (Some (ReloadConfig h)) conf
                                       (\<lparr>m_currConfig = None\<rparr>, dataplane_of l)) l)))"

definition main_program ::
    "host \<Rightarrow> bpf_host \<Rightarrow> (string \<Rightarrow> string option) \<Rightarrow> ('j, 'm) json_api_scheme \<Rightarrow> main_args \<Rightarrow> main_outcome" where
  "main_program h b files api args =
     (if arg_help args then Exits 1 None
      else
        (case arg_config_file args of
           None \<Rightarrow> Exits 1 None
         | Some filename \<Rightarrow>
             (case openFile files filename \<lparr>m_buf = '''', m_input = None\<rparr> of
                (False, _) \<Rightarrow> Exits 1 None
              | (True, f) \<Rightarrow>
                  if arg_format args \<noteq> Some ''json'' then Exits 1 None
                  else
                    (let l = new_loader ''balancer_handler'' (iface_of args)
                     in case arg_xdp_binary args of
                          None \<Rightarrow> main_configure h api f l
                        | Some bin \<Rightarrow>
                            (case RunProgram b bin l of
                               None \<Rightarrow> Undefined
                             | Some (Some _, l) \<Rightarrow> leave_main 1 l
                             | Some (None, l) \<Rightarrow> main_configure h api f l)))))"

subsection \<open>What serves was loaded\<close>

lemma main_configure_serving:
  assumes "main_configure h api f l = Serving md l'"
  obtains conf conf' where "json_Parse api (fst (file_LoadConfig f)) = Inr conf"
    "Validate conf = (None, conf')" "l' = l"
    "md = LoadConfig (Some (ReloadConfig h)) conf' (\<lparr>m_currConfig = None\<rparr>, dataplane_of l)"
    "comes_back (fst (ReloadConfig h conf' (dataplane_of l)))"
  using assms
  by (auto simp: main_configure_def leave_main_def comes_back_def Let_def
      split: if_splits sum.splits parse_stop.splits json_fault.splits option.splits prod.splits)

lemma main_serving:
  assumes "main_program h b files api args = Serving md l"
  obtains content conf conf' where
    "Option.bind (arg_config_file args) files = Some content"
    "json_Parse api (filter (\<lambda>c. c \<noteq> CHR 0x0A) content) = Inr conf" "Validate conf = (None, conf')"
    "md = LoadConfig (Some (ReloadConfig h)) conf' (\<lparr>m_currConfig = None\<rparr>, dataplane_of l)"
    "comes_back (fst (ReloadConfig h conf' (dataplane_of l)))"
    "arg_xdp_binary args \<noteq> None \<Longrightarrow> isValidBpfState l"
proof -
  obtain filename f where f: "arg_config_file args = Some filename"
      "openFile files filename \<lparr>m_buf = '''', m_input = None\<rparr> = (True, f)"
    using assms by (auto simp: main_program_def split: if_splits option.splits prod.splits bool.splits)
  then obtain content where content: "files filename = Some content" "m_input f = Some content"
    by (auto simp: openFile_def split: option.splits)
  obtain l0 where l0: "main_configure h api f l0 = Serving md l"
      "arg_xdp_binary args \<noteq> None \<Longrightarrow> isValidBpfState l0"
    using assms f isValidBpfState_success
    by (auto simp: main_program_def leave_main_def Let_def split: if_splits option.splits prod.splits)
  from l0(1) obtain conf conf' where c: "json_Parse api (fst (file_LoadConfig f)) = Inr conf"
      "Validate conf = (None, conf')" "l = l0"
      "md = LoadConfig (Some (ReloadConfig h)) conf' (\<lparr>m_currConfig = None\<rparr>, dataplane_of l0)"
      "comes_back (fst (ReloadConfig h conf' (dataplane_of l0)))"
    by (rule main_configure_serving)
  have "fst (file_LoadConfig f) = filter (\<lambda>c. c \<noteq> CHR 0x0A) content"
    by (simp add: file_LoadConfig_def content Let_def read_lines_filter)
  then show ?thesis using that f content c l0(2) by auto
qed

lemma serving_reachable:
  "main_program h b files api args = Serving md l \<Longrightarrow> system_reachable h md"
  by (elim main_serving) (simp add: dataplane_of_def finishes_def sys_step [OF sys_start sys_load])

end
