(* ===== verification/Text_Format.thy ===== *)
theory Text_Format
  imports Validator
begin

section \<open>Numbers and addresses as text\<close>

text \<open>
  What the control plane prints: \<open>std::format("{}", n)\<close> and \<open>std::to_string\<close> for a number, and
  \<open>inet_ntop(AF_INET, ...)\<close> for the four bytes of an address, first byte first.
\<close>

fun decimal_text :: "nat \<Rightarrow> string" where
  "decimal_text n =
     (if n < 10 then [char_of (48 + n)] else decimal_text (n div 10) @ [char_of (48 + n mod 10)])"

declare decimal_text.simps [simp del]

definition inet_ntop4 :: "u32 \<Rightarrow> string" where
  "inet_ntop4 a =
     (case map (\<lambda>b. decimal_text (unat b)) (bytes32 a) of
        [p, q, r, s] \<Rightarrow> p @ ''.'' @ q @ ''.'' @ r @ ''.'' @ s
      | _ \<Rightarrow> '''')"

subsection \<open>Reading it back\<close>

lemma is_digit_char_of [simp]: "n < 10 \<Longrightarrow> is_digit (char_of (48 + n :: nat))"
  by (simp add: is_digit_def)

lemma decimal_snoc: "decimal (s @ [c]) = 10 * decimal s + (of_char c - 48)"
  by (simp add: decimal_def)

lemma decimal_text_digits: "list_all is_digit (decimal_text n) \<and> decimal_text n \<noteq> []"
proof (induction n rule: decimal_text.induct)
  case (1 n)
  then show ?case by (subst (1 2) decimal_text.simps) simp
qed

lemma decimal_decimal_text: "decimal (decimal_text n) = n"
proof (induction n rule: decimal_text.induct)
  case (1 n)
  show ?case
  proof (cases "n < 10")
    case True
    then show ?thesis by (subst decimal_text.simps) (simp add: decimal_def)
  next
    case False
    then show ?thesis using 1 by (subst decimal_text.simps) (simp add: decimal_snoc)
  qed
qed

lemma decimal_text_inj: "decimal_text m = decimal_text n \<longleftrightarrow> m = n"
  by (metis decimal_decimal_text)

lemma length_decimal_text: "n < 1000 \<Longrightarrow> length (decimal_text n) \<le> 3"
  by (subst decimal_text.simps, subst decimal_text.simps, subst decimal_text.simps) simp

lemma octet_decimal_text: "octet (decimal_text (unat (b :: u8)))"
proof -
  have "unat b < 256" using unsigned_less [of b, where ?'a = nat] by simp
  then show ?thesis
    using length_decimal_text [of "unat b"] decimal_text_digits [of "unat b"]
    by (simp add: octet_def decimal_decimal_text)
qed

lemma inet_ntop4_eq:
  "inet_ntop4 a =
     decimal_text (unat (bytes32 a ! 0)) @ ''.'' @ decimal_text (unat (bytes32 a ! 1)) @ ''.''
     @ decimal_text (unat (bytes32 a ! 2)) @ ''.'' @ decimal_text (unat (bytes32 a ! 3))"
  by (simp add: inet_ntop4_def bytes32_def)

lemma inet_ntop4_quad: "dotted_quad (inet_ntop4 a)"
  unfolding dotted_quad_def inet_ntop4_eq using octet_decimal_text by blast

text \<open>Cutting a text at its dots.\<close>

fun cut_dots :: "string \<Rightarrow> string list" where
  "cut_dots [] = [[]]"
| "cut_dots (c # s) =
     (if c = CHR ''.'' then [] # cut_dots s
      else (case cut_dots s of [] \<Rightarrow> [[c]] | w # ws \<Rightarrow> (c # w) # ws))"

lemma cut_dots_nonempty: "cut_dots s \<noteq> []"
  by (induction s) (auto split: list.splits)

lemma cut_dots_word: "CHR ''.'' \<notin> set w \<Longrightarrow> cut_dots w = [w]"
  by (induction w) auto

lemma cut_dots_dot: "CHR ''.'' \<notin> set w \<Longrightarrow> cut_dots (w @ CHR ''.'' # s) = w # cut_dots s"
  by (induction w) auto

definition read_quad :: "string \<Rightarrow> u32" where
  "read_quad s = le32 (map (\<lambda>w. of_nat (decimal w)) (cut_dots s))"

lemma digits_no_dot: "list_all is_digit w \<Longrightarrow> CHR ''.'' \<notin> set w"
  by (auto simp: list_all_iff is_digit_def)

lemma read_quad_inet_ntop4: "read_quad (inet_ntop4 a) = a"
proof -
  have d: "CHR ''.'' \<notin> set (decimal_text n)" for n
    using decimal_text_digits digits_no_dot by blast
  have "cut_dots (inet_ntop4 a) = map (\<lambda>b. decimal_text (unat b)) (bytes32 a)"
    by (simp add: inet_ntop4_eq cut_dots_dot cut_dots_word d) (simp add: bytes32_def)
  then have "map (\<lambda>w. of_nat (decimal w)) (cut_dots (inet_ntop4 a)) = bytes32 a"
    by (simp add: decimal_decimal_text bytes32_def)
  then show ?thesis by (simp add: read_quad_def)
qed

lemma inet_ntop4_inj: "inet_ntop4 a = inet_ntop4 b \<longleftrightarrow> a = b"
  by (metis read_quad_inet_ntop4)

end
