(* ===== verification/Metrics.thy ===== *)
theory Metrics
  imports Xdp_Reload Text_Format "HOL-Library.Char_ord"
begin

section \<open>Reading the counters\<close>

text \<open>
  The metrics of \<open>XdpDataplane\<close> (\<open>controlplane/src/manager/xdpdataplane.cpp\<close>, structs in
  \<open>include/metrics/metrics_data.h\<close>): the per-CPU counters of the kernel are summed, filed under
  the backend or the service, and filed again under the texts an operator sees. Two entries of
  one key overwrite each other. The number of CPUs is an argument.
\<close>

record backend_label =
  bl_ip_address :: string
  bl_port :: u32
  bl_ip_version :: u16

record service_label =
  sl_name :: string
  sl_vip_address :: string
  sl_port :: u32
  sl_ip_version :: u16

record metrics_data =
  md_total_packets :: u64
  md_tcp_syn_packets :: u64
  md_prepared_packets :: u64
  md_connections :: u32
  md_total_bytes :: u64

record ddos_stats =
  ds_dropped_total :: u64
  ds_blacklist_size :: u64

subsection \<open>Orders of the labels\<close>

definition backend_label_cmp :: "backend_label \<Rightarrow> backend_label \<Rightarrow> ordering" where
  "backend_label_cmp a other =
     or_else (cmp (sint (bl_ip_version a)) (sint (bl_ip_version other)))
       (or_else (cmp (bl_ip_address a) (bl_ip_address other))
         (cmp (bl_port a) (bl_port other)))"

definition service_label_cmp :: "service_label \<Rightarrow> service_label \<Rightarrow> ordering" where
  "service_label_cmp a other =
     or_else (cmp (sint (sl_ip_version a)) (sint (sl_ip_version other)))
       (or_else (cmp (sl_vip_address a) (sl_vip_address other))
         (or_else (cmp (sl_name a) (sl_name other))
           (cmp (sl_port a) (sl_port other))))"

definition backend_label_lt :: "backend_label \<Rightarrow> backend_label \<Rightarrow> bool" where
  "backend_label_lt a b \<longleftrightarrow> backend_label_cmp a b < Equal"

definition service_label_lt :: "service_label \<Rightarrow> service_label \<Rightarrow> bool" where
  "service_label_lt a b \<longleftrightarrow> service_label_cmp a b < Equal"

definition backend_label_rank :: "backend_label \<Rightarrow> int \<times> string \<times> u32" where
  "backend_label_rank a = (sint (bl_ip_version a), bl_ip_address a, bl_port a)"

definition service_label_rank :: "service_label \<Rightarrow> int \<times> string \<times> string \<times> u32" where
  "service_label_rank a = (sint (sl_ip_version a), sl_vip_address a, sl_name a, sl_port a)"

interpretation bl: ranked_order backend_label_lt backend_label_rank
  by unfold_locales
    (auto simp: backend_label_lt_def backend_label_cmp_def backend_label_rank_def or_else_cmp cmp_def)

interpretation sl: ranked_order service_label_lt service_label_rank
  by unfold_locales
    (auto simp: service_label_lt_def service_label_cmp_def service_label_rank_def or_else_cmp cmp_def)

lemma backend_label_rank_inj: "backend_label_rank a = backend_label_rank b \<longleftrightarrow> a = b"
  by (cases a; cases b) (auto simp: backend_label_rank_def intro: signed_word_eqI)

lemma service_label_rank_inj: "service_label_rank a = service_label_rank b \<longleftrightarrow> a = b"
  by (cases a; cases b) (auto simp: service_label_rank_def intro: signed_word_eqI)

subsection \<open>Summing over the CPUs\<close>

definition add_stats :: "summary_packets_data \<Rightarrow> summary_packets_data \<Rightarrow> summary_packets_data" where
  "add_stats stats cpu_stats =
     \<lparr>total_packets = total_packets stats + total_packets cpu_stats,
      tcp_syn_packets = tcp_syn_packets stats + tcp_syn_packets cpu_stats,
      prepared_packets = prepared_packets stats + prepared_packets cpu_stats,
      connections = connections stats + connections cpu_stats,
      total_bytes = total_bytes stats + total_bytes cpu_stats\<rparr>"

text \<open>A lookup in a per-CPU array gives the entry of every CPU, or fails.\<close>

definition lookup_cpus :: "nat \<Rightarrow> bool \<Rightarrow> nat \<Rightarrow> 'v bpf_percpu_array \<Rightarrow> u32 \<Rightarrow> 'v list option" where
  "lookup_cpus cpus fd_ok max_entries m i =
     (if fd_ok \<and> unat i < max_entries then Some (map (\<lambda>c. m c (unat i)) [0..<cpus]) else None)"

fun sum_entries ::
    "('k \<Rightarrow> 'k \<Rightarrow> bool) \<Rightarrow> (u32 \<Rightarrow> summary_packets_data list option) \<Rightarrow> nat \<Rightarrow> 'k list \<Rightarrow>
     ('k, summary_packets_data) omap \<Rightarrow> ('k, summary_packets_data) omap"
where
  "sum_entries lt read i [] results = results"
| "sum_entries lt read i (k # ks) results =
     (case read (of_nat i) of
        None \<Rightarrow> sum_entries lt read (Suc i) ks results
      | Some percpu_stats \<Rightarrow>
          sum_entries lt read (Suc i) ks (omap_put lt k (foldl add_stats zero_stats percpu_stats) results))"

definition GetBackendsMetrics :: "nat \<Rightarrow> xdp_dataplane \<Rightarrow> (backend, summary_packets_data) omap" where
  "GetBackendsMetrics cpus d =
     sum_entries backend_lt
       (lookup_cpus cpus (maps_opened d) MAX_BACKENDS (backends_packets_stats (kernel d)))
       0 (m_xdpBackends d) []"

definition GetServicesMetrics :: "nat \<Rightarrow> xdp_dataplane \<Rightarrow> (service_key, summary_packets_data) omap" where
  "GetServicesMetrics cpus d =
     sum_entries service_key_lt
       (lookup_cpus cpus (maps_opened d) MAX_SERVICES (services_packets_stats (kernel d)))
       0 (m_xdpKeys d) []"

subsection \<open>Under the texts of an operator\<close>

definition metrics_of :: "summary_packets_data \<Rightarrow> metrics_data" where
  "metrics_of stats =
     \<lparr>md_total_packets = total_packets stats, md_tcp_syn_packets = tcp_syn_packets stats,
      md_prepared_packets = prepared_packets stats, md_connections = connections stats,
      md_total_bytes = total_bytes stats\<rparr>"

definition label_backend :: "backend \<Rightarrow> backend_label" where
  "label_backend b =
     \<lparr>bl_ip_address = inet_ntop4 (be_ipv4 b), bl_port = ucast (be_port b),
      bl_ip_version = ucast (be_ip_version b)\<rparr>"

definition label_service :: "base_config \<Rightarrow> service_key \<Rightarrow> service_label" where
  "label_service conf key =
     (let strIp = inet_ntop4 (vip4 key)
      in \<lparr>sl_name = (case FindServiceByVipAndPort strIp (ucast (sk_port key)) conf of
                       None \<Rightarrow> '''' | Some srv \<Rightarrow> srv_name srv),
          sl_vip_address = strIp, sl_port = ucast (sk_port key), sl_ip_version = ucast (sk_ip_version key)\<rparr>)"

definition GetBackendsCurrentMetrics :: "nat \<Rightarrow> xdp_dataplane \<Rightarrow> (backend_label, metrics_data) omap" where
  "GetBackendsCurrentMetrics cpus d =
     foldl (\<lambda>result (b, stats). omap_put backend_label_lt (label_backend b) (metrics_of stats) result)
       [] (GetBackendsMetrics cpus d)"

definition GetServicesCurrentMetrics :: "nat \<Rightarrow> xdp_dataplane \<Rightarrow> (service_label, metrics_data) omap" where
  "GetServicesCurrentMetrics cpus d =
     foldl (\<lambda>result (key, stats).
              omap_put service_label_lt (label_service (dp_currConfig d) key) (metrics_of stats) result)
       [] (GetServicesMetrics cpus d)"

subsection \<open>SYN-flood protection\<close>

definition GetGlobalSynStats :: "xdp_dataplane \<Rightarrow> global_syn_stats" where
  "GetGlobalSynStats d =
     (case (if maps_opened d then array_lookup 1 (global_syn (kernel d)) 0 else None) of
        None \<Rightarrow> \<lparr>gs_syn_count = 0, gs_window_start = 0, dropped_total = 0\<rparr>
      | Some stats \<Rightarrow> stats)"

text \<open>\<open>bpf_map_get_next_key(m, &k, ...)\<close>: the key after \<open>k\<close>, the first one when \<open>k\<close> is not there.\<close>

fun key_after :: "'k \<Rightarrow> ('k, 'v) bpf_hash \<Rightarrow> 'k option option" where
  "key_after k [] = None"
| "key_after k ((j, _) # m) = (if j = k then Some (hash_first_key m) else key_after k m)"

definition hash_next_key :: "'k \<Rightarrow> ('k, 'v) bpf_hash \<Rightarrow> 'k option" where
  "hash_next_key k m = (case key_after k m of None \<Rightarrow> hash_first_key m | Some r \<Rightarrow> r)"

partial_function (option) count_keys :: "('k, 'v) bpf_hash \<Rightarrow> 'k option \<Rightarrow> u64 \<Rightarrow> u64 option" where
  "count_keys m prev n =
     (case (case prev of None \<Rightarrow> hash_first_key m | Some k \<Rightarrow> hash_next_key k m) of
        None \<Rightarrow> Some n
      | Some k \<Rightarrow> count_keys m (Some k) (n + 1))"

definition GetDdosStats :: "xdp_dataplane \<Rightarrow> ddos_stats option" where
  "GetDdosStats d =
     (let syn = GetGlobalSynStats d
      in case (if maps_opened d then count_keys (blacklist (kernel d)) None 0 else Some 0) of
           None \<Rightarrow> None
         | Some blacklist_size \<Rightarrow>
             Some \<lparr>ds_dropped_total = dropped_total syn, ds_blacklist_size = blacklist_size\<rparr>)"

text \<open>The loop asks for the first key again and again; \<open>None\<close> is that it does not end.\<close>

definition string_lt :: "string \<Rightarrow> string \<Rightarrow> bool" where
  "string_lt a b \<longleftrightarrow> a < b"

partial_function (option) read_blacklist ::
    "(u32, u64) bpf_hash \<Rightarrow> (string, u64) omap \<Rightarrow> (string, u64) omap option" where
  "read_blacklist m result =
     (case hash_first_key m of
        None \<Rightarrow> Some result
      | Some ip_key \<Rightarrow>
          read_blacklist m
            (case hash_lookup m ip_key of
               None \<Rightarrow> result
             | Some timestamp \<Rightarrow> omap_put string_lt (inet_ntop4 ip_key) timestamp result))"

definition GetBlackList :: "xdp_dataplane \<Rightarrow> (string, u64) omap option" where
  "GetBlackList d = read_blacklist (if maps_opened d then blacklist (kernel d) else []) []"

subsection \<open>What the sums are\<close>

lemma total_fields:
  "total_packets (foldl add_stats z xs) = total_packets z + sum_list (map total_packets xs)"
  "tcp_syn_packets (foldl add_stats z xs) = tcp_syn_packets z + sum_list (map tcp_syn_packets xs)"
  "prepared_packets (foldl add_stats z xs) = prepared_packets z + sum_list (map prepared_packets xs)"
  "connections (foldl add_stats z xs) = connections z + sum_list (map connections xs)"
  "total_bytes (foldl add_stats z xs) = total_bytes z + sum_list (map total_bytes xs)"
  by (induction xs arbitrary: z) (simp_all add: add_stats_def)

definition cpu_total :: "nat \<Rightarrow> summary_packets_data bpf_percpu_array \<Rightarrow> nat \<Rightarrow> summary_packets_data" where
  "cpu_total cpus m i = foldl add_stats zero_stats (map (\<lambda>c. m c i) [0..<cpus])"

text \<open>Whichever CPU counts, the sum moves by what is counted.\<close>

lemma sum_list_upd:
  fixes f :: "'a \<Rightarrow> 'w::comm_monoid_add"
  assumes "c < n" "f (g (m c)) = f (m c) + d"
  shows "sum_list (map (\<lambda>i. f ((m(c := g (m c))) i)) [0..<n]) = sum_list (map (\<lambda>i. f (m i)) [0..<n]) + d"
  using assms(1)
proof (induction n)
  case (Suc n)
  show ?case
  proof (cases "c = n")
    case True
    have "sum_list (map (\<lambda>i. f (if i = n then g (m n) else m i)) [0..<n]) = sum_list (map (\<lambda>i. f (m i)) [0..<n])"
      by (rule arg_cong [of _ _ sum_list]) simp
    then show ?thesis using assms(2) True by (simp add: add.assoc)
  next
    case False
    then show ?thesis using Suc by (simp add: ac_simps)
  qed
qed simp

text \<open>A key has the sum of the last entry with that key.\<close>

context ranked_order
begin

lemma sum_entries_none:
  "\<forall>x \<in> set ks. rank x \<noteq> rank k \<Longrightarrow> omap_find lt k (sum_entries lt read i ks m) = omap_find lt k m"
  by (induction ks arbitrary: i m) (auto simp: find_put split: option.split)

lemma sum_entries_last:
  assumes "j < length ks" "rank (ks ! j) = rank k" "\<forall>x \<in> set (drop (Suc j) ks). rank x \<noteq> rank k"
    and "read (of_nat (i + j)) = Some ps"
  shows "omap_find lt k (sum_entries lt read i ks m) = Some (foldl add_stats zero_stats ps)"
  using assms
proof (induction ks arbitrary: i j m)
  case (Cons x ks)
  show ?case
  proof (cases j)
    case 0
    then show ?thesis using Cons.prems by (simp add: sum_entries_none find_put)
  next
    case (Suc j')
    then show ?thesis using Cons.prems Cons.IH [of j' "Suc i"] by (simp split: option.split)
  qed
qed simp

end

lemma backend_metrics:
  assumes "maps_opened d" "j < length (m_xdpBackends d)" "j < MAX_BACKENDS"
    and "\<forall>x \<in> set (drop (Suc j) (m_xdpBackends d)). backend_rank x \<noteq> backend_rank (m_xdpBackends d ! j)"
  shows "omap_find backend_lt (m_xdpBackends d ! j) (GetBackendsMetrics cpus d) =
    Some (cpu_total cpus (backends_packets_stats (kernel d)) j)"
  unfolding GetBackendsMetrics_def cpu_total_def
  by (rule bk.sum_entries_last [of j])
    (use assms in \<open>simp_all add: lookup_cpus_def unat_of_nat max_defs\<close>)

lemma service_metrics:
  assumes "maps_opened d" "j < length (m_xdpKeys d)" "j < MAX_SERVICES"
    and "\<forall>x \<in> set (drop (Suc j) (m_xdpKeys d)). service_key_rank x \<noteq> service_key_rank (m_xdpKeys d ! j)"
  shows "omap_find service_key_lt (m_xdpKeys d ! j) (GetServicesMetrics cpus d) =
    Some (cpu_total cpus (services_packets_stats (kernel d)) j)"
  unfolding GetServicesMetrics_def cpu_total_def
  by (rule sk.sum_entries_last [of j])
    (use assms in \<open>simp_all add: lookup_cpus_def unat_of_nat max_defs\<close>)

subsection \<open>The blacklist\<close>

lemma read_blacklist_nonempty: "m \<noteq> [] \<Longrightarrow> read_blacklist m result = None"
proof (rule ccontr)
  assume m: "m \<noteq> []" and "read_blacklist m result \<noteq> None"
  then obtain r where r: "read_blacklist m result = Some r" by blast
  have "m = []"
    by (rule read_blacklist.raw_induct [of "\<lambda>m _ _. m = []", OF _ r])
      (auto simp: hash_first_key_def split: option.splits list.splits prod.splits)
  with m show False ..
qed

lemma read_blacklist_empty: "read_blacklist [] result = Some result"
  by (subst read_blacklist.simps) (simp add: hash_first_key_def)

lemma key_after_found:
  "k \<notin> fst ` set xs \<Longrightarrow> key_after k (xs @ (k, v) # ys) = Some (hash_first_key ys)"
  by (induction xs) auto

lemma count_keys_rest:
  "m = xs @ (k, v) # ys \<Longrightarrow> distinct (map fst m) \<Longrightarrow>
     count_keys m (Some k) n = Some (n + of_nat (length ys))"
proof (induction ys arbitrary: xs k v n)
  case Nil
  then have "hash_next_key k m = None" by (simp add: hash_next_key_def key_after_found hash_first_key_def)
  then show ?case by (subst count_keys.simps) simp
next
  case (Cons y ys)
  obtain k' v' where y: "y = (k', v')" by (cases y)
  have "hash_next_key k m = Some k'"
    using Cons.prems by (simp add: hash_next_key_def key_after_found hash_first_key_def y)
  moreover have "count_keys m (Some k') (n + 1) = Some (n + 1 + of_nat (length ys))"
    using Cons.IH [of "xs @ [(k, v)]" k' v'] Cons.prems y by simp
  ultimately show ?case by (subst count_keys.simps) (simp add: ac_simps)
qed

lemma count_keys_length:
  assumes "distinct (map fst m)"
  shows "count_keys m None 0 = Some (of_nat (length m))"
proof (cases m)
  case (Cons y ys)
  obtain k v where y: "y = (k, v)" by (cases y)
  have "count_keys m (Some k) 1 = Some (1 + of_nat (length ys))"
    by (rule count_keys_rest [of m "[]" k v]) (use Cons y assms in simp_all)
  then show ?thesis using Cons y by (subst count_keys.simps) (simp add: hash_first_key_def)
qed (subst count_keys.simps, simp add: hash_first_key_def)

end
