(* ===== verification/Grpc_Server.thy ===== *)
theory Grpc_Server
  imports Config_Manager Metrics
begin

section \<open>The gRPC interface\<close>

text \<open>
  The mappers of \<open>controlplane/include/server/grpc_mappers.h\<close> and the handlers of
  \<open>controlplane/src/server/grpc_server.cpp\<close>. The messages are those of
  \<open>proto/api/controlplane-api.proto\<close>, as records of their fields. Every handler answers
  \<open>Status::OK\<close>; \<open>None\<close> is a dereferenced null pointer, or a call that does not return. A field
  that the code leaves uninitialised (the port of a backend from the network) is an argument.
\<close>

record api_backend =
  ab_ip :: string
  ab_port :: u32
  ab_weight :: u32
  ab_enabled :: bool
  ab_ip_version :: u32

record api_service =
  as_name :: string
  as_vip :: string
  as_port :: u32
  as_protocol :: string
  as_ip_version :: u32
  as_algorithm :: string
  as_backends :: "api_backend list"

record api_metrics =
  am_total_packets :: u64
  am_tcp_syn_packets :: u64
  am_prepared_packets :: u64
  am_active_connections :: u32
  am_total_bytes :: u64

record api_backend_info =
  abi_ip :: string
  abi_port :: u32
  abi_weight :: u32
  abi_enabled :: bool
  abi_metrics :: "api_metrics option"

record api_service_info =
  asi_name :: string
  asi_vip :: string
  asi_port :: u32
  asi_protocol :: string
  asi_backends :: "api_backend_info list"
  asi_metrics :: "api_metrics option"

type_synonym api_configuration = "api_service list"

subsection \<open>To the messages\<close>

fun ToProtoAlgorithm :: "balancer_type \<Rightarrow> string" where
  "ToProtoAlgorithm RR = ''rr''"
| "ToProtoAlgorithm WRR = ''wrr''"
| "ToProtoAlgorithm CH = ''ch''"

definition ToProtoBackend :: "balancer_real \<Rightarrow> api_backend" where
  "ToProtoBackend real =
     \<lparr>ab_ip = real_ip real, ab_port = 0, ab_weight = ucast (real_weight real),
      ab_enabled = enabled real, ab_ip_version = ucast (real_ip_version real)\<rparr>"

definition ToProtoBackendInfo :: "balancer_real \<Rightarrow> api_backend_info" where
  "ToProtoBackendInfo real =
     \<lparr>abi_ip = real_ip real, abi_port = real_port real, abi_weight = ucast (real_weight real),
      abi_enabled = enabled real, abi_metrics = None\<rparr>"

definition ToProtoServiceMetrics :: "metrics_data \<Rightarrow> api_metrics" where
  "ToProtoServiceMetrics data =
     \<lparr>am_total_packets = md_total_packets data, am_tcp_syn_packets = md_tcp_syn_packets data,
      am_prepared_packets = md_prepared_packets data, am_active_connections = md_connections data,
      am_total_bytes = md_total_bytes data\<rparr>"

definition ToProtoBackendInfo_metrics :: "balancer_real \<Rightarrow> metrics_data \<Rightarrow> api_backend_info" where
  "ToProtoBackendInfo_metrics real metricsData =
     (ToProtoBackendInfo real)\<lparr>abi_metrics :=
        Some \<lparr>am_total_packets = md_total_packets metricsData,
              am_tcp_syn_packets = md_tcp_syn_packets metricsData,
              am_prepared_packets = md_prepared_packets metricsData,
              am_active_connections = md_connections metricsData,
              am_total_bytes = md_total_bytes metricsData\<rparr>\<rparr>"

definition toProtoService :: "balancer_service \<Rightarrow> api_service" where
  "toProtoService service =
     \<lparr>as_name = srv_name service, as_vip = srv_vip service, as_port = srv_port service,
      as_protocol = srv_protocol service, as_ip_version = ucast (srv_ip_version service),
      as_algorithm = ToProtoAlgorithm (srv_type service),
      as_backends = map ToProtoBackend (reals service)\<rparr>"

definition info_backend :: "bool \<Rightarrow> (string, metrics_data) omap \<Rightarrow> balancer_real \<Rightarrow> api_backend_info" where
  "info_backend includeMetrics backendMetricsMap real =
     (if includeMetrics
      then (case omap_find string_lt (real_ip real) backendMetricsMap of
              Some data \<Rightarrow> ToProtoBackendInfo_metrics real data
            | None \<Rightarrow> ToProtoBackendInfo real)
      else ToProtoBackendInfo real)"

definition ToProtoServiceInfo ::
    "balancer_service \<Rightarrow> bool \<Rightarrow> bool \<Rightarrow> metrics_data option \<Rightarrow> (string, metrics_data) omap \<Rightarrow> api_service_info"
where
  "ToProtoServiceInfo service includeBackends includeMetrics svcMetrics backendMetricsMap =
     \<lparr>asi_name = srv_name service, asi_vip = srv_vip service, asi_port = srv_port service,
      asi_protocol = srv_protocol service,
      asi_backends =
        (if includeBackends then map (info_backend includeMetrics backendMetricsMap) (reals service) else []),
      asi_metrics = (if includeMetrics then map_option ToProtoServiceMetrics svcMetrics else None)\<rparr>"

definition ToProtoConfiguration :: "balancer_service list \<Rightarrow> api_configuration" where
  "ToProtoConfiguration svcs = map toProtoService svcs"

subsection \<open>From the messages\<close>

definition FromProtoAlgorithm :: "string \<Rightarrow> balancer_type option" where
  "FromProtoAlgorithm algo = fromString algo"

definition FromProtoBackend :: "(api_backend \<Rightarrow> u32) \<Rightarrow> api_backend \<Rightarrow> balancer_real" where
  "FromProtoBackend uninit_port proto =
     \<lparr>real_ip = ab_ip proto, enabled = ab_enabled proto, real_weight = ucast (ab_weight proto),
      real_ip_version = ucast (ab_ip_version proto), real_port = uninit_port proto\<rparr>"

definition FromProtoService :: "(api_backend \<Rightarrow> u32) \<Rightarrow> api_service \<Rightarrow> string + balancer_service" where
  "FromProtoService uninit_port proto =
     (case FromProtoAlgorithm (as_algorithm proto) of
        None \<Rightarrow> Inl (''unknown algorithm: '' @ as_algorithm proto)
      | Some algo \<Rightarrow>
          Inr \<lparr>reals = map (FromProtoBackend uninit_port) (as_backends proto),
               srv_name = as_name proto, srv_vip = as_vip proto, srv_protocol = as_protocol proto,
               srv_port = as_port proto, srv_type = algo, srv_ip_version = ucast (as_ip_version proto)\<rparr>)"

fun from_services ::
    "(api_backend \<Rightarrow> u32) \<Rightarrow> api_service list \<Rightarrow> balancer_service list \<times> string list" where
  "from_services uninit_port [] = ([], [])"
| "from_services uninit_port (svc # svcs) =
     (let (ss, errors) = from_services uninit_port svcs
      in case FromProtoService uninit_port svc of
           Inl e \<Rightarrow> (ss, (''service '' @ [CHR 0x27] @ as_name svc @ [CHR 0x27] @ '': '' @ e) # errors)
         | Inr s \<Rightarrow> (s # ss, errors))"

definition FromProtoConfiguration ::
    "(api_backend \<Rightarrow> u32) \<Rightarrow> api_configuration \<Rightarrow> base_config \<times> string list" where
  "FromProtoConfiguration uninit_port proto =
     (let (ss, errors) = from_services uninit_port proto in (\<lparr>services = ss, ddosConf = None\<rparr>, errors))"

subsection \<open>The handlers\<close>

definition rpc_GetConfig :: "config_manager \<Rightarrow> api_configuration option" where
  "rpc_GetConfig m = map_option ToProtoConfiguration (ListServices m)"

record update_config_response =
  ucr_success :: bool
  ucr_errors :: "string list"

definition rpc_UpdateConfig ::
    "('e, 'd) reload option \<Rightarrow> (api_backend \<Rightarrow> u32) \<Rightarrow> api_configuration \<Rightarrow> config_manager \<times> 'd \<Rightarrow>
     update_config_response \<times> config_manager \<times> 'd"
where
  "rpc_UpdateConfig reload uninit_port request md =
     (let (newConfig, errors) = FromProtoConfiguration uninit_port request
      in if errors \<noteq> [] then (\<lparr>ucr_success = False, ucr_errors = errors\<rparr>, md)
         else (\<lparr>ucr_success = True, ucr_errors = []\<rparr>, LoadConfig reload newConfig md))"

record list_services_request =
  filter_protocol :: "string option"
  filter_enabled_only :: bool
  filter_ip_version :: "u32 option"
  include_backends :: bool
  include_metrics :: bool

definition passes_filter :: "list_services_request \<Rightarrow> balancer_service \<Rightarrow> bool" where
  "passes_filter request svc \<longleftrightarrow>
     (case filter_protocol request of None \<Rightarrow> True | Some p \<Rightarrow> srv_protocol svc = p)
     \<and> (case filter_ip_version request of None \<Rightarrow> True | Some v \<Rightarrow> ucast (srv_ip_version svc) = v)
     \<and> (filter_enabled_only request \<longrightarrow> list_ex enabled (reals svc))"

text \<open>The two maps of metrics the handler declares stay empty.\<close>

definition rpc_ListServices :: "list_services_request \<Rightarrow> config_manager \<Rightarrow> api_service_info list option" where
  "rpc_ListServices request m =
     map_option
       (\<lambda>svcs.
          map (\<lambda>svc. ToProtoServiceInfo svc (include_backends request) (include_metrics request) None [])
            (filter (passes_filter request) svcs))
       (ListServices m)"

definition rpc_ListBackends :: "config_manager \<Rightarrow> api_backend_info list option" where
  "rpc_ListBackends m = map_option (map ToProtoBackendInfo) (ListBackends m)"

record set_backend_status_request =
  sbs_service_name :: string
  sbs_vip :: string
  sbs_service_port :: u32
  sbs_backend_ip :: string
  sbs_backend_port :: u32
  sbs_status :: bool

record set_backend_status_response =
  sbr_success :: bool
  sbr_error :: "string option"

definition find_service_name :: "set_backend_status_request \<Rightarrow> balancer_service list \<Rightarrow> string" where
  "find_service_name request svcs =
     (case find (\<lambda>svc. srv_vip svc = sbs_vip request \<and> srv_port svc = sbs_service_port request) svcs of
        None \<Rightarrow> '''' | Some svc \<Rightarrow> srv_name svc)"

definition rpc_SetBackendStatus ::
    "('e, 'd) reload option \<Rightarrow> set_backend_status_request \<Rightarrow> config_manager \<times> 'd \<Rightarrow>
     (set_backend_status_response \<times> config_manager \<times> 'd) option"
where
  "rpc_SetBackendStatus reload request md =
     (case (if sbs_service_name request = ''''
            then map_option (find_service_name request) (ListServices (fst md))
            else Some (sbs_service_name request)) of
        None \<Rightarrow> None
      | Some name \<Rightarrow>
          if name = ''''
          then Some (\<lparr>sbr_success = False,
                      sbr_error = Some (''service not found by vip='' @ sbs_vip request @ '' port=''
                                        @ decimal_text (unat (sbs_service_port request)))\<rparr>, md)
          else
            (let cmd = \<lparr>serviceName = name, realIp = sbs_backend_ip request, req_enabled = sbs_status request\<rparr>;
                 (err, md) = SetRealState reload cmd md
             in Some (\<lparr>sbr_success = (err = None), sbr_error = err\<rparr>, md)))"

text \<open>\<open>m_dataplane->GetBlackList()\<close> through the manager; \<open>black_list\<close> is the data plane's.\<close>

definition rpc_GetBlackList :: "('d \<Rightarrow> (string, u64) omap option) option \<Rightarrow> 'd \<Rightarrow> (string \<times> u64) list option" where
  "rpc_GetBlackList black_list d = (case black_list of None \<Rightarrow> None | Some f \<Rightarrow> f d)"

subsection \<open>There and back\<close>

lemma fromString_ToProtoAlgorithm: "fromString (ToProtoAlgorithm t) = Some t"
  by (cases t) (simp_all add: fromString_def)

text \<open>A real server that went through the network: its port is lost.\<close>

definition sent_real :: "(api_backend \<Rightarrow> u32) \<Rightarrow> balancer_real \<Rightarrow> balancer_real" where
  "sent_real uninit_port r = r\<lparr>real_port := uninit_port (ToProtoBackend r)\<rparr>"

definition sent_service :: "(api_backend \<Rightarrow> u32) \<Rightarrow> balancer_service \<Rightarrow> balancer_service" where
  "sent_service uninit_port s = s\<lparr>reals := map (sent_real uninit_port) (reals s)\<rparr>"

lemma widen_narrow [simp]: "ucast (ucast x :: u32) = (x :: u8)"
  by (rule bit_word_eqI) (auto simp: bit_simps)

lemma FromProtoBackend_ToProtoBackend: "FromProtoBackend u (ToProtoBackend r) = sent_real u r"
  by (cases r) (simp add: FromProtoBackend_def ToProtoBackend_def sent_real_def)

lemma FromProtoService_toProtoService: "FromProtoService u (toProtoService s) = Inr (sent_service u s)"
  by (cases s) (simp add: FromProtoService_def toProtoService_def FromProtoAlgorithm_def
      fromString_ToProtoAlgorithm sent_service_def comp_def FromProtoBackend_ToProtoBackend)

lemma FromProtoConfiguration_ToProtoConfiguration:
  "FromProtoConfiguration u (ToProtoConfiguration ss) =
     (\<lparr>services = map (sent_service u) ss, ddosConf = None\<rparr>, [])"
proof -
  have "from_services u (map toProtoService ss) = (map (sent_service u) ss, [])"
    by (induction ss) (simp_all add: FromProtoService_toProtoService)
  then show ?thesis by (simp add: FromProtoConfiguration_def ToProtoConfiguration_def)
qed

lemma from_services_ok:
  "list_all (\<lambda>s. fromString (as_algorithm s) \<noteq> None) svcs \<longleftrightarrow> snd (from_services u svcs) = []"
  by (induction svcs)
    (auto simp: FromProtoService_def FromProtoAlgorithm_def Let_def split_beta split: option.splits)

end
