(* ===== verification/Metrics_Server.thy ===== *)
theory Metrics_Server
  imports Metrics
begin

section \<open>Exporting the counters\<close>

text \<open>
  \<open>MetricsServer\<close> of \<open>controlplane/src/metrics/metrics_server.cpp\<close>: every few seconds the counters
  of the data plane are compared with those of the scrape before, and the differences go to the
  instruments of the OpenTelemetry library. The model keeps the calls the server makes, in order;
  floating-point arithmetic and the conversion of a time span are arguments.
\<close>

datatype instrument =
    Backend_total_packets | Backend_tcp_syn_packets | Backend_prepared_packets | Backend_total_bytes
  | Backend_connections | Backend_packets_per_sec | Backend_bytes_per_sec | Backend_syn_per_sec
  | Service_total_packets | Service_tcp_syn_packets | Service_prepared_packets | Service_total_bytes
  | Service_connections | Service_packets_per_sec | Service_bytes_per_sec | Service_syn_per_sec
  | Ddos_dropped_total | Ddos_blacklist_size

datatype instrument_kind = UInt64Counter | Int64Gauge | DoubleGauge

text \<open>The instruments the constructor creates: kind, name, description and unit.\<close>

fun backend_instrument :: "instrument \<Rightarrow> (instrument_kind \<times> string \<times> string \<times> string) option" where
  "backend_instrument Backend_total_packets =
     Some (UInt64Counter, ''lb_backend_packets_total'',
           ''Total number of packets processed by backend'', ''packets'')"
| "backend_instrument Backend_tcp_syn_packets =
     Some (UInt64Counter, ''lb_backend_tcp_syn_packets_total'',
           ''Total number of TCP SYN packets to backend'', ''packets'')"
| "backend_instrument Backend_prepared_packets =
     Some (UInt64Counter, ''lb_backend_prepared_packets_total'',
           ''Total number of prepared packets for backend'', ''packets'')"
| "backend_instrument Backend_total_bytes =
     Some (UInt64Counter, ''lb_backend_bytes_total'',
           ''Total number of bytes processed by backend'', ''bytes'')"
| "backend_instrument Backend_connections =
     Some (Int64Gauge, ''lb_backend_connections_active'',
           ''Number of active connections to backend'', ''connections'')"
| "backend_instrument Backend_packets_per_sec =
     Some (DoubleGauge, ''lb_backend_packets_per_second'',
           ''Packets per second processed by backend'', ''pps'')"
| "backend_instrument Backend_bytes_per_sec =
     Some (DoubleGauge, ''lb_backend_bytes_per_second'',
           ''Bytes per second processed by backend'', ''bps'')"
| "backend_instrument Backend_syn_per_sec =
     Some (DoubleGauge, ''lb_backend_syn_per_second'',
           ''TCP SYN packets per second to backend'', ''pps'')"
| "backend_instrument _ = None"

fun service_instrument :: "instrument \<Rightarrow> (instrument_kind \<times> string \<times> string \<times> string) option" where
  "service_instrument Service_total_packets =
     Some (UInt64Counter, ''lb_service_packets_total'', ''Total number of packets for service'', ''packets'')"
| "service_instrument Service_tcp_syn_packets =
     Some (UInt64Counter, ''lb_service_tcp_syn_packets_total'',
           ''Total number of TCP SYN packets for service'', ''packets'')"
| "service_instrument Service_prepared_packets =
     Some (UInt64Counter, ''lb_service_prepared_packets_total'',
           ''Total number of prepared packets for service'', ''packets'')"
| "service_instrument Service_total_bytes =
     Some (UInt64Counter, ''lb_service_bytes_total'', ''Total number of bytes for service'', ''bytes'')"
| "service_instrument Service_connections =
     Some (Int64Gauge, ''lb_service_connections_active'',
           ''Number of active connections for service'', ''connections'')"
| "service_instrument Service_packets_per_sec =
     Some (DoubleGauge, ''lb_service_packets_per_second'', ''Packets per second for service'', ''pps'')"
| "service_instrument Service_bytes_per_sec =
     Some (DoubleGauge, ''lb_service_bytes_per_second'', ''Bytes per second for service'', ''bps'')"
| "service_instrument Service_syn_per_sec =
     Some (DoubleGauge, ''lb_service_syn_per_second'', ''TCP SYN packets per second for service'', ''pps'')"
| "service_instrument Ddos_dropped_total =
     Some (UInt64Counter, ''lb_ddos_dropped_packets_total'',
           ''Total number of packets dropped by DDoS filter'', ''packets'')"
| "service_instrument Ddos_blacklist_size =
     Some (Int64Gauge, ''lb_ddos_blacklist_size'', ''Number of currently blocked source IPs'', ''ips'')"
| "service_instrument _ = None"

type_synonym labels = "(string, string) omap"

datatype 'r call =
    Add instrument u64 labels
  | Record_int instrument int labels
  | Record_double instrument 'r labels

text \<open>\<open>std::chrono\<close> and \<open>double\<close>: the seconds of a span in nanoseconds, and the arithmetic used.\<close>

record 'r double_ops =
  seconds :: "int \<Rightarrow> 'r"
  above_1ms :: "'r \<Rightarrow> bool"
  double_of :: "u64 \<Rightarrow> 'r"
  times_1_5 :: "'r \<Rightarrow> 'r"
  divided_by :: "'r \<Rightarrow> 'r \<Rightarrow> 'r"

record 'r metrics_server =
  m_prevBackendMetrics :: "(backend_label, metrics_data) omap"
  m_prevServiceMetrics :: "(service_label, metrics_data) omap"
  m_prevTimestamp :: int
  m_prevDroppedTotal :: u64
  m_running :: bool
  calls :: "'r call list"

definition new_server :: "int \<Rightarrow> 'r metrics_server" where
  "new_server now =
     \<lparr>m_prevBackendMetrics = [], m_prevServiceMetrics = [], m_prevTimestamp = now,
      m_prevDroppedTotal = 0, m_running = False, calls = []\<rparr>"

subsection \<open>One scrape\<close>

definition label_map :: "(string \<times> string) list \<Rightarrow> labels" where
  "label_map ls = foldl (\<lambda>m (k, v). omap_put string_lt k v m) [] ls"

definition backend_labels :: "backend_label \<Rightarrow> labels" where
  "backend_labels b =
     label_map [(''backend'', bl_ip_address b), (''port'', decimal_text (unat (bl_port b))),
                (''ip_version'', if bl_ip_version b = 4 then ''4'' else ''6'')]"

definition service_labels :: "service_label \<Rightarrow> labels" where
  "service_labels s =
     label_map [(''service'', sl_name s), (''vip'', sl_vip_address s),
                (''port'', decimal_text (unat (sl_port s))),
                (''ip_version'', if sl_ip_version s = 4 then ''4'' else ''6'')]"

definition add_backend ::
    "(backend_label, metrics_data) omap \<Rightarrow> backend_label \<times> metrics_data \<Rightarrow> 'r call list" where
  "add_backend prevs entry =
     (let (backend, cur) = entry; labels = backend_labels backend
      in (case omap_find backend_label_lt backend prevs of
            Some prev \<Rightarrow>
              [Add Backend_total_packets (md_total_packets cur - md_total_packets prev) labels,
               Add Backend_tcp_syn_packets (md_tcp_syn_packets cur - md_tcp_syn_packets prev) labels,
               Add Backend_prepared_packets (md_prepared_packets cur - md_prepared_packets prev) labels,
               Add Backend_total_bytes (md_total_bytes cur - md_total_bytes prev) labels]
          | None \<Rightarrow>
              [Add Backend_total_packets (md_total_packets cur) labels,
               Add Backend_tcp_syn_packets (md_tcp_syn_packets cur) labels,
               Add Backend_prepared_packets (md_prepared_packets cur) labels,
               Add Backend_total_bytes (md_total_bytes cur) labels])
         @ [Record_int Backend_connections (sint (md_connections cur)) labels])"

definition add_service ::
    "(service_label, metrics_data) omap \<Rightarrow> service_label \<times> metrics_data \<Rightarrow> 'r call list" where
  "add_service prevs entry =
     (let (service, cur) = entry; labels = service_labels service
      in (case omap_find service_label_lt service prevs of
            Some prev \<Rightarrow>
              [Add Service_total_packets (md_total_packets cur - md_total_packets prev) labels,
               Add Service_tcp_syn_packets (md_tcp_syn_packets cur - md_tcp_syn_packets prev) labels,
               Add Service_prepared_packets (md_prepared_packets cur - md_prepared_packets prev) labels,
               Add Service_total_bytes (md_total_bytes cur - md_total_bytes prev) labels]
          | None \<Rightarrow>
              [Add Service_total_packets (md_total_packets cur) labels,
               Add Service_tcp_syn_packets (md_tcp_syn_packets cur) labels,
               Add Service_prepared_packets (md_prepared_packets cur) labels,
               Add Service_total_bytes (md_total_bytes cur) labels])
         @ [Record_int Service_connections (sint (md_connections cur)) labels])"

definition rate :: "('r, 'm) double_ops_scheme \<Rightarrow> u64 \<Rightarrow> 'r \<Rightarrow> 'r" where
  "rate ops delta elapsed = divided_by ops (times_1_5 ops (double_of ops delta)) elapsed"

definition backend_rates ::
    "('r, 'm) double_ops_scheme \<Rightarrow> 'r \<Rightarrow> (backend_label, metrics_data) omap \<Rightarrow>
     backend_label \<times> metrics_data \<Rightarrow> 'r call list"
where
  "backend_rates ops elapsed prevs entry =
     (let (backend, cur) = entry; labels = backend_labels backend
      in case omap_find backend_label_lt backend prevs of
           None \<Rightarrow> []
         | Some prev \<Rightarrow>
             [Record_double Backend_packets_per_sec
                (rate ops (md_total_packets cur - md_total_packets prev) elapsed) labels,
              Record_double Backend_bytes_per_sec
                (rate ops (md_total_bytes cur - md_total_bytes prev) elapsed) labels,
              Record_double Backend_syn_per_sec
                (rate ops (md_tcp_syn_packets cur - md_tcp_syn_packets prev) elapsed) labels])"

definition service_rates ::
    "('r, 'm) double_ops_scheme \<Rightarrow> 'r \<Rightarrow> (service_label, metrics_data) omap \<Rightarrow>
     service_label \<times> metrics_data \<Rightarrow> 'r call list"
where
  "service_rates ops elapsed prevs entry =
     (let (service, cur) = entry; labels = service_labels service
      in case omap_find service_label_lt service prevs of
           None \<Rightarrow> []
         | Some prev \<Rightarrow>
             [Record_double Service_packets_per_sec
                (rate ops (md_total_packets cur - md_total_packets prev) elapsed) labels,
              Record_double Service_bytes_per_sec
                (rate ops (md_total_bytes cur - md_total_bytes prev) elapsed) labels,
              Record_double Service_syn_per_sec
                (rate ops (md_tcp_syn_packets cur - md_tcp_syn_packets prev) elapsed) labels])"

definition calculateRates ::
    "('r, 'm) double_ops_scheme \<Rightarrow> (backend_label, metrics_data) omap \<Rightarrow>
     (service_label, metrics_data) omap \<Rightarrow> 'r \<Rightarrow> ('r, 'n) metrics_server_scheme \<Rightarrow> 'r call list"
where
  "calculateRates ops currentBackend currentService elapsed s =
     concat (map (backend_rates ops elapsed (m_prevBackendMetrics s)) currentBackend)
     @ concat (map (service_rates ops elapsed (m_prevServiceMetrics s)) currentService)"

text \<open>What one scrape reads: the clock, and the answers of the data plane.\<close>

record scrape =
  now :: int
  currentBackendMetrics :: "(backend_label, metrics_data) omap"
  currentServiceMetrics :: "(service_label, metrics_data) omap"
  ddos :: ddos_stats

definition scrapMetrics ::
    "('r, 'm) double_ops_scheme \<Rightarrow> scrape \<Rightarrow> 'r metrics_server \<Rightarrow> 'r metrics_server" where
  "scrapMetrics ops x s =
     (let elapsed = seconds ops (now x - m_prevTimestamp s);
          backends = concat (map (add_backend (m_prevBackendMetrics s)) (currentBackendMetrics x));
          services = concat (map (add_service (m_prevServiceMetrics s)) (currentServiceMetrics x));
          rates = (if m_prevBackendMetrics s \<noteq> [] \<and> above_1ms ops elapsed
                   then calculateRates ops (currentBackendMetrics x) (currentServiceMetrics x) elapsed s
                   else []);
          dropped = (if ds_dropped_total (ddos x) \<ge> m_prevDroppedTotal s
                     then [Add Ddos_dropped_total (ds_dropped_total (ddos x) - m_prevDroppedTotal s) []]
                     else []);
          blocked = [Record_int Ddos_blacklist_size (sint (ds_blacklist_size (ddos x))) []]
      in s\<lparr>m_prevDroppedTotal := ds_dropped_total (ddos x),
           m_prevTimestamp := now x,
           m_prevBackendMetrics := currentBackendMetrics x,
           m_prevServiceMetrics := currentServiceMetrics x,
           calls := calls s @ backends @ services @ rates @ dropped @ blocked\<rparr>)"

subsection \<open>The server's thread\<close>

text \<open>\<open>Serve\<close> starts the loop, \<open>Stop\<close> ends it before the next scrape.\<close>

datatype server_event = Scrape_due scrape | Stop_called

definition Serve :: "'r metrics_server \<Rightarrow> 'r metrics_server" where
  "Serve s = s\<lparr>m_running := True\<rparr>"

definition Stop :: "'r metrics_server \<Rightarrow> 'r metrics_server" where
  "Stop s = s\<lparr>m_running := False\<rparr>"

fun serve_loop ::
    "('r, 'm) double_ops_scheme \<Rightarrow> server_event list \<Rightarrow> 'r metrics_server \<Rightarrow> 'r metrics_server" where
  "serve_loop ops [] s = s"
| "serve_loop ops (Stop_called # es) s = serve_loop ops es (Stop s)"
| "serve_loop ops (Scrape_due x # es) s =
     (if m_running s then serve_loop ops es (scrapMetrics ops x s) else s)"

subsection \<open>What the counters add up to\<close>

text \<open>The sum of all additions to a counter under one set of labels, in 64 bits.\<close>

fun counted1 :: "instrument \<Rightarrow> labels \<Rightarrow> 'r call \<Rightarrow> u64" where
  "counted1 i l (Add j v k) = (if i = j \<and> l = k then v else 0)"
| "counted1 i l _ = 0"

definition added_up :: "instrument \<Rightarrow> labels \<Rightarrow> 'r call list \<Rightarrow> u64" where
  "added_up i l cs = sum_list (map (counted1 i l) cs)"

lemma counted_simps [simp]:
  "added_up i l [] = 0" "added_up i l (c # cs) = counted1 i l c + added_up i l cs"
  "added_up i l (cs @ ds) = added_up i l cs + added_up i l ds"
  "added_up i l (if b then cs else ds) = (if b then added_up i l cs else added_up i l ds)"
  by (simp_all add: added_up_def)

lemma counted_concat: "(\<And>x. x \<in> set xs \<Longrightarrow> added_up i l (g x) = 0) \<Longrightarrow> added_up i l (concat (map g xs)) = 0"
  by (induction xs) simp_all

definition backend_counters :: "(instrument \<times> (metrics_data \<Rightarrow> u64)) list" where
  "backend_counters =
     [(Backend_total_packets, md_total_packets), (Backend_tcp_syn_packets, md_tcp_syn_packets),
      (Backend_prepared_packets, md_prepared_packets), (Backend_total_bytes, md_total_bytes)]"

lemma backend_counters_cases:
  assumes "(i, f) \<in> set backend_counters"
  obtains "i = Backend_total_packets" "f = md_total_packets"
    | "i = Backend_tcp_syn_packets" "f = md_tcp_syn_packets"
    | "i = Backend_prepared_packets" "f = md_prepared_packets"
    | "i = Backend_total_bytes" "f = md_total_bytes"
  using assms by (auto simp: backend_counters_def)

lemma backend_labels_eq:
  "backend_labels b =
     [(''backend'', bl_ip_address b), (''ip_version'', if bl_ip_version b = 4 then ''4'' else ''6''),
      (''port'', decimal_text (unat (bl_port b)))]"
  by (simp add: backend_labels_def label_map_def string_lt_def)

definition known_version :: "backend_label \<Rightarrow> bool" where
  "known_version b \<longleftrightarrow> bl_ip_version b = 4 \<or> bl_ip_version b = 6"

lemma backend_labels_inj:
  "known_version a \<Longrightarrow> known_version b \<Longrightarrow> backend_labels a = backend_labels b \<longleftrightarrow> a = b"
  by (cases a; cases b)
    (auto simp: backend_labels_eq known_version_def decimal_text_inj dest: unsigned_word_eqI)

lemma counted_add_backend:
  assumes "(i, f) \<in> set backend_counters"
  shows "added_up i l (add_backend prevs (a, cur)) =
    (if l = backend_labels a
     then (case omap_find backend_label_lt a prevs of None \<Rightarrow> f cur | Some prev \<Rightarrow> f cur - f prev) else 0)"
  using assms by (rule backend_counters_cases) (auto simp: add_backend_def Let_def split: option.split)

lemma counted_other:
  assumes "(i, f) \<in> set backend_counters"
  shows "added_up i l (add_service p x) = 0" "added_up i l (service_rates ops e p x) = 0"
    "added_up i l (backend_rates ops e q y) = 0" "i \<noteq> Ddos_dropped_total"
  using assms by (rule backend_counters_cases,
      auto simp: add_service_def service_rates_def backend_rates_def Let_def split_beta split: option.split)+

lemma counted_rates:
  "(i, f) \<in> set backend_counters \<Longrightarrow> added_up i l (calculateRates ops bs ss e s) = 0"
  by (simp add: calculateRates_def counted_concat counted_other)

lemma counted_add_backends:
  assumes i: "(i, f) \<in> set backend_counters" and b: "known_version b"
  shows "omap_ok backend_label_lt m \<Longrightarrow> list_all (\<lambda>e. known_version (fst e)) m \<Longrightarrow>
    added_up i (backend_labels b) (concat (map (add_backend prevs) m)) =
      (case omap_find backend_label_lt b m of
         None \<Rightarrow> 0
       | Some cur \<Rightarrow> (case omap_find backend_label_lt b prevs of None \<Rightarrow> f cur | Some prev \<Rightarrow> f cur - f prev))"
proof (induction m)
  case (Cons e m)
  obtain a cur where e: "e = (a, cur)" by (cases e)
  have ok: "omap_ok backend_label_lt m" "list_all (\<lambda>e. known_version (fst e)) m" "known_version a"
    using Cons.prems by (simp_all add: omap_ok_def e)
  have l: "backend_labels b = backend_labels a \<longleftrightarrow> a = b" using backend_labels_inj [OF ok(3) b] by auto
  show ?case
  proof (cases "a = b")
    case True
    have "omap_find backend_label_lt b m = None"
      using Cons.prems(1) True by (intro bl.find_above) (auto simp: omap_ok_def e bl.lt_rank)
    then show ?thesis using True Cons.IH [OF ok(1,2)] bl.mem_find [OF Cons.prems(1), of b cur]
      by (simp add: e counted_add_backend [OF i])
  next
    case False
    have "omap_find backend_label_lt b (e # m) = omap_find backend_label_lt b m"
    proof (cases "backend_label_rank a < backend_label_rank b")
      case False
      then have lt: "backend_label_rank b < backend_label_rank a"
        using \<open>a \<noteq> b\<close> backend_label_rank_inj [of a b] by auto
      then have "omap_find backend_label_lt b m = None"
        using Cons.prems(1) by (intro bl.find_above) (force simp: omap_ok_def e bl.lt_rank)
      then show ?thesis using lt False by (simp add: e bl.lt_eq)
    qed (simp add: e bl.lt_eq)
    then show ?thesis using False Cons.IH [OF ok(1,2)] by (simp add: e counted_add_backend [OF i] l)
  qed
qed simp

text \<open>One scrape moves the sum by the difference to the scrape before.\<close>

definition scrape_ok :: "scrape \<Rightarrow> bool" where
  "scrape_ok x \<longleftrightarrow>
     omap_ok backend_label_lt (currentBackendMetrics x)
     \<and> list_all (\<lambda>e. known_version (fst e)) (currentBackendMetrics x)"

lemma scrape_calls:
  assumes "(i, f) \<in> set backend_counters"
  obtains rest where
    "calls (scrapMetrics ops x s) =
       calls s @ concat (map (add_backend (m_prevBackendMetrics s)) (currentBackendMetrics x)) @ rest"
    "added_up i l rest = 0"
proof -
  let ?e = "seconds ops (now x - m_prevTimestamp s)"
  let ?rest = "concat (map (add_service (m_prevServiceMetrics s)) (currentServiceMetrics x))
    @ (if m_prevBackendMetrics s \<noteq> [] \<and> above_1ms ops ?e
       then calculateRates ops (currentBackendMetrics x) (currentServiceMetrics x) ?e s else [])
    @ (if ds_dropped_total (ddos x) \<ge> m_prevDroppedTotal s
       then [Add Ddos_dropped_total (ds_dropped_total (ddos x) - m_prevDroppedTotal s) []] else [])
    @ [Record_int Ddos_blacklist_size (sint (ds_blacklist_size (ddos x))) []]"
  have "added_up i l ?rest = 0"
    by (simp add: counted_concat counted_other [OF assms] counted_rates [OF assms])
  then show ?thesis by (rule that [rotated]) (simp add: scrapMetrics_def Let_def)
qed

lemma counted_scrape:
  assumes "(i, f) \<in> set backend_counters" "known_version b" "scrape_ok x"
  shows "added_up i (backend_labels b) (calls (scrapMetrics ops x s)) =
    added_up i (backend_labels b) (calls s) +
      (case omap_find backend_label_lt b (currentBackendMetrics x) of
         None \<Rightarrow> 0
       | Some cur \<Rightarrow>
           (case omap_find backend_label_lt b (m_prevBackendMetrics s) of
              None \<Rightarrow> f cur | Some prev \<Rightarrow> f cur - f prev))"
proof -
  obtain rest where "calls (scrapMetrics ops x s) =
      calls s @ concat (map (add_backend (m_prevBackendMetrics s)) (currentBackendMetrics x)) @ rest"
    "added_up i (backend_labels b) rest = 0" by (rule scrape_calls [OF assms(1)])
  then show ?thesis
    using counted_add_backends [OF assms(1,2), of "currentBackendMetrics x" "m_prevBackendMetrics s"] assms(3)
    by (simp add: scrape_ok_def)
qed

lemma scrapMetrics_prev: "m_prevBackendMetrics (scrapMetrics ops x s) = currentBackendMetrics x"
  by (simp add: scrapMetrics_def Let_def)

lemma counted_scrapes:
  assumes i: "(i, f) \<in> set backend_counters" and b: "known_version b"
    and ok: "\<forall>x \<in> set (xs @ [x]). scrape_ok x \<and> omap_find backend_label_lt b (currentBackendMetrics x) \<noteq> None"
    and last_x: "omap_find backend_label_lt b (currentBackendMetrics x) = Some cur"
  shows "added_up i (backend_labels b) (calls (fold (scrapMetrics ops) (xs @ [x]) (new_server t))) = f cur"
  using ok last_x
proof (induction xs arbitrary: x cur rule: rev_induct)
  case Nil
  then show ?case by (simp add: counted_scrape [OF i b]) (simp add: new_server_def)
next
  case (snoc y ys)
  obtain prev where prev: "omap_find backend_label_lt b (currentBackendMetrics y) = Some prev"
    using snoc.prems(1) by auto
  have "added_up i (backend_labels b) (calls (fold (scrapMetrics ops) (ys @ [y]) (new_server t))) = f prev"
    by (rule snoc.IH) (use snoc.prems(1) prev in auto)
  then show ?case using snoc.prems prev
    by (simp add: counted_scrape [OF i b] scrapMetrics_prev)
qed

end
