(* ===== verification/Packet_Effect.thy ===== *)
theory Packet_Effect
  imports Xdp_Safety Session_Affinity
begin

section \<open>What one packet can do to the maps\<close>

text \<open>
  A relation between the maps before and after holds for every packet when the lookup of a TCP
  backend and the one of a UDP backend have it and the flood check, which comes before, does not
  break it. The handlers touch the maps in no other way.
\<close>

definition within :: "(xdp_maps \<Rightarrow> xdp_maps \<Rightarrow> bool) \<Rightarrow> xdp_maps \<Rightarrow> ('a \<times> 'b \<times> xdp_maps) option \<Rightarrow> bool" where
  "within R st r \<longleftrightarrow> (\<forall>v p st'. r = Some (v, p, st') \<longrightarrow> R st st')"

locale packet_effect =
  fixes R :: "xdp_maps \<Rightarrow> xdp_maps \<Rightarrow> bool"
  assumes same: "R st st"
    and tcp_lookup: "maps_ok st \<Longrightarrow> sessions_ok st \<Longrightarrow> R st (snd (find_tcp_backend env sk key tcp len st))"
    and udp_lookup: "maps_ok st \<Longrightarrow> sessions_ok st \<Longrightarrow> R st (snd (find_udp_backend env key len st))"
    and after_ddos: "ddos_frame st mid \<Longrightarrow> R mid st' \<Longrightarrow> R st st'"
begin

lemma within_verdict: "within R st r \<Longrightarrow> within R st (verdict_of r)"
  by (auto simp: within_def verdict_of_def)

lemma within_pass: "within R st (Some (v, p, st))" "within R st None"
  by (simp_all add: within_def same)

lemma within_bind: "(\<And>x. m = Some x \<Longrightarrow> within R st (f x)) \<Longrightarrow> within R st (Option.bind m f)"
  by (cases m) (simp_all add: within_pass)

lemma within_handlers:
  assumes "maps_ok st" "sessions_ok st"
  shows "within R st (tcp_balancer_handle_v4 env p eth ip l4 st)" "within R st (udp_balancer_handle_v4 env p eth ip l4 st)"
    "within R st (tcp_balancer_handle_v6 env p eth ip l4 st)" "within R st (udp_balancer_handle_v6 env p eth ip l4 st)"
  using tcp_lookup [OF assms] udp_lookup [OF assms]
  by (force simp: within_def tcp_balancer_handle_v4_def udp_balancer_handle_v4_def
      tcp_balancer_handle_v6_def udp_balancer_handle_v6_def Let_def bind_eq_Some_conv split_beta
      split: option.splits)+

lemma within_ddos: "ddos_frame st mid \<Longrightarrow> within R mid r \<Longrightarrow> within R st r"
  by (auto simp: within_def after_ddos)

lemma within_tcp_v4:
  assumes ok: "maps_ok st" "sessions_ok st"
  shows "within R st
    (case ddos_check_v4 env saddr flags st of
       (v, mid) \<Rightarrow> if v = XDP_DROP then Some (XDP_DROP, p, mid)
                   else verdict_of (tcp_balancer_handle_v4 env p eth ip l4 mid))"
proof -
  obtain v mid where d: "ddos_check_v4 env saddr flags st = (v, mid)" by (rule prod.exhaust)
  have mid: "maps_ok mid" "ddos_frame st mid" using ddos_check_frame [OF ok(1) d] by simp_all
  then have "sessions_ok mid" using ok(2) ddos_frame_fields(9) by (simp add: sessions_ok_def)
  then have "within R mid (verdict_of (tcp_balancer_handle_v4 env p eth ip l4 mid))"
    using within_handlers(1) [OF mid(1)] within_verdict by blast
  then show ?thesis by (simp add: d within_ddos [OF mid(2)] within_pass(1))
qed

lemma within_handler:
  assumes ok: "maps_ok st" "sessions_ok st"
  shows "within R st (balancer_handler env p st)"
proof -
  note handlers = within_handlers [OF ok, THEN within_verdict]
  have v4: "within R st (handle_ipv4 env p eth st)" for eth
    unfolding handle_ipv4_def Let_def
    by (auto simp: within_pass handlers intro!: within_bind within_tcp_v4 ok)
  have v6: "within R st (handle_ipv6 env p eth st)" for eth
    unfolding handle_ipv6_def Let_def
    by (auto simp: within_pass handlers intro!: within_bind)
  show ?thesis
    unfolding balancer_handler_def Let_def
    by (auto simp: within_pass v4 v6 intro!: within_bind)
qed

lemma step: "xdp_step st st' \<Longrightarrow> maps_ok st \<Longrightarrow> sessions_ok st \<Longrightarrow> R st st'"
  using within_handler by (auto simp: xdp_step_iff within_def)

end

subsection \<open>Sessions\<close>

text \<open>One packet is about one flow: the sessions of all others stay, but for their timestamps nothing is shared.\<close>

definition one_session :: "xdp_maps \<Rightarrow> xdp_maps \<Rightarrow> bool" where
  "one_session st st' \<longleftrightarrow>
     (\<exists>sk. \<forall>j. j \<noteq> sk \<longrightarrow> hash_lookup (tcp_session_state st') j = hash_lookup (tcp_session_state st) j)"

interpretation sessions: packet_effect one_session
proof unfold_locales
  show "one_session st st" for st by (simp add: one_session_def)
  show "one_session st (snd (find_tcp_backend env sk key tcp len st))" if "maps_ok st" "sessions_ok st"
    for st env sk key tcp len
    unfolding one_session_def
    using find_tcp_backend_other [OF that _ prod.collapse [symmetric]] by (intro exI [of _ sk]) blast
  show "one_session st (snd (find_udp_backend env key len st))" if "maps_ok st" "sessions_ok st" for st env key len
    using find_udp_backend_step [OF that prod.collapse [symmetric]] by (auto simp: one_session_def)
  show "one_session st st'" if "ddos_frame st mid" "one_session mid st'" for st mid st'
    using that ddos_frame_fields(9) [OF that(1)] by (simp add: one_session_def)
qed

lemma session_keys: "fst ` set m = {k. hash_lookup m k \<noteq> None}"
  by (auto simp: hash_lookup_def map_of_eq_None_iff domIff)

lemma xdp_step_session_keys:
  assumes "xdp_step st st'" "maps_ok st" "sessions_ok st"
  obtains sk where "fst ` set (tcp_session_state st') \<subseteq> insert sk (fst ` set (tcp_session_state st))"
proof -
  obtain sk where "\<forall>j. j \<noteq> sk \<longrightarrow> hash_lookup (tcp_session_state st') j = hash_lookup (tcp_session_state st) j"
    using sessions.step [OF assms] by (auto simp: one_session_def)
  then show ?thesis by (intro that [of sk]) (auto simp: session_keys)
qed

end
