(* ===== verification/Wrr_Cursors.thy ===== *)
theory Wrr_Cursors
  imports Balancer_System Packet_Effect
begin

section \<open>The cursors of weighted round robin\<close>

text \<open>
  A cursor that points outside its service would make the weighted scheduler pick a backend of
  another one. No packet and no maintenance brings a cursor there, and a reload that gets as far
  as the cursors removes them all.
\<close>

definition cursors_ok :: "xdp_maps \<Rightarrow> bool" where
  "cursors_ok st \<longleftrightarrow>
     (\<forall>key info. hash_lookup (services_map st (atomic_index st 0)) key = Some info \<longrightarrow>
        info_ok info \<longrightarrow> wrr_cursor_ok info key st)"

definition cursor_view :: "xdp_maps \<Rightarrow> _" where
  "cursor_view st = (config_view st, wrr_state_map st)"

lemma cursors_ok_view: "cursor_view st' = cursor_view st \<Longrightarrow> cursors_ok st' = cursors_ok st"
  using config_view_fields(1,3) [of st' st] by (auto simp: cursors_ok_def cursor_view_def wrr_cursor_ok_def)

subsection \<open>The schedulers\<close>

lemma wrr_handle_other:
  assumes "wrr_balancer_handle bm info key l st = (r, l', st')" "k \<noteq> key"
  shows "hash_lookup (wrr_state_map st') k = hash_lookup (wrr_state_map st) k"
proof -
  have "hash_lookup (wrr_state_map (wrr_init key st)) k = hash_lookup (wrr_state_map st) k"
    using assms(2) hash_update_lookup [OF prod.collapse [symmetric], of MAX_SERVICES "wrr_state_map st" key wrr_zero k]
    by (simp add: wrr_init_def)
  then show ?thesis using assms
    by (auto simp: wrr_handle_eq map_simps split: option.splits prod.splits)
qed

lemma sched_frame_view: "sched_frame st st' \<Longrightarrow> config_view st' = config_view st"
  by (rule data_frame_view [OF sched_data_frame])

lemma wrr_keeps_cursors:
  assumes run: "wrr_balancer_handle bm info key l st = (r, l', st')"
    and info: "hash_lookup (services_map st (atomic_index st 0)) key = Some info" and ok: "cursors_ok st"
  shows "cursors_ok st' \<and> config_view st' = config_view st"
proof -
  have view: "config_view st' = config_view st" by (rule sched_frame_view [OF wrr.pick_frame [OF run]])
  have "wrr_cursor_ok i k st'"
    if "hash_lookup (services_map st (atomic_index st 0)) k = Some i" "info_ok i" for i k
  proof (cases "k = key")
    case True
    then show ?thesis using that info ok wrr.pick_cursor_ok [OF _ _ run] by (simp add: cursors_ok_def)
  next
    case False
    then show ?thesis using that ok wrr_handle_other [OF run False]
      by (simp add: cursors_ok_def wrr_cursor_ok_def)
  qed
  then show ?thesis using view config_view_fields(1,3) [OF view] by (simp add: cursors_ok_def)
qed

context scheduler
begin

lemma loop_keeps:
  assumes "\<And>l st r l' st'. pick bm info key l st = (r, l', st') \<Longrightarrow> P st \<Longrightarrow> P st'"
  shows "pick_loop (pick bm info key) n l st = (r, l', st') \<Longrightarrow> P st \<Longrightarrow> P st'"
proof (induction "4 - n" arbitrary: n l st rule: less_induct)
  case less
  from less.prems(1) show ?case
  proof (cases rule: loop_cases)
    case (1 b)
    then show ?thesis using assms less.prems(2) by blast
  next
    case (2 b l1 s)
    then show ?thesis using less.hyps [OF _ 2(4)] assms [OF 2(1)] less.prems(2) by simp
  qed
qed

end

definition served_at :: "service_key \<Rightarrow> service_info \<Rightarrow> xdp_maps \<Rightarrow> bool" where
  "served_at key info st \<longleftrightarrow>
     cursors_ok st \<and> hash_lookup (services_map st (atomic_index st 0)) key = Some info"

lemma wrr_loop_cursors:
  assumes "pick_loop (wrr_balancer_handle bm info key) n l st = (r, l', st')" "served_at key info st"
  shows "cursors_ok st'"
proof -
  have "served_at key info t'" if "wrr_balancer_handle bm info key l t = (r, l', t')" "served_at key info t"
    for l t r l' t'
  proof -
    have t: "cursors_ok t' \<and> config_view t' = config_view t"
      using wrr_keeps_cursors [OF that(1)] that(2) by (simp add: served_at_def)
    then show ?thesis using that(2) config_view_fields(1,3) [of t' t] by (simp add: served_at_def)
  qed
  then show ?thesis using wrr.loop_keeps [OF _ assms(1), of "served_at key info"] assms(2)
    by (simp add: served_at_def)
qed

lemma rr_handle_view: "rr_balancer_handle bm info key l st = (r, l', st') \<Longrightarrow> cursor_view st' = cursor_view st"
  by (auto simp: rr_balancer_handle_def cursor_view_def config_view_def Let_def split: option.splits if_splits)

lemma rr_loop_view:
  assumes "pick_loop (rr_balancer_handle bm info key) n l st = (r, l', st')"
  shows "cursor_view st' = cursor_view st"
  using rr.loop_keeps [OF _ assms, of "\<lambda>t. cursor_view t = cursor_view st"] rr_handle_view by metis

lemma ch_frame_view: "ch_frame st st' \<Longrightarrow> cursor_view st' = cursor_view st"
  by (cases st; cases st') (simp add: ch_frame_def cursor_view_def config_view_def)

lemma tcp_schedule_cursors:
  assumes "tcp_schedule env sk key len bm info l st = (r, l', st')" "served_at key info st"
  shows "cursors_ok st'"
  using assms(1)
proof (cases rule: tcp_schedule_cases)
  case RR
  then show ?thesis using rr_loop_view cursors_ok_view assms(2) unfolding served_at_def by blast
next
  case WRR
  then show ?thesis using wrr_loop_cursors assms(2) by blast
next
  case (CH h)
  then show ?thesis
    using cursors_ok_view [OF ch_frame_view [OF ch_balancer_frame [OF CH(1)]]] assms(2) by (simp add: served_at_def)
qed (use assms(2) in \<open>simp add: served_at_def\<close>)

lemma udp_schedule_cursors:
  "udp_schedule key bm info l st = (r, l', st') \<Longrightarrow> served_at key info st \<Longrightarrow> cursors_ok st'"
  using rr_loop_view [THEN cursors_ok_view] wrr_loop_cursors
  by (auto simp: udp_schedule_def served_at_def split: if_splits)

subsection \<open>Packets\<close>

lemma stats_cursor_view [simp]:
  "cursor_view (backend_stats env f i st) = cursor_view st"
  "cursor_view (service_stats env f i st) = cursor_view st"
  "cursor_view (st\<lparr>tcp_session_state := m\<rparr>) = cursor_view st"
  by (simp_all add: cursor_view_def config_view_def backend_stats_def service_stats_def)

lemma stats_cursors [simp]:
  "cursors_ok (backend_stats env f i st) = cursors_ok st"
  "cursors_ok (service_stats env f i st) = cursors_ok st"
  "cursors_ok (st\<lparr>tcp_session_state := m\<rparr>) = cursors_ok st"
  by (rule cursors_ok_view [OF stats_cursor_view(1)], rule cursors_ok_view [OF stats_cursor_view(2)],
      rule cursors_ok_view [OF stats_cursor_view(3)])

lemma session_phase_view: "cursor_view (snd (session_phase env bm sk st)) = cursor_view st"
  by (simp add: session_phase_def Let_def split: option.split)

lemma new_session_cursors:
  assumes "cursors_ok st"
  shows "cursors_ok (snd (new_session_phase env sk key len (services_map st (atomic_index st 0)) bm lv st))"
proof (cases "hash_lookup (services_map st (atomic_index st 0)) key")
  case (Some info)
  obtain r l t where sched: "tcp_schedule env sk key len bm info (last_backend_index lv) st = (r, l, t)"
    by (rule prod_cases3)
  have "cursors_ok t" by (rule tcp_schedule_cursors [OF sched]) (simp add: served_at_def assms Some)
  then show ?thesis by (simp add: new_session_phase_def Some sched Let_def split: option.split)
qed (simp add: new_session_phase_def assms)

lemma find_tcp_backend_cursors:
  assumes "cursors_ok st"
  shows "cursors_ok (snd (find_tcp_backend env sk key tcp len st))"
proof -
  let ?bm = "backends_map st (atomic_index st 0)"
  obtain lv s where s: "(if pure_syn tcp then (tcp_start, st) else session_phase env ?bm sk st) = (lv, s)"
    by (rule prod.exhaust)
  have view: "cursor_view s = cursor_view st"
    using s session_phase_view [of env ?bm sk st] by (auto split: if_splits)
  then have c: "cursors_ok s" "services_map s (atomic_index s 0) = services_map st (atomic_index st 0)"
    using assms cursors_ok_view [OF view] config_view_fields(1,3) [of s st] view by (simp_all add: cursor_view_def)
  from new_session_cursors [OF c(1)] c
  have new: "cursors_ok (snd (new_session_phase env sk key len (services_map st (atomic_index st 0)) ?bm lv s))"
    by simp
  show ?thesis
    using new c(1) s
    by (auto simp: find_tcp_backend_def array_lookup_def close_phase_def tcp_stats_phase_def Let_def
        split: option.split prod.split)
qed

lemma find_udp_backend_cursors:
  assumes "cursors_ok st"
  shows "cursors_ok (snd (find_udp_backend env key len st))"
proof (cases "hash_lookup (services_map st (atomic_index st 0)) key")
  case (Some info)
  obtain r l t where sched: "udp_schedule key (backends_map st (atomic_index st 0)) info 0 st = (r, l, t)"
    by (rule prod_cases3)
  have "cursors_ok t" by (rule udp_schedule_cursors [OF sched]) (simp add: served_at_def assms Some)
  then show ?thesis by (simp add: find_udp_backend_def array_lookup_def Some sched split: option.split)
qed (simp add: find_udp_backend_def array_lookup_def assms)

lemma ddos_frame_cursor_view: "ddos_frame st st' \<Longrightarrow> cursor_view st' = cursor_view st"
  by (cases st; cases st') (simp add: ddos_frame_def cursor_view_def config_view_def)

interpretation cursors: packet_effect "\<lambda>st st'. cursors_ok st \<longrightarrow> cursors_ok st'"
proof unfold_locales
  show "cursors_ok st \<longrightarrow> cursors_ok st'" if "ddos_frame st mid" "cursors_ok mid \<longrightarrow> cursors_ok st'" for st mid st'
    using that cursors_ok_view [OF ddos_frame_cursor_view [OF that(1)]] by simp
qed (simp_all add: find_tcp_backend_cursors find_udp_backend_cursors)

lemma xdp_step_cursors: "xdp_step st st' \<Longrightarrow> maps_ok st \<Longrightarrow> sessions_ok st \<Longrightarrow> cursors_ok st \<Longrightarrow> cursors_ok st'"
  using cursors.step by blast

subsection \<open>Maintenance\<close>

lemma call_bpf_cursor_view: "cursor_view (call_bpf (ch_callback d) key inst st) = cursor_view st"
  by (simp add: cursor_view_def call_bpf_view call_bpf_wrr)

lemma periodicMaintenance_cursor_view:
  "cursor_view (snd (periodicMaintenance (ch_callback d) (m, st))) = cursor_view st"
  by (induction m arbitrary: st) (auto simp: Let_def split_beta call_bpf_cursor_view)

lemma maintenance_cursor_view: "cursor_view (kernel (ChPeriodicMaintenance d)) = cursor_view (kernel d)"
  using periodicMaintenance_cursor_view by (simp add: ChPeriodicMaintenance_def split_beta Let_def)

end
