(* ===== verification/Ch_Writes.thy ===== *)
theory Ch_Writes
  imports Wrr_Cursors
begin

section \<open>The calls of a publication\<close>

text \<open>
  \<open>XdpDataplane::updateChBpfMaps\<close> of \<open>controlplane/src/manager/xdpdataplane.cpp\<close> makes a system
  call for every number, backend and slot it copies, and packets are processed between them. Here
  the calls are data: \<open>ch_writes\<close> lists what the function is going to write, \<open>ch_write_call\<close> is
  one of its calls. A callback that writes the lists down takes the place of \<open>updateChBpfMaps\<close> in
  the consistent-hash manager; making the calls it wrote down is what the manager does with
  \<open>updateChBpfMaps\<close> itself.
\<close>

datatype ch_write =
    W_size u32
  | W_count u32
  | W_backend nat backend
  | W_curr nat u32
  | W_prev nat u32

text \<open>One call, with whether the function goes on. The result of the second is not looked at.\<close>

fun ch_write_call :: "ch_write \<Rightarrow> xdp_maps \<Rightarrow> bool \<times> xdp_maps" where
  "ch_write_call (W_size m) st =
     (let (r, config) = array_update MAX_CH_CONFIG (ch_config st) 0 m in (r, st\<lparr>ch_config := config\<rparr>))"
| "ch_write_call (W_count n) st =
     (let (r, config) = array_update MAX_CH_CONFIG (ch_config st) 1 n in (True, st\<lparr>ch_config := config\<rparr>))"
| "ch_write_call (W_backend i b) st =
     (let (r, bs) = array_update MAX_CH_BACKENDS (ch_backends st) (of_nat i) b in (r, st\<lparr>ch_backends := bs\<rparr>))"
| "ch_write_call (W_curr i v) st =
     (let (r, slots) = array_update MAX_CH_SLOTS (ch_curr_lookup st) (of_nat i) v in (r, st\<lparr>ch_curr_lookup := slots\<rparr>))"
| "ch_write_call (W_prev i v) st =
     (let (r, slots) = array_update MAX_CH_SLOTS (ch_prev_lookup st) (of_nat i) v in (r, st\<lparr>ch_prev_lookup := slots\<rparr>))"

definition ch_writes :: "bool \<Rightarrow> backend list \<Rightarrow> int list \<Rightarrow> int list \<Rightarrow> u32 \<Rightarrow> ch_write list" where
  "ch_writes fds_ok backends curr_table prev_table m =
     (if \<not> fds_ok then []
      else W_size m # W_count (of_nat (length backends))
             # map (\<lambda>(i, b). W_backend i b) (enumerate 0 backends)
             @ map (\<lambda>(i, v). W_curr i (of_int v)) (enumerate 0 (take (unat m) curr_table))
             @ map (\<lambda>(i, v). W_prev i (of_int v)) (enumerate 0 (take (unat m) prev_table)))"

text \<open>The calls of a list up to the first that fails.\<close>

fun run_writes :: "ch_write list \<Rightarrow> xdp_maps \<Rightarrow> bool \<times> xdp_maps" where
  "run_writes [] st = (True, st)"
| "run_writes (w # ws) st =
     (case ch_write_call w st of
        (False, st) \<Rightarrow> (False, st)
      | (True, st) \<Rightarrow> run_writes ws st)"

text \<open>The next call of several publications; a failure ends the publication it belongs to.\<close>

fun publish_next :: "ch_write list list \<times> xdp_maps \<Rightarrow> ch_write list list \<times> xdp_maps" where
  "publish_next ([], st) = ([], st)"
| "publish_next ([] # pubs, st) = (pubs, st)"
| "publish_next ((w # ws) # pubs, st) =
     (let (go, st) = ch_write_call w st in ((if go then ws else []) # pubs, st))"

definition run_publications :: "ch_write list list \<Rightarrow> xdp_maps \<Rightarrow> xdp_maps" where
  "run_publications pubs st = fold (\<lambda>ws st. snd (run_writes ws st)) pubs st"

lemma run_publications_simps [simp]:
  "run_publications [] st = st"
  "run_publications (ws # pubs) st = run_publications pubs (snd (run_writes ws st))"
  "run_publications (pubs @ [ws]) st = snd (run_writes ws (run_publications pubs st))"
  by (simp_all add: run_publications_def)

lemma run_publications_next: "case_prod run_publications (publish_next s) = case_prod run_publications s"
  by (cases s rule: publish_next.cases) (auto split: prod.split bool.split)

text \<open>The calls that are left.\<close>

definition calls_left :: "ch_write list list \<Rightarrow> nat" where
  "calls_left pubs = sum_list (map (\<lambda>ws. Suc (length ws)) pubs)"

lemma publish_next_less: "pubs \<noteq> [] \<Longrightarrow> calls_left (fst (publish_next (pubs, st))) < calls_left pubs"
  by (cases "(pubs, st)" rule: publish_next.cases) (auto simp: calls_left_def split: prod.split)

subsection \<open>They are the function\<close>

lemma run_writes_append:
  "run_writes (ws @ vs) st =
     (case run_writes ws st of (False, st) \<Rightarrow> (False, st) | (True, st) \<Rightarrow> run_writes vs st)"
  by (induction ws arbitrary: st) (auto split: prod.split bool.split)

lemma run_slots:
  "run_writes (map (\<lambda>(i, b). W_backend i b) (enumerate n bs)) st =
     (let (r, m) = write_slots MAX_CH_BACKENDS n bs (ch_backends st) in (r, st\<lparr>ch_backends := m\<rparr>))"
  "run_writes (map (\<lambda>(i, v). W_curr i (of_int v)) (enumerate n vs)) st =
     (let (r, m) = write_slots MAX_CH_SLOTS n (map of_int vs) (ch_curr_lookup st) in (r, st\<lparr>ch_curr_lookup := m\<rparr>))"
  "run_writes (map (\<lambda>(i, v). W_prev i (of_int v)) (enumerate n vs)) st =
     (let (r, m) = write_slots MAX_CH_SLOTS n (map of_int vs) (ch_prev_lookup st) in (r, st\<lparr>ch_prev_lookup := m\<rparr>))"
proof -
  show "run_writes (map (\<lambda>(i, b). W_backend i b) (enumerate n bs)) st =
     (let (r, m) = write_slots MAX_CH_BACKENDS n bs (ch_backends st) in (r, st\<lparr>ch_backends := m\<rparr>))"
    by (induction bs arbitrary: n st) (auto simp: Let_def split: prod.split bool.split)
  show "run_writes (map (\<lambda>(i, v). W_curr i (of_int v)) (enumerate n vs)) st =
     (let (r, m) = write_slots MAX_CH_SLOTS n (map of_int vs) (ch_curr_lookup st) in (r, st\<lparr>ch_curr_lookup := m\<rparr>))"
    by (induction vs arbitrary: n st) (auto simp: Let_def split: prod.split bool.split)
  show "run_writes (map (\<lambda>(i, v). W_prev i (of_int v)) (enumerate n vs)) st =
     (let (r, m) = write_slots MAX_CH_SLOTS n (map of_int vs) (ch_prev_lookup st) in (r, st\<lparr>ch_prev_lookup := m\<rparr>))"
    by (induction vs arbitrary: n st) (auto simp: Let_def split: prod.split bool.split)
qed

lemma run_ch_writes:
  "run_writes (ch_writes True bs c p m) st = updateChBpfMaps True key bs c p m st"
  "snd (run_writes (ch_writes f bs c p m) st) = snd (updateChBpfMaps f key bs c p m st)"
proof -
  show all: "run_writes (ch_writes True bs c p m) st = updateChBpfMaps True key bs c p m st" for st
    by (auto simp: ch_writes_def updateChBpfMaps_def run_writes_append run_slots Let_def
        split: prod.split bool.split)
  show "snd (run_writes (ch_writes f bs c p m) st) = snd (updateChBpfMaps f key bs c p m st)"
    using all by (cases f) (simp_all add: ch_writes_def updateChBpfMaps_def)
qed

subsection \<open>Writing the calls down\<close>

definition recording :: "bool \<Rightarrow> ch_write list list bpf_callback" where
  "recording fds_ok key backends curr_table prev_table m pubs =
     (True, pubs @ [ch_writes fds_ok backends curr_table prev_table m])"

definition recorder :: "xdp_dataplane \<Rightarrow> ch_write list list bpf_callback option" where
  "recorder d = Some (recording (maps_opened d))"

lemma call_bpf_recorder:
  "call_bpf (recorder d) key inst pubs =
     pubs @ [ch_writes (maps_opened d) (m_backends inst) (m_currLookup inst) (m_prevLookup inst)
               (hashring_size (m_config inst))]"
  by (simp add: call_bpf_def recorder_def recording_def)

lemma call_bpf_recorded:
  "call_bpf (ch_callback d) key inst (run_publications pubs st) = run_publications (call_bpf (recorder d) key inst pubs) st"
  by (simp add: call_bpf_recorder) (simp add: call_bpf_def ch_callback_def run_ch_writes(2) [of _ _ _ _ _ _ key])

lemma periodicMaintenance_recorded:
  "periodicMaintenance (recorder d) (m, pubs) = (m', pubs') \<Longrightarrow>
     periodicMaintenance (ch_callback d) (m, run_publications pubs st) = (m', run_publications pubs' st)"
proof (induction m arbitrary: pubs m')
  case (Cons ke m)
  obtain k e where ke: "ke = (k, e)" by (rule prod.exhaust)
  then show ?case using Cons by (auto simp: Let_def call_bpf_recorded split: prod.splits if_splits)
qed simp

text \<open>
  The two operations of the data plane that publish, up to their publications: what they change in
  memory, under the manager's lock, and the calls they are going to make under it.
\<close>

definition begin_ch_service ::
    "host \<Rightarrow> balancer_service \<Rightarrow> xdp_dataplane \<Rightarrow> ch_write list list \<times> reload_error option \<times> xdp_dataplane"
where
  "begin_ch_service h service d =
     (if srv_type service \<noteq> CH then ([], None, d)
      else
        (let ch_backends = collect_ch_backends h (m_xdpBackends d) (reals service)
         in case ch_key h service of
              None \<Rightarrow> ([], Some Undefined_behaviour, d)
            | Some key \<Rightarrow>
                if ch_backends \<noteq> []
                then (case updateServiceBackends (recorder d) key ch_backends default_instance_config (m_chManager d, []) of
                        None \<Rightarrow> ([], Some Undefined_behaviour, d)
                      | Some (_, ms, pubs) \<Rightarrow> (pubs, None, d\<lparr>m_chManager := ms\<rparr>))
                else ([], None, d\<lparr>m_chManager := snd (removeService key (m_chManager d))\<rparr>)))"

definition begin_maintenance :: "xdp_dataplane \<Rightarrow> ch_write list list \<times> xdp_dataplane" where
  "begin_maintenance d =
     (let (ms, pubs) = periodicMaintenance (recorder d) (m_chManager d, []) in (pubs, d\<lparr>m_chManager := ms\<rparr>))"

definition publish_all :: "ch_write list list \<Rightarrow> xdp_dataplane \<Rightarrow> xdp_dataplane" where
  "publish_all pubs d = d\<lparr>kernel := run_publications pubs (kernel d)\<rparr>"

lemma publish_all_Nil [simp]: "publish_all [] d = d"
  by (simp add: publish_all_def)

lemma begin_failed: "begin_ch_service h service d = (pubs, Some err, e) \<Longrightarrow> pubs = []"
  by (auto simp: begin_ch_service_def Let_def split: if_splits option.splits)

lemma update_ch_service_begin:
  "update_ch_service h service d = (let (pubs, r, e) = begin_ch_service h service d in (r, publish_all pubs e))"
  using call_bpf_recorded [of d _ _ "[]"]
  by (auto simp: update_ch_service_def begin_ch_service_def publish_all_def updateServiceBackends_eq Let_def
      split: option.split)

lemma ChPeriodicMaintenance_begin:
  "ChPeriodicMaintenance d = (let (pubs, e) = begin_maintenance d in publish_all pubs e)"
  using periodicMaintenance_recorded [of d "m_chManager d" "[]" _ _ "kernel d"]
  by (auto simp: ChPeriodicMaintenance_def begin_maintenance_def publish_all_def split: prod.split)

subsection \<open>What the calls touch\<close>

definition tables_only :: "xdp_maps \<Rightarrow> xdp_maps \<Rightarrow> bool" where
  "tables_only st st' \<longleftrightarrow>
     st' = st\<lparr>ch_config := ch_config st', ch_backends := ch_backends st',
               ch_curr_lookup := ch_curr_lookup st', ch_prev_lookup := ch_prev_lookup st'\<rparr>"

lemma tables_only_refl: "tables_only st st"
  by (simp add: tables_only_def)

lemma ch_write_call_frame: "tables_only st (snd (ch_write_call w st))"
  by (cases w) (simp_all add: tables_only_def Let_def split_beta)

lemma publish_next_frame: "publish_next (pubs, st) = (pubs', st') \<Longrightarrow> tables_only st st'"
  using ch_write_call_frame [of st]
  by (cases "(pubs, st)" rule: publish_next.cases) (auto simp: tables_only_refl split: prod.splits, metis snd_conv)

lemma tables_only_view:
  assumes "tables_only st st'"
  shows "cursor_view st' = cursor_view st" "config_view st' = config_view st" "wrr_state_map st' = wrr_state_map st"
    "tcp_session_state st' = tcp_session_state st" "sessions_ok st' = sessions_ok st"
  by (subst assms [unfolded tables_only_def], simp add: cursor_view_def config_view_def sessions_ok_def)+

definition write_ok :: "ch_write \<Rightarrow> bool" where
  "write_ok w \<longleftrightarrow> (case w of W_backend i b \<Rightarrow> backend_ok b | _ \<Rightarrow> True)"

definition pubs_ok :: "ch_write list list \<Rightarrow> bool" where
  "pubs_ok pubs \<longleftrightarrow> list_all (list_all write_ok) pubs"

lemma pubs_ok_simps [simp]:
  "pubs_ok []" "pubs_ok (ws # pubs) \<longleftrightarrow> list_all write_ok ws \<and> pubs_ok pubs"
  "pubs_ok (pubs @ pubs') \<longleftrightarrow> pubs_ok pubs \<and> pubs_ok pubs'"
  by (simp_all add: pubs_ok_def)

lemma ch_write_call_ok: "write_ok w \<Longrightarrow> maps_ok st \<Longrightarrow> maps_ok (snd (ch_write_call w st))"
  by (cases w) (auto simp: write_ok_def maps_ok_def array_update_def Let_def)

lemma publish_next_ok:
  "publish_next (pubs, st) = (pubs', st') \<Longrightarrow> pubs_ok pubs \<Longrightarrow> maps_ok st \<Longrightarrow> maps_ok st' \<and> pubs_ok pubs'"
  using ch_write_call_ok [of _ st]
  by (cases "(pubs, st)" rule: publish_next.cases) (auto split: prod.splits if_splits, (metis snd_conv)+)

lemma ch_writes_ok: "list_all backend_ok bs \<Longrightarrow> list_all write_ok (ch_writes f bs c p m)"
  by (auto simp: ch_writes_def write_ok_def list_all_iff enumerate_eq_zip dest: set_zip_rightD)

text \<open>What begins a publication changes the manager alone.\<close>

lemma begin_fields:
  "begin_ch_service h service d = (pubs, r, e) \<Longrightarrow> e = d\<lparr>m_chManager := m_chManager e\<rparr>"
  "begin_maintenance d = (pubs, e) \<Longrightarrow> e = d\<lparr>m_chManager := m_chManager e\<rparr>"
  by (auto simp: begin_ch_service_def begin_maintenance_def Let_def split: if_splits option.splits prod.splits)

lemma begin_ch_service_ok:
  assumes "dataplane_ok d" "begin_ch_service h service d = (pubs, r, e)"
  shows "dataplane_ok e" "pubs_ok pubs"
proof -
  have "dataplane_ok (snd (update_ch_service h service d))" by (rule keepsD [OF update_ch_service_keeps assms(1)])
  then have "chs_ok (m_chManager e)" by (simp add: update_ch_service_begin assms(2) publish_all_def dataplane_ok_def)
  moreover have "e = d\<lparr>m_chManager := m_chManager e\<rparr>" by (rule begin_fields(1) [OF assms(2)])
  ultimately show "dataplane_ok e" using assms(1) by (cases d; cases e) (simp add: dataplane_ok_def)
  have "list_all backend_ok (collect_ch_backends h (m_xdpBackends d) (reals service))"
    using assms(1) by (simp add: dataplane_ok_def collect_ch_backends_ok)
  then show "pubs_ok pubs"
    using assms(2) updateBackends_backends
    by (auto simp: begin_ch_service_def updateServiceBackends_eq call_bpf_recorder ch_writes_ok Let_def
        split: if_splits option.splits)
qed

lemma periodicMaintenance_recorder_ok:
  "\<forall>(k, e) \<in> set m. list_all backend_ok (m_backends (se_instance e)) \<Longrightarrow> pubs_ok pubs \<Longrightarrow>
     pubs_ok (snd (periodicMaintenance (recorder d) (m, pubs)))"
proof (induction m arbitrary: pubs)
  case (Cons ke m)
  obtain k e where ke: "ke = (k, e)" by (rule prod.exhaust)
  have "list_all backend_ok (m_backends (snd (tickMergeTimer (se_instance e))))"
    using Cons.prems(1) tick_backends [of "se_instance e"] by (simp add: ke tick_def)
  then show ?case using Cons by (auto simp: ke Let_def split_beta call_bpf_recorder ch_writes_ok)
qed simp

lemma begin_maintenance_ok:
  assumes "dataplane_ok d" "begin_maintenance d = (pubs, e)"
  shows "dataplane_ok e" "pubs_ok pubs"
proof -
  have "dataplane_ok (ChPeriodicMaintenance d)" by (rule maintenance_ok [OF assms(1)])
  then have "chs_ok (m_chManager e)" by (simp add: ChPeriodicMaintenance_begin assms(2) publish_all_def dataplane_ok_def)
  moreover have "e = d\<lparr>m_chManager := m_chManager e\<rparr>" by (rule begin_fields(2) [OF assms(2)])
  ultimately show "dataplane_ok e" using assms(1) by (cases d; cases e) (simp add: dataplane_ok_def)
  show "pubs_ok pubs"
    using assms periodicMaintenance_recorder_ok [of "m_chManager d" "[]" d]
    by (auto simp: begin_maintenance_def dataplane_ok_def chs_ok_def split: prod.splits)
qed

end
