(* ===== verification/Reload_Steps.thy ===== *)
theory Reload_Steps
  imports Ch_Writes
begin

section \<open>A reload among packets\<close>

text \<open>
  \<open>ReloadConfig\<close> is a sequence of system calls, and packets are processed between them. Here it is
  a program with a point for every call: \<open>reload_next\<close> makes the call at a point and gives the
  next one. The loops that empty a map ask for its first key and delete it in two calls. What
  only changes memory is one step, as the kernel sees nothing of it: the preparation, and the update
  of a consistent-hash service up to its publication, which is a call for every number, backend and
  slot. A preparation that blocks in the lookup of a neighbour is at
  \<open>Rl_returned (Some Never_returns)\<close> from then on, a point without a next call at which the reload
  does not come back either (\<open>comes_back\<close>).

  The theory shows that the program alone is \<open>ReloadConfig\<close>, and what holds at every point when
  packets and maintenance come in between.
\<close>

datatype reload_point =
    Rl_prepare
  | Rl_ddos
  | Rl_index
  | Rl_backends u8
  | Rl_services u8
  | Rl_switch u8
  | Rl_rr
  | Rl_wrr
  | Rl_wrr_delete service_key
  | Rl_ch "balancer_service list"
  | Rl_publish "ch_write list list" "balancer_service list"
  | Rl_sessions
  | Rl_session_delete session_state_key
  | Rl_backend_stats nat nat
  | Rl_service_stats "service_key list"
  | Rl_returned "reload_error option"

definition go_on :: "reload_point \<Rightarrow> reload_error option \<times> xdp_dataplane \<Rightarrow> reload_point \<times> xdp_dataplane" where
  "go_on p r = ((case fst r of None \<Rightarrow> p | Some e \<Rightarrow> Rl_returned (Some e)), snd r)"

fun reload_next :: "host \<Rightarrow> base_config \<Rightarrow> reload_point \<times> xdp_dataplane \<Rightarrow> reload_point \<times> xdp_dataplane" where
  "reload_next h config (Rl_prepare, d) =
     (if maps_opened d then go_on Rl_ddos (prepare h config d) else (Rl_returned (Some Invalid_maps), d))"
| "reload_next h config (Rl_ddos, d) = go_on Rl_index (load_ddos config d)"
| "reload_next h config (Rl_index, d) =
     (case read_index d of
        (Inl e, d) \<Rightarrow> (Rl_returned (Some e), d)
      | (Inr index, d) \<Rightarrow> (Rl_backends index, d))"
| "reload_next h config (Rl_backends index, d) = go_on (Rl_services index) (load_backends index d)"
| "reload_next h config (Rl_services index, d) = go_on (Rl_switch index) (load_services index d)"
| "reload_next h config (Rl_switch index, d) = go_on Rl_rr (switch_index h index d)"
| "reload_next h config (Rl_rr, d) = go_on Rl_wrr (reset_rr d)"
| "reload_next h config (Rl_wrr, d) =
     (case hash_first_key (wrr_state_map (kernel d)) of
        None \<Rightarrow> (Rl_ch (services config), d)
      | Some k \<Rightarrow> (Rl_wrr_delete k, d))"
| "reload_next h config (Rl_wrr_delete k, d) =
     (Rl_wrr, in_kernel (\<lambda>st. st\<lparr>wrr_state_map := hash_delete (wrr_state_map st) k\<rparr>) d)"
| "reload_next h config (Rl_ch [], d) = (Rl_sessions, d)"
| "reload_next h config (Rl_ch (service # ss), d) =
     (let (pubs, r) = begin_ch_service h service d in go_on (Rl_publish pubs ss) r)"
| "reload_next h config (Rl_publish [] ss, d) = (Rl_ch ss, d)"
| "reload_next h config (Rl_publish (ws # pubs) ss, d) =
     (let (pubs, st) = publish_next (ws # pubs, kernel d) in (Rl_publish pubs ss, d\<lparr>kernel := st\<rparr>))"
| "reload_next h config (Rl_sessions, d) =
     (case hash_first_key (tcp_session_state (kernel d)) of
        None \<Rightarrow> (Rl_backend_stats 0 (length (m_xdpBackends d)), d)
      | Some k \<Rightarrow> (Rl_session_delete k, d))"
| "reload_next h config (Rl_session_delete k, d) =
     (Rl_sessions, in_kernel (\<lambda>st. st\<lparr>tcp_session_state := hash_delete (tcp_session_state st) k\<rparr>) d)"
| "reload_next h config (Rl_backend_stats idx 0, d) = (Rl_service_stats (m_xdpKeys d), d)"
| "reload_next h config (Rl_backend_stats idx (Suc n), d) =
     go_on (Rl_backend_stats (Suc idx) n) (reset_backend_stats idx 1 d)"
| "reload_next h config (Rl_service_stats [], d) = (Rl_returned None, d)"
| "reload_next h config (Rl_service_stats (key # ks), d) =
     go_on (Rl_service_stats ks) (reset_service_stats [key] d)"
| "reload_next h config (Rl_returned r, d) = (Rl_returned r, d)"

fun returned :: "reload_point \<Rightarrow> bool" where
  "returned (Rl_returned r) = True"
| "returned p = False"

subsection \<open>Alone, it is the function\<close>

text \<open>What the function still does at a point.\<close>

definition remaining_ch :: "host \<Rightarrow> balancer_service list \<Rightarrow> phase" where
  "remaining_ch h ss = and_then (update_ch h ss) (and_then clear_sessions reset_stats)"

fun remaining :: "host \<Rightarrow> base_config \<Rightarrow> reload_point \<Rightarrow> phase" where
  "remaining h config Rl_prepare = ReloadConfig h config"
| "remaining h config Rl_ddos = and_then (load_ddos config) (write_config h config)"
| "remaining h config Rl_index = write_config h config"
| "remaining h config (Rl_backends index) =
     and_then (load_half index) (and_then (switch_index h index) (after_switch h config))"
| "remaining h config (Rl_services index) =
     and_then (load_services index) (and_then (switch_index h index) (after_switch h config))"
| "remaining h config (Rl_switch index) = and_then (switch_index h index) (after_switch h config)"
| "remaining h config Rl_rr = after_switch h config"
| "remaining h config Rl_wrr = and_then reset_wrr (remaining_ch h (services config))"
| "remaining h config (Rl_wrr_delete k) = and_then reset_wrr (remaining_ch h (services config))"
| "remaining h config (Rl_ch ss) = remaining_ch h ss"
| "remaining h config (Rl_publish pubs ss) = (\<lambda>d. remaining_ch h ss (publish_all pubs d))"
| "remaining h config Rl_sessions = and_then clear_sessions reset_stats"
| "remaining h config (Rl_session_delete k) = and_then clear_sessions reset_stats"
| "remaining h config (Rl_backend_stats idx n) =
     and_then (reset_backend_stats idx n) (\<lambda>d. reset_service_stats (m_xdpKeys d) d)"
| "remaining h config (Rl_service_stats ks) = reset_service_stats ks"
| "remaining h config (Rl_returned r) = (\<lambda>d. (r, d))"

lemma and_then_assoc: "and_then (and_then f g) k = and_then f (and_then g k)"
  by (rule ext) (simp add: and_then_def split: prod.split option.split)

lemma remaining_go_on:
  "case_prod (remaining h config) (go_on p (f d)) = and_then f (remaining h config p) d"
  by (cases "f d") (simp add: go_on_def and_then_def split: option.split)

lemma hash_first_key_None: "hash_first_key m = None \<longleftrightarrow> m = []"
  by (simp add: hash_first_key_def split: list.split)

lemma reset_wrr_step:
  "wrr_state_map (kernel d) = [] \<Longrightarrow> reset_wrr d = (None, d)"
  "reset_wrr (in_kernel (\<lambda>st. st\<lparr>wrr_state_map := u st\<rparr>) d) = reset_wrr d"
  by (simp_all add: reset_wrr_def in_kernel_def)

lemma clear_sessions_step:
  "tcp_session_state (kernel d) = [] \<Longrightarrow> clear_sessions d = (None, d)"
  "clear_sessions (in_kernel (\<lambda>st. st\<lparr>tcp_session_state := u st\<rparr>) d) = clear_sessions d"
  by (simp_all add: clear_sessions_def in_kernel_def)

lemma and_then_steps:
  "f d = (None, d') \<Longrightarrow> and_then f g d = g d'"
  "f d = f d' \<Longrightarrow> and_then f g d = and_then f g d'"
  by (simp_all add: and_then_def)

lemma remaining_next: "case_prod (remaining h config) (reload_next h config (p, d)) = remaining h config p d"
proof (induction h config "(p, d)" arbitrary: p d rule: reload_next.induct)
  case 1
  then show ?case by (simp add: remaining_go_on ReloadConfig_def)
next
  case 3
  then show ?case by (simp add: write_config_def split: prod.split sum.split)
next
  case 8
  then show ?case
    by (simp add: hash_first_key_None reset_wrr_step and_then_steps(1) split: option.split)
next
  case 9
  then show ?case by (simp add: and_then_steps(2) [of reset_wrr, OF reset_wrr_step(2)])
next
  case (11 h config service ss d)
  obtain pubs r e where b: "begin_ch_service h service d = (pubs, r, e)" by (rule prod_cases3)
  have "update_ch h (service # ss) = and_then (update_ch_service h service) (update_ch h ss)" by (rule ext) simp
  then show ?case using b begin_failed [of h service d pubs]
    by (auto simp: remaining_ch_def and_then_assoc go_on_def update_ch_service_begin and_then_def split: option.split del: update_ch.simps)
next
  case (13 h config ws pubs ss d)
  then show ?case using run_publications_next [of "(ws # pubs, kernel d)"] by (simp add: publish_all_def split_beta Let_def)
next
  case 14
  then show ?case
    by (simp add: hash_first_key_None clear_sessions_step and_then_steps(1) reset_stats_def split: option.split)
next
  case 15
  then show ?case by (simp add: and_then_steps(2) [of clear_sessions, OF clear_sessions_step(2)])
next
  case (17 h config idx n d)
  then show ?case
    by (simp add: remaining_go_on del: reset_backend_stats.simps(2))
      (auto simp: and_then_def percpu_update_def)
next
  case (19 h config key ks d)
  then show ?case by (simp add: go_on_def percpu_update_def)
qed (simp_all add: remaining_go_on remaining_ch_def after_switch_def load_half_def and_then_assoc,
    simp_all add: and_then_def split: option.split)

text \<open>It always returns: the calls left before a loop, the size of the map it empties, the calls of a publication.\<close>

fun stage :: "reload_point \<Rightarrow> nat" where
  "stage Rl_prepare = 12"
| "stage Rl_ddos = 11"
| "stage Rl_index = 10"
| "stage (Rl_backends index) = 9"
| "stage (Rl_services index) = 8"
| "stage (Rl_switch index) = 7"
| "stage Rl_rr = 6"
| "stage Rl_wrr = 5"
| "stage (Rl_wrr_delete k) = 5"
| "stage (Rl_ch ss) = 4"
| "stage (Rl_publish pubs ss) = 4"
| "stage Rl_sessions = 3"
| "stage (Rl_session_delete k) = 3"
| "stage (Rl_backend_stats idx n) = 2"
| "stage (Rl_service_stats ks) = 1"
| "stage (Rl_returned r) = 0"

fun left_in_stage :: "reload_point \<times> xdp_dataplane \<Rightarrow> nat" where
  "left_in_stage (Rl_wrr, d) = 2 * card (fst ` set (wrr_state_map (kernel d))) + 1"
| "left_in_stage (Rl_wrr_delete k, d) = 2 * card (insert k (fst ` set (wrr_state_map (kernel d))))"
| "left_in_stage (Rl_ch ss, d) = 2 * length ss"
| "left_in_stage (Rl_publish pubs ss, d) = 2 * length ss + 1"
| "left_in_stage (Rl_sessions, d) = 2 * card (fst ` set (tcp_session_state (kernel d))) + 1"
| "left_in_stage (Rl_session_delete k, d) = 2 * card (insert k (fst ` set (tcp_session_state (kernel d))))"
| "left_in_stage (Rl_backend_stats idx n, d) = n"
| "left_in_stage (Rl_service_stats ks, d) = length ks"
| "left_in_stage (p, d) = 0"

lemma hash_delete_keys: "fst ` set (hash_delete m k) = fst ` set m - {k}"
  by (metis delete_keys hash_delete_def list.set_map set_removeAll)

lemma hash_first_key_mem: "hash_first_key m = Some k \<Longrightarrow> insert k (fst ` set m) = fst ` set m"
  by (auto simp: hash_first_key_def split: list.splits)

lemma card_deleted: "Suc (2 * card (fst ` set (hash_delete m k))) < 2 * card (insert k (fst ` set m))"
proof -
  have "insert k (fst ` set m) = insert k (fst ` set (hash_delete m k))" "k \<notin> fst ` set (hash_delete m k)"
    by (auto simp: hash_delete_keys)
  then show ?thesis by (simp add: card_insert_disjoint)
qed

fun left_to_publish :: "reload_point \<Rightarrow> nat" where
  "left_to_publish (Rl_publish pubs ss) = calls_left pubs"
| "left_to_publish p = 0"

lemma reload_next_less:
  assumes "\<not> returned p"
  shows "(reload_next h config (p, d), (p, d)) \<in> measures [\<lambda>(p, d). stage p, left_in_stage, \<lambda>(p, d). left_to_publish p]"
  using assms
proof (induction h config "(p, d)" arbitrary: p d rule: reload_next.induct)
  case 3
  then show ?case by (simp split: prod.split sum.split)
next
  case 8
  then show ?case by (simp add: hash_first_key_mem split: option.split)
next
  case 9
  then show ?case using card_deleted by (simp add: in_kernel_def)
next
  case 11
  then show ?case by (simp add: go_on_def split: prod.split option.split)
next
  case (13 h config ws pubs ss d)
  then show ?case using publish_next_less [of "ws # pubs" "kernel d"] by (simp add: split_beta Let_def)
next
  case 14
  then show ?case by (simp add: hash_first_key_mem split: option.split)
next
  case 15
  then show ?case using card_deleted by (simp add: in_kernel_def)
qed (simp_all add: go_on_def split: option.split)

text \<open>The runs of the program without anything in between.\<close>

inductive runs_alone :: "host \<Rightarrow> base_config \<Rightarrow> reload_point \<times> xdp_dataplane \<Rightarrow> reload_point \<times> xdp_dataplane \<Rightarrow> bool"
  for h config where
  alone_refl: "runs_alone h config s s"
| alone_step: "\<not> returned (fst s) \<Longrightarrow> runs_alone h config (reload_next h config s) t \<Longrightarrow> runs_alone h config s t"

lemma runs_alone_remaining:
  "runs_alone h config s t \<Longrightarrow> case_prod (remaining h config) t = case_prod (remaining h config) s"
proof (induction rule: runs_alone.induct)
  case (alone_step s t)
  then show ?case using remaining_next [of h config "fst s" "snd s"] by (cases s) simp
qed simp

lemma runs_alone_returns: "\<exists>r e. runs_alone h config s (Rl_returned r, e)"
proof (induction s rule: wf_induct [OF wf_measures [of "[\<lambda>(p, d). stage p, left_in_stage, \<lambda>(p, d). left_to_publish p]"]])
  case (1 s)
  obtain p d where s: "s = (p, d)" by (rule prod.exhaust)
  show ?case
  proof (cases "returned p")
    case True
    then show ?thesis using s alone_refl [of h config] by (cases p) auto
  next
    case False
    then show ?thesis using 1 reload_next_less [OF False, of h config d] alone_step [of s h config] s
      by (metis fst_conv)
  qed
qed

lemma runs_alone_exact: "runs_alone h config (p, d) (Rl_returned r, e) \<longleftrightarrow> remaining h config p d = (r, e)"
proof
  assume "runs_alone h config (p, d) (Rl_returned r, e)"
  from runs_alone_remaining [OF this] show "remaining h config p d = (r, e)" by simp
next
  assume r: "remaining h config p d = (r, e)"
  obtain r' e' where run: "runs_alone h config (p, d) (Rl_returned r', e')" using runs_alone_returns by blast
  from runs_alone_remaining [OF run] r run show "runs_alone h config (p, d) (Rl_returned r, e)" by simp
qed

end
