(* ===== verification/Reload_Interleaving.thy ===== *)
theory Reload_Interleaving
  imports Reload_Steps
begin

section \<open>What holds at every point of a reload\<close>

text \<open>
  A step is a call of the reload, a packet, the start of a second of maintenance or a call of the
  publications that it makes. Until the call that switches the index the packets see the old
  configuration as it was, from then on the new one as a whole; and every step keeps the invariant
  of the data plane.

  Besides the reload there are the publications that the maintenance thread has still to make,
  under the lock of the consistent-hash manager: the reload has to wait with its own services
  until there are none, the maintenance thread until the reload has published its service.
\<close>

type_synonym pending = "ch_write list list"

fun takes_lock :: "reload_point \<Rightarrow> bool" where
  "takes_lock (Rl_ch (service # ss)) = (srv_type service = CH)"
| "takes_lock p = False"

fun holds_lock :: "reload_point \<Rightarrow> bool" where
  "holds_lock (Rl_publish pubs ss) = (pubs \<noteq> [])"
| "holds_lock p = False"

inductive interleaved ::
    "host \<Rightarrow> base_config \<Rightarrow> (reload_point \<times> xdp_dataplane) \<times> pending \<Rightarrow> (reload_point \<times> xdp_dataplane) \<times> pending \<Rightarrow> bool"
  for h config where
  il_reload: "\<not> returned p \<Longrightarrow> \<not> takes_lock p \<or> ws = [] \<Longrightarrow> reload_next h config (p, d) = s \<Longrightarrow>
     interleaved h config ((p, d), ws) (s, ws)"
| il_packet: "xdp_step (kernel d) st \<Longrightarrow> interleaved h config ((p, d), ws) ((p, d\<lparr>kernel := st\<rparr>), ws)"
| il_maintain: "\<not> holds_lock p \<Longrightarrow> begin_maintenance d = (ws, e) \<Longrightarrow> interleaved h config ((p, d), []) ((p, e), ws)"
| il_publish: "ws \<noteq> [] \<Longrightarrow> publish_next (ws, kernel d) = (ws', st) \<Longrightarrow>
     interleaved h config ((p, d), ws) ((p, d\<lparr>kernel := st\<rparr>), ws')"

inductive_cases interleavedE: "interleaved h config s t"

inductive among_packets ::
    "host \<Rightarrow> base_config \<Rightarrow> xdp_dataplane \<Rightarrow> (reload_point \<times> xdp_dataplane) \<times> pending \<Rightarrow> bool"
  for h config d where
  am_start: "pubs_ok ws \<Longrightarrow> among_packets h config d ((Rl_prepare, d), ws)"
| am_step: "among_packets h config d s \<Longrightarrow> interleaved h config s t \<Longrightarrow> among_packets h config d t"

lemma among_packets_alone:
  "runs_alone h config s t \<Longrightarrow> among_packets h config d (s, []) \<Longrightarrow> among_packets h config d (t, [])"
proof (induction rule: runs_alone.induct)
  case (alone_step s t)
  have "interleaved h config (s, []) (reload_next h config s, [])"
    using il_reload [OF alone_step.hyps(1) _ refl, of "[]" h config "snd s"] by simp
  then show ?case using alone_step am_step by blast
qed simp

subsection \<open>The invariant of the data plane\<close>

lemma go_on_ok: "dataplane_ok (snd r) \<Longrightarrow> dataplane_ok (snd (go_on p r))"
  by (simp add: go_on_def)

lemma hash_delete_ok: "hash_ok n m \<Longrightarrow> hash_ok n (hash_delete m k)"
  using length_delete_le [of k m] by (auto simp: hash_ok_def hash_delete_def distinct_delete)

lemma dataplane_ok_delete:
  "dataplane_ok d \<Longrightarrow> dataplane_ok (in_kernel (\<lambda>st. st\<lparr>wrr_state_map := hash_delete (wrr_state_map st) k\<rparr>) d)"
  "dataplane_ok d \<Longrightarrow> dataplane_ok (in_kernel (\<lambda>st. st\<lparr>tcp_session_state := hash_delete (tcp_session_state st) j\<rparr>) d)"
  by (auto simp: dataplane_ok_def in_kernel_def maps_ok_def sessions_ok_def hash_delete_ok map_simps)

lemmas phase_keeps = load_ddos_keeps load_backends_keeps load_services_keeps switch_index_keeps
  reset_rr_keeps reset_backend_stats_keeps reset_service_stats_keeps

text \<open>What is still to be published are well-formed backends.\<close>

fun point_ok :: "reload_point \<Rightarrow> bool" where
  "point_ok (Rl_publish pubs ss) = pubs_ok pubs"
| "point_ok p = True"

lemma go_on_point: "point_ok p \<Longrightarrow> point_ok (fst (go_on p r))"
  by (simp add: go_on_def split: option.split)

lemma publish_ok:
  assumes "publish_next (pubs, kernel d) = (pubs', st)" "dataplane_ok d" "pubs_ok pubs"
  shows "dataplane_ok (d\<lparr>kernel := st\<rparr>) \<and> pubs_ok pubs'"
  using publish_next_ok [OF assms(1,3)] tables_only_view(5) [OF publish_next_frame [OF assms(1)]] assms(2)
  by (simp add: dataplane_ok_def)

lemma reload_next_ok: "host_ok h \<Longrightarrow> dataplane_ok d \<Longrightarrow> point_ok p \<Longrightarrow> dataplane_ok (snd (reload_next h config (p, d)))"
proof (induction h config "(p, d)" arbitrary: p d rule: reload_next.induct)
  case (1 h config d)
  then show ?case using keepsD [OF prepare_keeps] by (simp add: go_on_ok)
next
  case (3 h config d)
  then show ?case using read_index_ok [of d] by (auto split: prod.split sum.split)
next
  case (11 h config service ss d)
  then show ?case using begin_ch_service_ok(1) [OF 11(2)] by (auto simp: go_on_def split: prod.split)
next
  case (13 h config ws pubs ss d)
  then show ?case using publish_ok [of "ws # pubs" d] by (simp split: prod.split)
qed (auto simp: dataplane_ok_delete intro: go_on_ok keepsD [OF phase_keeps(1)] keepsD [OF phase_keeps(2)]
    keepsD [OF phase_keeps(3)] keepsD [OF phase_keeps(4)] keepsD [OF phase_keeps(5)]
    keepsD [OF phase_keeps(6)] keepsD [OF phase_keeps(7)]
    split: option.split simp del: reset_backend_stats.simps reset_service_stats.simps)

lemma reload_next_point:
  "dataplane_ok d \<Longrightarrow> point_ok p \<Longrightarrow> point_ok (fst (reload_next h config (p, d)))"
proof (induction h config "(p, d)" arbitrary: p d rule: reload_next.induct)
  case (11 h config service ss d)
  then show ?case using begin_ch_service_ok(2) [OF 11(1)] by (auto intro: go_on_point split: prod.split)
next
  case (13 h config ws pubs ss d)
  then show ?case using publish_ok [of "ws # pubs" d] by (simp split: prod.split)
qed (auto intro: go_on_point split: option.split sum.split prod.split simp del: reset_backend_stats.simps reset_service_stats.simps)

definition state_ok :: "(reload_point \<times> xdp_dataplane) \<times> pending \<Rightarrow> bool" where
  "state_ok s \<longleftrightarrow> dataplane_ok (snd (fst s)) \<and> point_ok (fst (fst s)) \<and> pubs_ok (snd s)"

lemma interleaved_ok: "interleaved h config s t \<Longrightarrow> host_ok h \<Longrightarrow> state_ok s \<Longrightarrow> state_ok t"
proof (induction rule: interleaved.induct)
  case (il_packet d st p ws)
  then show ?case using xdp_step_invariant(1,2) [OF il_packet.hyps] dataplane_ok_kernel [of d st]
    by (simp add: state_ok_def dataplane_ok_def)
next
  case (il_reload p ws d s)
  then show ?case using reload_next_ok [of h d p config] reload_next_point [of d p h config] by (auto simp: state_ok_def)
next
  case (il_maintain p d ws e)
  then show ?case using begin_maintenance_ok [of d ws e] by (simp add: state_ok_def)
next
  case (il_publish ws d ws' st p)
  then show ?case using publish_ok [of ws d ws' st] by (simp add: state_ok_def)
qed

lemma among_packets_state: "among_packets h config d s \<Longrightarrow> host_ok h \<Longrightarrow> dataplane_ok d \<Longrightarrow> state_ok s"
  by (induction rule: among_packets.induct) (simp_all add: interleaved_ok, simp add: state_ok_def)

lemma among_packets_ok: "among_packets h config d ((p, e), ws) \<Longrightarrow> host_ok h \<Longrightarrow> dataplane_ok d \<Longrightarrow> dataplane_ok e"
  using among_packets_state by (fastforce simp: state_ok_def)

text \<open>Never two publications at a time.\<close>

lemma interleaved_lock:
  "interleaved h config s t \<Longrightarrow> snd s = [] \<or> \<not> holds_lock (fst (fst s)) \<Longrightarrow> snd t = [] \<or> \<not> holds_lock (fst (fst t))"
proof (induction rule: interleaved.induct)
  case (il_reload p ws d s)
  then have "\<not> holds_lock (fst (reload_next h config (p, d)))" if "ws \<noteq> []"
    using that by (cases "(h, config, (p, d))" rule: reload_next.cases)
      (auto simp: go_on_def begin_ch_service_def split: if_splits option.splits sum.splits prod.splits
        simp del: reset_backend_stats.simps reset_service_stats.simps)
  then show ?case using il_reload.hyps(3) by auto
qed auto

lemma among_packets_lock: "among_packets h config d s \<Longrightarrow> snd s = [] \<or> \<not> holds_lock (fst (fst s))"
proof (induction rule: among_packets.induct)
  case (am_step s t)
  then show ?case using interleaved_lock by blast
qed simp

subsection \<open>The old configuration or the new one\<close>

text \<open>What the index selects: the half that packets see.\<close>

definition active_config :: "xdp_maps \<Rightarrow> _" where
  "active_config st = (services_map st (atomic_index st 0), backends_map st (atomic_index st 0))"

definition index_ok :: "xdp_dataplane \<Rightarrow> bool" where
  "index_ok d \<longleftrightarrow>
     standby d = 0 \<and> atomic_index (kernel d) 0 = 0 \<or> standby d = 1 \<and> atomic_index (kernel d) 0 = 1"

fun before_switch :: "reload_point \<Rightarrow> bool" where
  "before_switch Rl_prepare = True"
| "before_switch Rl_ddos = True"
| "before_switch Rl_index = True"
| "before_switch (Rl_backends index) = True"
| "before_switch (Rl_services index) = True"
| "before_switch (Rl_switch index) = True"
| "before_switch p = False"

text \<open>The index as the reload knows it at a point: read, or what it is going to read.\<close>

fun index_at :: "reload_point \<Rightarrow> xdp_dataplane \<Rightarrow> u8" where
  "index_at (Rl_backends index) d = index"
| "index_at (Rl_services index) d = index"
| "index_at (Rl_switch index) d = index"
| "index_at p d = standby d"

text \<open>The state the switch depends on, which packets and maintenance leave alone.\<close>

definition switch_view :: "xdp_dataplane \<Rightarrow> _" where
  "switch_view d = (config_view (kernel d), maps_opened d, m_isFirstRun d, m_xdpBackends d, m_xdpKeys d, m_xdpServices d)"

lemma switch_view_fields:
  assumes "switch_view d = switch_view e"
  shows "config_view (kernel d) = config_view (kernel e)" "maps_opened d = maps_opened e"
    "m_xdpBackends d = m_xdpBackends e" "m_xdpKeys d = m_xdpKeys e" "m_xdpServices d = m_xdpServices e"
    "standby d = standby e" "active_config (kernel d) = active_config (kernel e)"
    "services_map (kernel d) = services_map (kernel e)" "backends_map (kernel d) = backends_map (kernel e)"
    "atomic_index (kernel d) = atomic_index (kernel e)"
  using assms config_view_fields [of "kernel d" "kernel e"]
  by (simp_all add: switch_view_def standby_def active_config_def)

lemma load_ddos_view: "fst (load_ddos config d) = None" "switch_view (snd (load_ddos config d)) = switch_view d"
proof -
  obtain c where "load_ddos config d = (None, in_kernel (\<lambda>st. st\<lparr>ddos_cfg := c\<rparr>) d)"
    using load_ddos_total by blast
  then show "fst (load_ddos config d) = None" "switch_view (snd (load_ddos config d)) = switch_view d"
    by (simp_all add: switch_view_def in_kernel_def config_view_def)
qed

lemma index_at_view: "switch_view d = switch_view e \<Longrightarrow> index_at p d = index_at p e"
  by (cases p) (auto dest: switch_view_fields(6))

lemma interleaved_view:
  assumes "interleaved h config ((p, d), ws) (t, ws')" "dataplane_ok d"
  obtains "\<not> returned p" "t = reload_next h config (p, d)" | e where "t = (p, e)" "switch_view e = switch_view d"
  using assms(1)
proof (rule interleavedE)
  fix p' d' st ws1
  assume *: "((p, d), ws) = ((p', d'), ws1)" "(t, ws') = ((p', d'\<lparr>kernel := st\<rparr>), ws1)" "xdp_step (kernel d') st"
  then have "config_view st = config_view (kernel d)"
    using xdp_frame_view [OF xdp_step_invariant(3)] assms(2) by (simp add: dataplane_ok_def)
  then show thesis using that(2) * by (simp add: switch_view_def)
next
  fix p' d' ws1 e
  assume *: "((p, d), ws) = ((p', d'), [])" "(t, ws') = ((p', e), ws1)" "begin_maintenance d' = (ws1, e)"
  have "switch_view e = switch_view d'" by (subst begin_fields(2) [OF *(3)]) (simp add: switch_view_def)
  then show thesis using that(2) * by simp
next
  fix p' d' ws1 ws2 st
  assume *: "((p, d), ws) = ((p', d'), ws1)" "(t, ws') = ((p', d'\<lparr>kernel := st\<rparr>), ws2)" "publish_next (ws1, kernel d') = (ws2, st)"
  have "switch_view (d'\<lparr>kernel := st\<rparr>) = switch_view d'"
    using tables_only_view(2) [OF publish_next_frame [OF *(3)]] by (simp add: switch_view_def)
  then show thesis using that(2) * by simp
qed (use that(1) in auto)

lemma go_on_cases:
  obtains "fst r = None" "go_on p r = (p, snd r)" | e where "fst r = Some e" "go_on p r = (Rl_returned (Some e), snd r)"
  by (cases "fst r") (simp_all add: go_on_def)

text \<open>After the switch no call touches the configuration any more.\<close>

lemma go_on_after:
  "leaves_config f \<Longrightarrow> \<not> before_switch p \<Longrightarrow>
     \<not> before_switch (fst (go_on p (f d))) \<and> config_view (kernel (snd (go_on p (f d)))) = config_view (kernel d)"
  by (simp add: go_on_def leavesD split: option.split)

lemma reset_rr_leaves: "leaves_config reset_rr"
  by (auto simp: leaves_config_def reset_rr_def in_kernel_def config_view_def split_beta Let_def)

lemma reset_entry_leaves: "leaves_config (reset_backend_stats idx 1)" "leaves_config (reset_service_stats [key])"
  by (auto simp: leaves_config_def in_kernel_def config_view_def split: prod.split bool.split)

lemma reload_next_after:
  "\<not> before_switch p \<Longrightarrow>
     \<not> before_switch (fst (reload_next h config (p, d)))
     \<and> config_view (kernel (snd (reload_next h config (p, d)))) = config_view (kernel d)"
proof (induction h config "(p, d)" arbitrary: p d rule: reload_next.induct)
  case (7 h config d)
  then show ?case using go_on_after [OF reset_rr_leaves] by simp
next
  case (11 h config service ss d)
  obtain pubs r e where b: "begin_ch_service h service d = (pubs, r, e)" by (rule prod_cases3)
  have "kernel e = kernel d" by (subst begin_fields(1) [OF b]) simp
  then show ?case by (simp add: b go_on_def split: option.split)
next
  case (13 h config ws pubs ss d)
  then show ?case using tables_only_view(2) [OF publish_next_frame, of "ws # pubs" "kernel d"] by (simp split: prod.split)
next
  case (17 h config idx n d)
  then show ?case using go_on_after [OF reset_entry_leaves(1), of "Rl_backend_stats (Suc idx) n"] by (simp del: reset_backend_stats.simps)
next
  case (19 h config key ks d)
  then show ?case using go_on_after [OF reset_entry_leaves(2), of "Rl_service_stats ks"] by (simp del: reset_service_stats.simps)
qed (simp_all add: in_kernel_def config_view_def split: option.split)

subsection \<open>As long as the index is the old one\<close>

text \<open>For any configuration, one that cannot be loaded included.\<close>

definition keeps_old :: "xdp_dataplane \<Rightarrow> reload_point \<times> xdp_dataplane \<Rightarrow> bool" where
  "keeps_old d0 s \<longleftrightarrow>
     (before_switch (fst s) \<longrightarrow>
        atomic_index (kernel (snd s)) 0 = atomic_index (kernel d0) 0 \<and> index_at (fst s) (snd s) = standby d0)
     \<and> (atomic_index (kernel (snd s)) 0 = atomic_index (kernel d0) 0 \<longrightarrow>
        active_config (kernel (snd s)) = active_config (kernel d0))"

lemma load_backends_half: "\<exists>m. snd (load_backends i d) = in_kernel (half_backends i m) d"
  by (cases "i = 0") (auto simp: load_backends_def half_backends_def in_kernel_def Let_def split_beta)

lemma load_services_half: "\<exists>m. snd (load_services i d) = in_kernel (half_services i m) d"
  by (cases "i = 0") (auto simp: load_services_def half_services_def in_kernel_def Let_def split_beta)

lemma active_config_half:
  "index_ok d0 \<Longrightarrow> i = standby d0 \<Longrightarrow> atomic_index st 0 = atomic_index (kernel d0) 0 \<Longrightarrow>
     active_config (half_backends i m st) = active_config st \<and> active_config (half_services i n st) = active_config st"
  by (auto simp: active_config_def index_ok_def half_kept)

lemma keeps_old_go_on:
  assumes "atomic_index (kernel (snd r)) 0 = atomic_index (kernel d0) 0"
    "active_config (kernel (snd r)) = active_config (kernel d0)" "index_at p (snd r) = standby d0"
  shows "keeps_old d0 (go_on p r)"
  using assms by (simp add: keeps_old_def go_on_def split: option.split)

lemma switch_changes_index: "index_ok d0 \<Longrightarrow> other_half (standby d0) \<noteq> atomic_index (kernel d0) 0"
  by (auto simp: index_ok_def other_half_def)

lemma keeps_old_next:
  assumes idx: "index_ok d0" and rest: "rest_of_index h = 0" and old: "keeps_old d0 (p, d)"
  shows "keeps_old d0 (reload_next h config (p, d))"
proof (cases "before_switch p")
  case True
  then have at: "atomic_index (kernel d) 0 = atomic_index (kernel d0) 0" "index_at p d = standby d0"
      "active_config (kernel d) = active_config (kernel d0)"
    using old by (simp_all add: keeps_old_def)
  have standby: "standby d0 = 0 \<or> standby d0 = 1" using idx by (auto simp: index_ok_def)
  show ?thesis
  proof (cases p)
    case Rl_prepare
    have "standby (snd (prepare h config d)) = standby d" by (simp add: standby_def prepare_kernel)
    then have "keeps_old d0 (go_on Rl_ddos (prepare h config d))"
      using Rl_prepare at by (intro keeps_old_go_on) (simp_all add: prepare_kernel)
    then show ?thesis using Rl_prepare at by (simp add: keeps_old_def)
  next
    case Rl_ddos
    then show ?thesis using at by (simp add: keeps_old_go_on switch_view_fields [OF load_ddos_view(2)])
  next
    case Rl_index
    then show ?thesis using at by (simp add: read_index_standby keeps_old_def)
  next
    case (Rl_backends i)
    obtain m where "snd (load_backends i d) = in_kernel (half_backends i m) d" using load_backends_half by blast
    then show ?thesis using Rl_backends at active_config_half [OF idx, of i "kernel d"]
      by (simp add: keeps_old_go_on in_kernel_def)
  next
    case (Rl_services i)
    obtain m where "snd (load_services i d) = in_kernel (half_services i m) d" using load_services_half by blast
    then show ?thesis using Rl_services at active_config_half [OF idx, of i "kernel d"]
      by (simp add: keeps_old_go_on in_kernel_def)
  next
    case (Rl_switch i)
    then have "i = standby d0" using at by simp
    then show ?thesis using Rl_switch switch_changes_index [OF idx] standby
      by (simp add: switch_index_half [OF _ rest] go_on_def keeps_old_def in_kernel_def)
  qed (use True in auto)
next
  case False
  from reload_next_after [OF this, of h config d] show ?thesis
    using old False config_view_fields [of "kernel (snd (reload_next h config (p, d)))" "kernel d"]
    by (simp add: keeps_old_def active_config_def)
qed

lemma keeps_old_reached:
  assumes "among_packets h config d0 s" "host_ok h" "rest_of_index h = 0" "dataplane_ok d0" "index_ok d0"
  shows "keeps_old d0 (fst s)"
  using assms(1)
proof (induction rule: among_packets.induct)
  case am_start
  then show ?case by (simp add: keeps_old_def)
next
  case (am_step s t)
  obtain p d ws where s: "s = ((p, d), ws)" by (metis prod.exhaust)
  obtain t' ws' where t: "t = (t', ws')" by (rule prod.exhaust)
  have ok: "dataplane_ok d" by (rule among_packets_ok [OF am_step.hyps(1) [unfolded s] assms(2,4)])
  from am_step.hyps(2) [unfolded s t] ok show ?case
  proof (cases rule: interleaved_view)
    case 1
    then show ?thesis using keeps_old_next [OF assms(5,3)] am_step.IH by (simp add: s t)
  next
    case (2 e)
    then show ?thesis using am_step.IH index_at_view [OF 2(2), of p] switch_view_fields(7,10) [OF 2(2)]
      by (simp add: keeps_old_def s t)
  qed
qed

end
