(* ===== verification/Reload_Progress.thy ===== *)
theory Reload_Progress
  imports Reload_Interleaving
begin

section \<open>A reload that fits, among packets\<close>

text \<open>
  For a configuration that resolves and has room, the calls up to the switch succeed and prepare
  the half that is not in use; from the switch on the packets meet the whole configuration, and
  once the weighted cursors are gone none of them points outside its service.
\<close>

definition prepared :: "host \<Rightarrow> base_config \<Rightarrow> xdp_dataplane \<Rightarrow> bool" where
  "prepared h config d \<longleftrightarrow>
     m_xdpBackends d = config_backends h (services config) \<and> m_xdpKeys d = map (the_key h) (services config)
     \<and> m_xdpServices d = config_infos (services config) 0 0"

fun progress :: "host \<Rightarrow> base_config \<Rightarrow> xdp_dataplane \<Rightarrow> reload_point \<times> xdp_dataplane \<Rightarrow> bool" where
  "progress h config d0 (Rl_prepare, d) \<longleftrightarrow>
     maps_opened d \<and> services_map (kernel d) (other_half (standby d0)) = standby_services d0"
| "progress h config d0 (Rl_ddos, d) \<longleftrightarrow>
     prepared h config d \<and> services_map (kernel d) (other_half (standby d0)) = standby_services d0"
| "progress h config d0 (Rl_index, d) \<longleftrightarrow>
     prepared h config d \<and> services_map (kernel d) (other_half (standby d0)) = standby_services d0"
| "progress h config d0 (Rl_backends i, d) \<longleftrightarrow>
     prepared h config d \<and> services_map (kernel d) (other_half (standby d0)) = standby_services d0"
| "progress h config d0 (Rl_services i, d) \<longleftrightarrow>
     prepared h config d \<and> services_map (kernel d) (other_half (standby d0)) = standby_services d0
     \<and> loaded_backends h (services config) (backends_map (kernel d) (other_half (standby d0)))"
| "progress h config d0 (Rl_switch i, d) \<longleftrightarrow>
     loaded_services h (services config) (standby_services d0) (services_map (kernel d) (other_half (standby d0)))
     \<and> loaded_backends h (services config) (backends_map (kernel d) (other_half (standby d0)))"
| "progress h config d0 (p, d) \<longleftrightarrow>
     atomic_index (kernel d) 0 = other_half (standby d0)
     \<and> serves h (services config) (kernel d)
     \<and> elsewhere h (services config) (standby_services d0) (kernel d)"

lemma progress_after:
  "\<not> before_switch p \<Longrightarrow> progress h config d0 (p, d) \<longleftrightarrow>
     atomic_index (kernel d) 0 = other_half (standby d0)
     \<and> serves h (services config) (kernel d)
     \<and> elsewhere h (services config) (standby_services d0) (kernel d)"
  by (cases p) simp_all

lemma progress_view:
  assumes "switch_view e = switch_view d"
  shows "progress h config d0 (p, e) = progress h config d0 (p, d)"
  by (cases p) (simp_all add: prepared_def serves_def elsewhere_def switch_view_fields [OF assms])

lemma fits_room:
  assumes "fits h config d"
  shows "\<forall>s \<in> set (services config). resolves h s" "distinct (map (the_key h) (services config))"
    "length (standby_services d) + length (services config) \<le> MAX_SERVICES"
    "length (config_backends h (services config)) \<le> MAX_BACKENDS"
  using assms by (simp_all add: fits_def)

text \<open>One call before the switch, with the point it leads to.\<close>

lemma progress_before:
  assumes fits: "fits h config d0" and rest: "rest_of_index h = 0" and idx: "index_ok d0"
    and ok: "dataplane_ok d" and old: "keeps_old d0 (p, d)" and p: "before_switch p"
    and inv: "progress h config d0 (p, d)"
  shows "progress h config d0 (reload_next h config (p, d))
    \<and> (before_switch (fst (reload_next h config (p, d))) \<or> fst (reload_next h config (p, d)) = Rl_rr)"
proof -
  have at: "index_at p d = standby d0" using old p by (simp add: keeps_old_def)
  have standby: "standby d0 = 0 \<or> standby d0 = 1" using idx by (auto simp: index_ok_def)
  have hash: "hash_ok MAX_SERVICES (services_map (kernel d) i)" for i
    using ok by (simp add: dataplane_ok_def maps_ok_def services_map_def)
  note room = fits_room [OF fits]
  show ?thesis
  proof (cases p)
    case Rl_prepare
    then show ?thesis using inv prepare_resolved [OF room(1)] by (simp add: go_on_def prepared_def)
  next
    case Rl_ddos
    then show ?thesis using inv load_ddos_view [of config d]
      by (simp add: go_on_def prepared_def switch_view_fields [OF load_ddos_view(2)])
  next
    case Rl_index
    then show ?thesis using inv by (simp add: read_index_standby prepared_def)
  next
    case (Rl_backends i)
    then have i: "i = standby d0" using at by simp
    obtain m where "load_backends i d = (None, in_kernel (half_backends i m) d)" "loaded_backends h (services config) m"
      by (rule load_backends_fits [of d h "services config" i])
        (use inv Rl_backends room(4) in \<open>simp_all add: prepared_def\<close>)
    then show ?thesis using Rl_backends inv i by (simp add: go_on_def prepared_def in_kernel_def)
  next
    case (Rl_services i)
    then have i: "i = standby d0" using at by simp
    then have old_half: "services_map (kernel d) (other_half i) = standby_services d0" using Rl_services inv by simp
    obtain m where "load_services i d = (None, in_kernel (half_services i m) d)"
        "loaded_services h (services config) (standby_services d0) m"
      by (rule load_services_fits [where d = d and i = i and h = h and ss = "services config", OF hash, unfolded old_half])
        (use inv Rl_services room in \<open>simp_all add: prepared_def\<close>)
    then show ?thesis using Rl_services inv i by (simp add: go_on_def in_kernel_def)
  next
    case (Rl_switch i)
    then have i: "i = standby d0" using at by simp
    have "serves h (services config) (half_switched i (kernel d))
        \<and> elsewhere h (services config) (standby_services d0) (half_switched i (kernel d))"
      unfolding serves_loaded using inv Rl_switch i by simp
    then show ?thesis
      using Rl_switch i standby by (simp add: switch_index_half [OF _ rest] go_on_def in_kernel_def)
  qed (use p in auto)
qed

lemma progress_next:
  assumes "fits h config d0" "rest_of_index h = 0" "index_ok d0" "dataplane_ok d" "keeps_old d0 (p, d)"
    and inv: "progress h config d0 (p, d)"
  shows "progress h config d0 (reload_next h config (p, d))"
proof (cases "before_switch p")
  case True
  then show ?thesis using progress_before [OF assms(1-5) _ inv] by simp
next
  case False
  obtain q e where next_point: "reload_next h config (p, d) = (q, e)" by (rule prod.exhaust)
  have after: "\<not> before_switch q" "config_view (kernel e) = config_view (kernel d)"
    using reload_next_after [OF False, of h config d] next_point by simp_all
  then show ?thesis
    using inv by (auto simp: next_point progress_after [OF False] progress_after [OF after(1)] serves_def elsewhere_def
        config_view_fields [OF after(2)])
qed

lemma progress_reached:
  assumes "among_packets h config d0 s" "host_ok h" "rest_of_index h = 0" "dataplane_ok d0" "index_ok d0"
    and "maps_opened d0" "fits h config d0"
  shows "progress h config d0 (fst s)"
  using assms(1)
proof (induction rule: among_packets.induct)
  case am_start
  then show ?case using assms(6) by (simp add: standby_services_half)
next
  case (am_step s t)
  obtain p d ws where s: "s = ((p, d), ws)" by (metis prod.exhaust)
  obtain t' ws' where t: "t = (t', ws')" by (rule prod.exhaust)
  have ok: "dataplane_ok d" by (rule among_packets_ok [OF am_step.hyps(1) [unfolded s] assms(2,4)])
  have old: "keeps_old d0 (p, d)" using keeps_old_reached [OF am_step.hyps(1) assms(2-5)] by (simp add: s)
  from am_step.hyps(2) [unfolded s t] ok show ?case
  proof (cases rule: interleaved_view)
    case 1
    then show ?thesis using progress_next [OF assms(7,3,5) ok old] am_step.IH by (simp add: s t)
  next
    case (2 e)
    then show ?thesis using am_step.IH progress_view [OF 2(2)] by (simp add: s t)
  qed
qed

end
