(* ===== verification/Reload_Window.thy ===== *)
theory Reload_Window
  imports Reload_Progress
begin

section \<open>Flows during a reload\<close>

text \<open>
  When new flows get servers of their service, what becomes of the flows that exist when the index
  switches, and how long the loop that forgets them can take.
\<close>

subsection \<open>Weighted cursors\<close>

fun cursors_cleared :: "reload_point \<Rightarrow> bool" where
  "cursors_cleared (Rl_ch ss) = True"
| "cursors_cleared (Rl_publish pubs ss) = True"
| "cursors_cleared Rl_sessions = True"
| "cursors_cleared (Rl_session_delete k) = True"
| "cursors_cleared (Rl_backend_stats idx n) = True"
| "cursors_cleared (Rl_service_stats ks) = True"
| "cursors_cleared (Rl_returned r) = (r \<noteq> Some Rr_update_failed)"
| "cursors_cleared p = False"

lemma cursors_ok_empty: "wrr_state_map st = [] \<Longrightarrow> cursors_ok st"
  by (simp add: cursors_ok_def wrr_cursor_ok_def hash_lookup_def)

lemma reset_entry_wrr: "leaves_wrr (reset_backend_stats idx 1)" "leaves_wrr (reset_service_stats [key])"
  by (auto simp: leaves_wrr_def in_kernel_def split: prod.split bool.split)

lemma leaves_cursor_view:
  "leaves_config f \<Longrightarrow> leaves_wrr f \<Longrightarrow> cursor_view (kernel (snd (f d))) = cursor_view (kernel d)"
  by (simp add: cursor_view_def leaves_config_def leaves_wrr_def)

lemma go_on_snd [simp]: "snd (go_on p r) = snd r"
  by (simp add: go_on_def)

lemma cleared_next:
  "cursors_cleared p \<Longrightarrow> cursor_view (kernel (snd (reload_next h config (p, d)))) = cursor_view (kernel d)"
proof (induction h config "(p, d)" arbitrary: p d rule: reload_next.induct)
  case (11 h config service ss d)
  obtain pubs r e where b: "begin_ch_service h service d = (pubs, r, e)" by (rule prod_cases3)
  show ?case by (simp add: b, subst begin_fields(1) [OF b]) simp
next
  case (13 h config ws pubs ss d)
  then show ?case using tables_only_view(1) [OF publish_next_frame, of "ws # pubs" "kernel d"] by (simp split: prod.split)
next
  case (17 h config idx n d)
  then show ?case using leaves_cursor_view [OF reset_entry_leaves(1) reset_entry_wrr(1)] by (simp del: reset_backend_stats.simps)
next
  case (19 h config key ks d)
  then show ?case using leaves_cursor_view [OF reset_entry_leaves(2) reset_entry_wrr(2)] by (simp del: reset_service_stats.simps)
qed (simp_all add: in_kernel_def cursor_view_def config_view_def split: option.split)

lemma cursors_next:
  assumes "before_switch p \<Longrightarrow> before_switch (fst (reload_next h config (p, d))) \<or> fst (reload_next h config (p, d)) = Rl_rr"
    and "cursors_cleared p \<Longrightarrow> cursors_ok (kernel d)" "cursors_cleared (fst (reload_next h config (p, d)))"
  shows "cursors_ok (kernel (snd (reload_next h config (p, d))))"
proof (cases "cursors_cleared p")
  case True
  then show ?thesis using cursors_ok_view [OF cleared_next [OF True, of h config d]] assms(2) by simp
next
  case False
  show ?thesis
  proof (cases "before_switch p")
    case True
    have "\<not> cursors_cleared q" if "before_switch q \<or> q = Rl_rr" for q using that by (cases q) simp_all
    then show ?thesis using assms(1) [OF True] assms(3) by blast
  next
    case later: False
    show ?thesis
    proof (cases p)
      case Rl_rr
      then show ?thesis using assms(3) by (auto simp: go_on_def reset_rr_def split_beta Let_def split: if_splits)
    next
      case Rl_wrr
      then show ?thesis using assms(3) cursors_ok_empty [of "kernel d"] hash_first_key_None [of "wrr_state_map (kernel d)"]
        by (simp split: option.splits)
    qed (use assms(3) False later in simp_all)
  qed
qed

lemma cursors_reached:
  assumes "among_packets h config d0 s" "host_ok h" "rest_of_index h = 0" "dataplane_ok d0" "index_ok d0"
    and "maps_opened d0" "fits h config d0"
  shows "cursors_cleared (fst (fst s)) \<longrightarrow> cursors_ok (kernel (snd (fst s)))"
  using assms(1)
proof (induction rule: among_packets.induct)
  case (am_step s t)
  obtain p d ws where s: "s = ((p, d), ws)" by (metis prod.exhaust)
  note reached = am_step.hyps(1) [unfolded s]
  have ok: "dataplane_ok d" by (rule among_packets_ok [OF reached assms(2,4)])
  have before: "before_switch (fst (reload_next h config (p, d))) \<or> fst (reload_next h config (p, d)) = Rl_rr"
    if "before_switch p"
    using progress_before [OF assms(7,3,5) ok _ that] keeps_old_reached [OF reached assms(2-5)]
      progress_reached [OF reached assms(2-7)] by simp
  from am_step.hyps(2) [unfolded s] show ?case
  proof (rule interleavedE)
    fix p' d' ws1
    assume "((p, d), ws) = ((p', d'), ws1)" "t = (reload_next h config (p', d'), ws1)"
    then show ?thesis using cursors_next [OF before] am_step.IH s by auto
  next
    fix p' d' st ws1
    assume *: "((p, d), ws) = ((p', d'), ws1)" "t = ((p', d'\<lparr>kernel := st\<rparr>), ws1)" "xdp_step (kernel d') st"
    then show ?thesis using xdp_step_cursors [OF *(3)] ok am_step.IH s by (auto simp: dataplane_ok_def)
  next
    fix p' d' ws1 e
    assume *: "((p, d), ws) = ((p', d'), [])" "t = ((p', e), ws1)" "begin_maintenance d' = (ws1, e)"
    have "kernel e = kernel d'" by (subst begin_fields(2) [OF *(3)]) simp
    then show ?thesis using * am_step.IH s by auto
  next
    fix p' d' ws1 ws2 st
    assume *: "((p, d), ws) = ((p', d'), ws1)" "t = ((p', d'\<lparr>kernel := st\<rparr>), ws2)" "publish_next (ws1, kernel d') = (ws2, st)"
    then show ?thesis
      using cursors_ok_view [OF tables_only_view(1) [OF publish_next_frame [OF *(3)]]] am_step.IH s by auto
  qed
qed simp

subsection \<open>New flows\<close>

lemma reload_flow:
  assumes run: "among_packets h config d0 ((p, d), ws)" and h: "host_ok h" "rest_of_index h = 0"
    and d0: "dataplane_ok d0" "index_ok d0" "maps_opened d0" and fits: "fits h config d0"
    and p: "\<not> before_switch p"
    and s: "s \<in> set (services config)" "reals s \<noteq> []" "srv_type s \<noteq> CH" "srv_type s = WRR \<Longrightarrow> cursors_cleared p"
    and syn: "pure_syn tcp" and f: "find_tcp_backend env sk (the_key h s) tcp len (kernel d) = (Some b, st')"
  shows "\<exists>r \<in> set (reals s). enabled r \<and> b = the_backend h s r"
proof -
  have d: "maps_ok (kernel d)" "sessions_ok (kernel d)"
    using among_packets_ok [OF run h(1) d0(1)] by (simp_all add: dataplane_ok_def)
  have serves: "serves h (services config) (kernel d)"
    using progress_reached [OF run h d0 fits] progress_after [OF p, of h config d0 d] by simp
  obtain i where i: "i < length (services config)" "services config ! i = s"
    using s(1) by (auto simp: in_set_conv_nth)
  let ?info = "prepare_info s (service_start (services config) i) i"
  have "info_ok ?info" using served_info(1) [OF fits_room(4) [OF fits] i(1)] s(2) i(2) by simp
  then have "wrr_cursor_ok ?info (the_key h s) (kernel d)" if "srv_type s = WRR"
    using cursors_reached [OF run h d0 fits] s(4) [OF that] serves i by (auto simp: cursors_ok_def serves_def)
  then show ?thesis
    using served_flow [OF d serves fits_room(4) [OF fits] i(1)] fits_room(1) [OF fits] s(1-3) syn f by (simp add: i(2))
qed

subsection \<open>Flows of the old configuration\<close>

text \<open>A session that is still there after the switch names a server of the new configuration by an index of the old one.\<close>

lemma reload_old_flow:
  assumes run: "among_packets h config d0 ((p, d), ws)" and h: "host_ok h" "rest_of_index h = 0"
    and d0: "dataplane_ok d0" "index_ok d0" "maps_opened d0" and fits: "fits h config d0"
    and p: "\<not> before_switch p"
    and v: "hash_lookup (tcp_session_state (kernel d)) sk = Some v"
      "unat (ss_backend_idx v) < length (config_backends h (services config))"
    and tcp: "\<not> pure_syn tcp" "ktime_hit env - created v \<le> timeout v"
  shows "fst (find_tcp_backend env sk key tcp len (kernel d)) = Some (config_backends h (services config) ! unat (ss_backend_idx v))"
proof -
  have serves: "serves h (services config) (kernel d)"
    using progress_reached [OF run h d0 fits] progress_after [OF p, of h config d0 d] by simp
  have idx: "unat (ss_backend_idx v) < MAX_BACKENDS" using v(2) fits_room(4) [OF fits] by simp
  have age: "\<not> timeout v < ktime_hit env - created v" using tcp(2) by simp
  show ?thesis
    using find_tcp_backend_live(1) [OF v(1) idx tcp(1) age prod.collapse [symmetric], of key len] serves v(2)
    by (simp add: serves_def)
qed

text \<open>The calls up to the switch leave the sessions alone and get there.\<close>

lemma before_next_sessions:
  "before_switch p \<Longrightarrow> tcp_session_state (kernel (snd (reload_next h config (p, d)))) = tcp_session_state (kernel d)"
  by (cases p)
    (auto simp: prepare_kernel load_ddos_def load_backends_def load_services_def switch_index_def read_index_standby
      in_kernel_def Let_def split_beta split: option.split)

lemma reaches_switch:
  assumes h: "host_ok h" "rest_of_index h = 0"
    and d0: "dataplane_ok d0" "index_ok d0" "maps_opened d0" and fits: "fits h config d0"
  shows "among_packets h config d0 ((p, d), ws) \<Longrightarrow> before_switch p \<Longrightarrow>
    \<exists>e. among_packets h config d0 ((Rl_rr, e), ws) \<and> tcp_session_state (kernel e) = tcp_session_state (kernel d)"
proof (induction "stage p" arbitrary: p d rule: less_induct)
  case less
  obtain q e where q: "reload_next h config (p, d) = (q, e)" by (rule prod.exhaust)
  have p: "\<not> returned p" "left_in_stage (p, d) = 0" "left_to_publish p = 0"
    using less.prems(2) reload_next_less [of p h config d] q by (auto elim!: before_switch.elims)
  have "\<not> takes_lock p" using less.prems(2) by (cases p rule: takes_lock.cases) simp_all
  then have reached: "among_packets h config d0 ((q, e), ws)"
    using am_step [OF less.prems(1) il_reload [OF p(1) _ q]] by simp
  have ok: "dataplane_ok d" by (rule among_packets_ok [OF less.prems(1) h(1) d0(1)])
  have before: "before_switch q \<or> q = Rl_rr"
    using progress_before [OF fits h(2) d0(2) ok _ less.prems(2)] keeps_old_reached [OF less.prems(1) h d0(1,2)]
      progress_reached [OF less.prems(1) h d0 fits] q by simp
  have sessions: "tcp_session_state (kernel e) = tcp_session_state (kernel d)"
    using before_next_sessions [OF less.prems(2), of h config d] q by simp
  show ?case
  proof (cases "before_switch q")
    case True
    have "stage q < stage p" using reload_next_less [OF p(1), of h config d] p(2,3) q by simp
    from less.hyps [OF this reached True] show ?thesis using sessions by simp
  next
    case False
    then have "q = Rl_rr" using before q by simp
    then show ?thesis using reached sessions by blast
  qed
qed

subsection \<open>The loop that forgets the sessions\<close>

text \<open>
  \<open>clearing n k\<close>: a run of the loop with \<open>n\<close> of its calls and \<open>k\<close> packets, in any order.
\<close>

fun forgetting :: "reload_point \<Rightarrow> bool" where
  "forgetting Rl_sessions = True"
| "forgetting (Rl_session_delete k) = True"
| "forgetting p = False"

inductive clearing ::
    "host \<Rightarrow> base_config \<Rightarrow> xdp_dataplane \<Rightarrow> nat \<Rightarrow> nat \<Rightarrow> (reload_point \<times> xdp_dataplane) \<times> pending \<Rightarrow> bool"
  for h config d where
  cl_start: "pubs_ok ws \<Longrightarrow> clearing h config d 0 0 ((Rl_sessions, d), ws)"
| cl_call: "clearing h config d n k ((p, e), ws) \<Longrightarrow> forgetting p \<Longrightarrow> reload_next h config (p, e) = s \<Longrightarrow>
     clearing h config d (Suc n) k (s, ws)"
| cl_packet: "clearing h config d n k ((p, e), ws) \<Longrightarrow> xdp_step (kernel e) st \<Longrightarrow>
     clearing h config d n (Suc k) ((p, e\<lparr>kernel := st\<rparr>), ws)"
| cl_maintain: "clearing h config d n k ((p, e), []) \<Longrightarrow> begin_maintenance e = (ws, e') \<Longrightarrow>
     clearing h config d n k ((p, e'), ws)"
| cl_publish: "clearing h config d n k ((p, e), ws) \<Longrightarrow> publish_next (ws, kernel e) = (ws', st) \<Longrightarrow>
     clearing h config d n k ((p, e\<lparr>kernel := st\<rparr>), ws')"

lemma clearing_ok: "clearing h config d n k s \<Longrightarrow> host_ok h \<Longrightarrow> dataplane_ok d \<Longrightarrow> state_ok s"
proof (induction rule: clearing.induct)
  case (cl_call n k p e ws s)
  then show ?case using reload_next_ok [of h e p config] reload_next_point [of e p h config] by (auto simp: state_ok_def)
next
  case (cl_packet n k p e ws st)
  then show ?case using interleaved_ok [OF il_packet [of e st h config p]] by simp
next
  case (cl_maintain n k p e ws e')
  then show ?case using begin_maintenance_ok [of e ws e'] by (simp add: state_ok_def)
next
  case (cl_publish n k p e ws ws' st)
  then show ?case using publish_ok [of ws e ws' st] by (simp add: state_ok_def)
qed (simp add: state_ok_def)

lemma left_after_packet:
  assumes "xdp_step (kernel d) st" "dataplane_ok d"
  shows "left_in_stage (p, d\<lparr>kernel := st\<rparr>) \<le> left_in_stage (p, d) + 2 \<or> \<not> forgetting p"
proof -
  have "maps_ok (kernel d)" "sessions_ok (kernel d)" using assms(2) by (simp_all add: dataplane_ok_def)
  then obtain sk where sk: "fst ` set (tcp_session_state st) \<subseteq> insert sk (fst ` set (tcp_session_state (kernel d)))"
    by (rule xdp_step_session_keys [OF assms(1)])
  have le: "card A \<le> Suc (card B)" if "A \<subseteq> insert sk B" "finite B" for A B :: "session_state_key set"
    using card_mono [OF _ that(1)] card_insert_le_m1 that(2) by (metis card.insert finite_insert insert_absorb le_SucI)
  show ?thesis
  proof (cases p)
    case Rl_sessions
    then show ?thesis using le [OF sk] by simp
  next
    case (Rl_session_delete k)
    have "insert k (fst ` set (tcp_session_state st)) \<subseteq> insert sk (insert k (fst ` set (tcp_session_state (kernel d))))"
      using sk by blast
    from le [OF this] show ?thesis using Rl_session_delete by simp
  qed simp_all
qed

lemma left_same_sessions:
  "forgetting p \<Longrightarrow> tcp_session_state (kernel e) = tcp_session_state (kernel d) \<Longrightarrow> left_in_stage (p, e) = left_in_stage (p, d)"
  by (cases p) simp_all

definition left_to_forget :: "reload_point \<times> xdp_dataplane \<Rightarrow> nat" where
  "left_to_forget s = (if forgetting (fst s) then left_in_stage s else 0)"

lemma left_after_call:
  assumes "forgetting p"
  shows "left_to_forget (reload_next h config (p, d)) < left_to_forget (p, d)"
proof -
  have "stage p = 3" "\<not> returned p" "left_to_publish p = 0" "\<And>q. forgetting q \<Longrightarrow> stage q = 3"
    using assms by (auto elim: forgetting.elims)
  moreover from calculation(2,3) have
    "stage (fst (reload_next h config (p, d))) < stage p
     \<or> stage (fst (reload_next h config (p, d))) = stage p \<and> left_in_stage (reload_next h config (p, d)) < left_in_stage (p, d)"
    using reload_next_less [of p h config d] by (auto simp: split_beta)
  moreover have "0 < left_in_stage (p, d)" using assms by (cases p) (simp_all add: card_gt_0_iff)
  ultimately show ?thesis using assms by (fastforce simp: left_to_forget_def)
qed

lemma clearing_bound:
  "clearing h config d n k s \<Longrightarrow> host_ok h \<Longrightarrow> dataplane_ok d \<Longrightarrow>
     n + left_to_forget (fst s) \<le> left_to_forget (Rl_sessions, d) + 2 * k"
proof (induction rule: clearing.induct)
  case (cl_call n k p e ws s)
  then show ?case using left_after_call [of p h config e] by simp
next
  case (cl_packet n k p e ws st)
  have "dataplane_ok e" using clearing_ok [OF cl_packet.hyps(1)] cl_packet.prems by (simp add: state_ok_def)
  from left_after_packet [OF cl_packet.hyps(2) this, of p] show ?case
    using cl_packet by (auto simp: left_to_forget_def split: if_splits)
next
  case (cl_maintain n k p e ws e')
  have "kernel e' = kernel e" by (subst begin_fields(2) [OF cl_maintain.hyps(2)]) simp
  then show ?case using cl_maintain left_same_sessions [of p e' e] by (simp add: left_to_forget_def split: if_splits)
next
  case (cl_publish n k p e ws ws' st)
  have "tcp_session_state st = tcp_session_state (kernel e)"
    by (rule tables_only_view(4) [OF publish_next_frame [OF cl_publish.hyps(2)]])
  then show ?case using cl_publish left_same_sessions [of p "e\<lparr>kernel := st\<rparr>" e] by (simp add: left_to_forget_def split: if_splits)
qed simp

end
