(* ===== verification/Concurrent_System.thy ===== *)
theory Concurrent_System
  imports Reload_Window
begin

section \<open>The system with reloads in progress\<close>

text \<open>
  \<open>Balancer_System\<close> runs a command of the manager to its end before the next packet. Here a
  command only starts its reload, and the calls of the reload are steps of their own. What the
  manager asks for is what its operations hand to a data plane that writes the configuration
  down (\<open>asks\<close>). A reload that blocks in a lookup never returns. Commands themselves come one after the other. A second of maintenance only starts its
  publications, whose calls are steps, too.
\<close>

type_synonym concurrent_system =
  "config_manager \<times> xdp_dataplane \<times> (base_config \<times> reload_point) option \<times> pending"

definition starting :: "base_config option \<Rightarrow> (base_config \<times> reload_point) option" where
  "starting c = map_option (\<lambda>conf. (conf, Rl_prepare)) c"

definition reload_holds :: "(base_config \<times> reload_point) option \<Rightarrow> bool" where
  "reload_holds r \<longleftrightarrow> (case r of None \<Rightarrow> False | Some (conf, p) \<Rightarrow> holds_lock p)"

inductive concurrent_step :: "host \<Rightarrow> concurrent_system \<Rightarrow> concurrent_system \<Rightarrow> bool" for h where
  con_packet: "xdp_step (kernel d) st \<Longrightarrow> concurrent_step h (m, d, r, ws) (m, d\<lparr>kernel := st\<rparr>, r, ws)"
| con_maintain: "\<not> reload_holds r \<Longrightarrow> begin_maintenance d = (ws, e) \<Longrightarrow> concurrent_step h (m, d, r, []) (m, e, r, ws)"
| con_publish: "ws \<noteq> [] \<Longrightarrow> publish_next (ws, kernel d) = (ws', st) \<Longrightarrow>
     concurrent_step h (m, d, r, ws) (m, d\<lparr>kernel := st\<rparr>, r, ws')"
| con_load: "LoadConfig (Some asks) conf (m, None) = (m', c) \<Longrightarrow>
     concurrent_step h (m, d, None, ws) (m', d, starting c, ws)"
| con_add: "AddService (Some asks) srv (m, None) = (m', c) \<Longrightarrow>
     concurrent_step h (m, d, None, ws) (m', d, starting c, ws)"
| con_set: "SetRealState (Some asks) request (m, None) = (err, m', c) \<Longrightarrow>
     concurrent_step h (m, d, None, ws) (m', d, starting c, ws)"
| con_call: "\<not> returned p \<Longrightarrow> \<not> takes_lock p \<or> ws = [] \<Longrightarrow> reload_next h conf (p, d) = (q, e) \<Longrightarrow>
     concurrent_step h (m, d, Some (conf, p), ws) (m, e, Some (conf, q), ws)"
| con_return: "comes_back r \<Longrightarrow> concurrent_step h (m, d, Some (conf, Rl_returned r), ws) (m, d, None, ws)"

inductive concurrent_reachable :: "host \<Rightarrow> concurrent_system \<Rightarrow> bool" for h where
  con_start: "concurrent_reachable h (\<lparr>m_currConfig = None\<rparr>, initial_dataplane opened, None, [])"
| con_next: "concurrent_reachable h s \<Longrightarrow> concurrent_step h s t \<Longrightarrow> concurrent_reachable h t"

subsection \<open>Every run with whole reloads is one of these\<close>

inductive concurrent_steps :: "host \<Rightarrow> concurrent_system \<Rightarrow> concurrent_system \<Rightarrow> bool" for h where
  cons_refl: "concurrent_steps h s s"
| cons_step: "concurrent_step h s t \<Longrightarrow> concurrent_steps h t u \<Longrightarrow> concurrent_steps h s u"

lemma concurrent_steps_reachable:
  "concurrent_steps h s t \<Longrightarrow> concurrent_reachable h s \<Longrightarrow> concurrent_reachable h t"
  by (induction rule: concurrent_steps.induct) (auto intro: con_next)

lemma concurrent_steps_trans: "concurrent_steps h s t \<Longrightarrow> concurrent_steps h t u \<Longrightarrow> concurrent_steps h s u"
  by (induction rule: concurrent_steps.induct) (auto intro: cons_step)

lemma alone_concurrent:
  "runs_alone h conf s t \<Longrightarrow> t = (Rl_returned r, e) \<Longrightarrow> comes_back r \<Longrightarrow>
     concurrent_steps h (m, snd s, Some (conf, fst s), []) (m, e, None, [])"
proof (induction rule: runs_alone.induct)
  case (alone_refl s)
  then show ?case by (auto intro: cons_step con_return cons_refl)
next
  case (alone_step s t)
  have "concurrent_step h (m, snd s, Some (conf, fst s), [])
      (m, snd (reload_next h conf s), Some (conf, fst (reload_next h conf s)), [])"
    using alone_step.hyps(1) by (intro con_call) simp_all
  then show ?case using alone_step.IH [OF alone_step.prems] cons_step by blast
qed

lemma reload_concurrent:
  assumes "finishes h (Some conf) d"
  shows "concurrent_steps h (m, d, Some (conf, Rl_prepare), []) (m, snd (ReloadConfig h conf d), None, [])"
proof -
  obtain r e where r: "ReloadConfig h conf d = (r, e)" by (rule prod.exhaust)
  then have "runs_alone h conf (Rl_prepare, d) (Rl_returned r, e)" by (simp add: runs_alone_exact)
  from alone_concurrent [OF this refl, of m] show ?thesis using assms by (simp add: r finishes_def)
qed

lemma publish_concurrent: "concurrent_steps h (m, d, r, ws) (m, publish_all ws d, r, [])"
proof (induction "calls_left ws" arbitrary: d ws rule: less_induct)
  case less
  show ?case
  proof (cases "ws = []")
    case False
    obtain ws' st where n: "publish_next (ws, kernel d) = (ws', st)" by (rule prod.exhaust)
    have "publish_all ws' (d\<lparr>kernel := st\<rparr>) = publish_all ws d"
      using run_publications_next [of "(ws, kernel d)"] by (simp add: n publish_all_def)
    then show ?thesis
      using less [of ws' "d\<lparr>kernel := st\<rparr>"] publish_next_less [OF False, of "kernel d"] cons_step [OF con_publish [OF False n]]
      by (simp add: n)
  qed (simp add: cons_refl)
qed

lemma maintenance_concurrent: "concurrent_steps h (m, d, None, []) (m, ChPeriodicMaintenance d, None, [])"
proof -
  obtain ws e where b: "begin_maintenance d = (ws, e)" by (rule prod.exhaust)
  have "concurrent_step h (m, d, None, []) (m, e, None, ws)" by (rule con_maintain [OF _ b]) (simp add: reload_holds_def)
  then show ?thesis using cons_step publish_concurrent by (fastforce simp: ChPeriodicMaintenance_begin b)
qed

lemma command_concurrent:
  assumes "concurrent_step h (m, d, None, []) (m', d, starting c, [])"
    and "d' = (case c of None \<Rightarrow> d | Some conf \<Rightarrow> snd (ReloadConfig h conf d))" "finishes h c d"
  shows "concurrent_steps h (m, d, None, []) (m', d', None, [])"
  using assms(2,3) reload_concurrent
  by (cases c) (auto simp: starting_def intro!: cons_step [OF assms(1)] cons_refl)

lemma LoadConfig_asks:
  "LoadConfig (Some asks) conf (m, None) = (m', c) \<Longrightarrow>
   LoadConfig (Some f) conf (m, d) = (m', case c of None \<Rightarrow> d | Some conf \<Rightarrow> snd (f conf d))"
  by (auto simp: LoadConfig_def call_reload_def asks_def)

lemma AddService_asks:
  "AddService (Some asks) srv (m, None) = (m', c) \<Longrightarrow>
   AddService (Some f) srv (m, d) = (m', case c of None \<Rightarrow> d | Some conf \<Rightarrow> snd (f conf d))"
  by (auto simp: AddService_def call_reload_def asks_def Let_def split: option.splits if_splits)

lemma SetRealState_asks:
  "SetRealState (Some asks) request (m, None) = (err, m', c) \<Longrightarrow>
   SetRealState (Some f) request (m, d) = (err, m', case c of None \<Rightarrow> d | Some conf \<Rightarrow> snd (f conf d))"
  by (auto simp: SetRealState_def call_reload_def asks_def Let_def split: option.splits)

lemma system_step_concurrent:
  assumes "system_step h (m, d) (m', d')"
  shows "concurrent_steps h (m, d, None, []) (m', d', None, [])"
  using assms
proof (rule system_stepE)
  fix d1 st m1 assume "(m, d) = (m1, d1)" "(m', d') = (m1, d1\<lparr>kernel := st\<rparr>)" "xdp_step (kernel d1) st"
  then show ?thesis by (auto intro: cons_step con_packet cons_refl)
next
  fix conf assume *: "(m', d') = LoadConfig (Some (ReloadConfig h)) conf (m, d)" and f: "finishes h (Some conf) (snd (m, d))"
  obtain m1 c where c: "LoadConfig (Some asks) conf (m, None) = (m1, c)" by (rule prod.exhaust)
  then show ?thesis using * LoadConfig_asks [OF c, of "ReloadConfig h" d] command_concurrent [OF con_load [OF c]] f
    by (auto simp: LoadConfig_def call_reload_def asks_def)
next
  fix srv assume *: "(m', d') = AddService (Some (ReloadConfig h)) srv (m, d)"
    and f: "finishes h (snd (AddService (Some asks) srv (fst (m, d), None))) (snd (m, d))"
  obtain m1 c where c: "AddService (Some asks) srv (m, None) = (m1, c)" by (rule prod.exhaust)
  then show ?thesis using * AddService_asks [OF c, of "ReloadConfig h" d] command_concurrent [OF con_add [OF c]] f
    by (simp add: c)
next
  fix request err assume *: "SetRealState (Some (ReloadConfig h)) request (m, d) = (err, m', d')"
    and f: "finishes h (snd (snd (SetRealState (Some asks) request (fst (m, d), None)))) (snd (m, d))"
  obtain e m1 c where c: "SetRealState (Some asks) request (m, None) = (e, m1, c)" by (rule prod_cases3)
  then show ?thesis using * SetRealState_asks [OF c, of "ReloadConfig h" d] command_concurrent [OF con_set [OF c]] f
    by (auto simp: c)
next
  fix d1 m1 assume "(m, d) = (m1, d1)" "(m', d') = (m1, ChPeriodicMaintenance d1)"
  then show ?thesis using maintenance_concurrent by simp
qed

lemma system_reachable_concurrent:
  assumes "system_reachable h md"
  shows "concurrent_reachable h (fst md, snd md, None, [])"
  using assms
proof (induction rule: system_reachable.induct)
  case (sys_step md md')
  then show ?case
    using concurrent_steps_reachable [OF system_step_concurrent [of h "fst md" "snd md" "fst md'" "snd md'"]] by simp
qed (simp add: con_start)

subsection \<open>The invariant of the data plane\<close>

definition concurrent_ok :: "concurrent_system \<Rightarrow> bool" where
  "concurrent_ok s \<longleftrightarrow>
     (case s of (m, d, r, ws) \<Rightarrow>
        dataplane_ok d \<and> pubs_ok ws \<and> (case r of None \<Rightarrow> True | Some (conf, p) \<Rightarrow> point_ok p))"

lemma concurrent_step_ok: "concurrent_step h s t \<Longrightarrow> host_ok h \<Longrightarrow> concurrent_ok s \<Longrightarrow> concurrent_ok t"
proof (induction rule: concurrent_step.induct)
  case (con_packet d st m r ws)
  then show ?case using interleaved_ok [OF il_packet [OF con_packet.hyps, of h _ Rl_prepare ws]] by (auto simp: state_ok_def concurrent_ok_def)
next
  case (con_maintain r d ws e m)
  then show ?case using begin_maintenance_ok [of d ws e] by (simp add: concurrent_ok_def)
next
  case (con_publish ws d ws' st m r)
  then show ?case using publish_ok [of ws d ws' st] by (simp add: concurrent_ok_def)
next
  case (con_call p ws conf d q e m)
  then show ?case using interleaved_ok [OF il_reload [OF con_call.hyps]] by (simp add: state_ok_def concurrent_ok_def)
qed (auto simp: concurrent_ok_def starting_def split: option.split)

lemma concurrent_reachable_inv: "concurrent_reachable h s \<Longrightarrow> host_ok h \<Longrightarrow> concurrent_ok s"
proof (induction rule: concurrent_reachable.induct)
  case (con_start opened)
  then show ?case by (simp add: dataplane_ok_initial concurrent_ok_def)
qed (simp add: concurrent_step_ok)

lemma concurrent_reachable_ok: "concurrent_reachable h (m, d, r, ws) \<Longrightarrow> host_ok h \<Longrightarrow> dataplane_ok d"
  using concurrent_reachable_inv by (fastforce simp: concurrent_ok_def)

text \<open>One publication at a time.\<close>

lemma concurrent_step_lock:
  "concurrent_step h s t \<Longrightarrow> (case s of (m, d, r, ws) \<Rightarrow> ws = [] \<or> \<not> reload_holds r) \<Longrightarrow>
     (case t of (m, d, r, ws) \<Rightarrow> ws = [] \<or> \<not> reload_holds r)"
proof (induction rule: concurrent_step.induct)
  case (con_call p ws conf d q e m)
  then show ?case
    using interleaved_lock [OF il_reload [OF con_call.hyps]] by (simp add: reload_holds_def)
qed (auto simp: reload_holds_def starting_def split: option.split)

lemma concurrent_reachable_lock: "concurrent_reachable h (m, d, r, ws) \<Longrightarrow> ws = [] \<or> \<not> reload_holds r"
proof -
  have "concurrent_reachable h s \<Longrightarrow> (case s of (m, d, r, ws) \<Rightarrow> ws = [] \<or> \<not> reload_holds r)" for s
  proof (induction rule: concurrent_reachable.induct)
    case (con_next s t)
    then show ?case using concurrent_step_lock by blast
  qed simp
  then show "concurrent_reachable h (m, d, r, ws) \<Longrightarrow> ws = [] \<or> \<not> reload_holds r" by fastforce
qed

subsection \<open>The index of the double buffer\<close>

text \<open>
  The index is 0 or 1, 0 on the first run, and the one that a reload has read is the current one
  until the reload switches it.
\<close>

fun index_known :: "reload_point \<Rightarrow> u8 option" where
  "index_known (Rl_backends i) = Some i"
| "index_known (Rl_services i) = Some i"
| "index_known (Rl_switch i) = Some i"
| "index_known p = None"

definition index_inv :: "xdp_dataplane \<Rightarrow> reload_point option \<Rightarrow> bool" where
  "index_inv d r \<longleftrightarrow> index_ok d \<and> (\<forall>p i. r = Some p \<longrightarrow> index_known p = Some i \<longrightarrow> i = standby d \<and> \<not> m_isFirstRun d)"

definition same_index :: "xdp_dataplane \<Rightarrow> xdp_dataplane \<Rightarrow> bool" where
  "same_index d e \<longleftrightarrow> m_isFirstRun e = m_isFirstRun d \<and> atomic_index (kernel e) = atomic_index (kernel d)"

lemma same_index_ok: "same_index d e \<Longrightarrow> standby e = standby d" "same_index d e \<Longrightarrow> index_ok e = index_ok d"
  by (simp_all add: same_index_def index_ok_def standby_def)

lemma same_index_inv:
  assumes "same_index d e" "index_inv d r"
    and "\<And>p i. r' = Some p \<Longrightarrow> index_known p = Some i \<Longrightarrow> \<exists>q. r = Some q \<and> index_known q = Some i"
  shows "index_inv e r'"
  using assms same_index_ok [OF assms(1)] by (fastforce simp: index_inv_def same_index_def)

definition keeps_index :: "phase \<Rightarrow> bool" where
  "keeps_index f \<longleftrightarrow> (\<forall>d. same_index d (snd (f d)))"

lemma reset_rr_index: "keeps_index reset_rr"
  by (simp add: keeps_index_def same_index_def reset_rr_def in_kernel_def Let_def split_beta)

lemma load_index:
  "keeps_index (load_ddos config)" "keeps_index (load_backends i)" "keeps_index (load_services i)"
  by (auto simp: keeps_index_def same_index_def load_ddos_def load_backends_def load_services_def in_kernel_def
      Let_def split_beta split: option.split)

lemma reset_entry_index: "keeps_index (reset_backend_stats idx 1)" "keeps_index (reset_service_stats [key])"
  by (auto simp: keeps_index_def same_index_def in_kernel_def split: prod.split bool.split)

lemma prepare_index: "keeps_index (prepare h config)"
  by (simp add: keeps_index_def same_index_def prepare_kernel)

lemma index_inv_next:
  assumes inv: "index_inv d (Some p)" and rest: "rest_of_index h = 0"
  shows "index_inv (snd (reload_next h config (p, d))) (Some (fst (reload_next h config (p, d))))"
proof -
  have go: "index_inv (snd (go_on q (f d))) (Some (fst (go_on q (f d))))"
    if "keeps_index f" "index_known q = index_known p \<or> index_known q = None" for f q
    by (rule same_index_inv [OF _ inv])
      (use that in \<open>auto simp: keeps_index_def go_on_def split: option.splits\<close>)
  have stay: "index_inv e (Some q)" if "same_index d e" "index_known q = None" for e q
    by (rule same_index_inv [OF that(1) inv]) (use that(2) in auto)
  show ?thesis
  proof (cases "(h, config, (p, d))" rule: reload_next.cases)
    case 1
    then show ?thesis using go [OF prepare_index] stay by (auto simp: same_index_def)
  next
    case 3
    then have "standby d = 0 \<and> atomic_index (kernel d) 0 = 0 \<or> standby d = 1 \<and> atomic_index (kernel d) 0 = 1"
      using inv by (simp add: index_inv_def index_ok_def)
    then show ?thesis using 3 by (auto simp: read_index_standby index_inv_def index_ok_def standby_def)
  next
    case (6 h' c i d')
    then have i: "i = standby d" "\<not> m_isFirstRun d" "standby d = 0 \<or> standby d = 1"
      using inv by (auto simp: index_inv_def index_ok_def)
    then show ?thesis using 6 rest
      by (auto simp: switch_index_half go_on_def in_kernel_def index_inv_def index_ok_def standby_def half_switched_def other_half_def)
  next
    case (11 h' c service ss d')
    obtain pubs r e where b: "begin_ch_service h' service d' = (pubs, r, e)" by (rule prod_cases3)
    have "same_index d' e" by (subst begin_fields(1) [OF b]) (simp add: same_index_def)
    then show ?thesis using 11 b stay by (auto simp: go_on_def split: option.split)
  next
    case (13 h' c ws pubs ss d')
    obtain pubs' st where n: "publish_next (ws # pubs, kernel d') = (pubs', st)" by (rule prod.exhaust)
    have "config_view st = config_view (kernel d')" by (rule tables_only_view(2) [OF publish_next_frame [OF n]])
    then show ?thesis using 13 n stay by (simp add: same_index_def config_view_def)
  qed (use go [OF load_index(1)] go [OF load_index(2)] go [OF load_index(3)] go [OF reset_rr_index]
        go [OF reset_entry_index(1)] go [OF reset_entry_index(2)] stay in
      \<open>auto simp: same_index_def in_kernel_def split: option.splits simp del: reset_backend_stats.simps reset_service_stats.simps\<close>)
qed

lemma index_inv_view:
  "switch_view e = switch_view d \<Longrightarrow> index_inv d r \<Longrightarrow> index_inv e r"
  by (rule same_index_inv [of d e r]) (auto simp: same_index_def switch_view_def config_view_def)

lemma concurrent_step_index:
  assumes "concurrent_step h s t" "rest_of_index h = 0" "concurrent_ok s"
    and "index_inv (fst (snd s)) (map_option snd (fst (snd (snd s))))"
  shows "index_inv (fst (snd t)) (map_option snd (fst (snd (snd t))))"
  using assms
proof (induction rule: concurrent_step.induct)
  case (con_packet d st m r ws)
  then have "config_view st = config_view (kernel d)"
    using xdp_frame_view [OF xdp_step_invariant(3)] by (simp add: concurrent_ok_def dataplane_ok_def)
  then have "switch_view (d\<lparr>kernel := st\<rparr>) = switch_view d" by (simp add: switch_view_def)
  then show ?case using index_inv_view con_packet.prems(3) by simp
next
  case (con_maintain r d ws e m)
  have "switch_view e = switch_view d" by (subst begin_fields(2) [OF con_maintain.hyps(2)]) (simp add: switch_view_def)
  then show ?case using index_inv_view con_maintain.prems(3) by simp
next
  case (con_publish ws d ws' st m r)
  have "switch_view (d\<lparr>kernel := st\<rparr>) = switch_view d"
    using tables_only_view(2) [OF publish_next_frame [OF con_publish.hyps(2)]] by (simp add: switch_view_def)
  then show ?case using index_inv_view con_publish.prems(3) by simp
next
  case (con_call p ws conf d q e m)
  then show ?case using index_inv_next [of d p h conf] by simp
qed (auto simp: index_inv_def starting_def)

lemma concurrent_reachable_index:
  assumes "concurrent_reachable h s" "host_ok h" "rest_of_index h = 0"
  shows "index_inv (fst (snd s)) (map_option snd (fst (snd (snd s))))"
  using assms(1)
proof (induction rule: concurrent_reachable.induct)
  case (con_start opened)
  then show ?case by (simp add: index_inv_def index_ok_def standby_def initial_dataplane_def initial_maps_def)
next
  case (con_next s t)
  then show ?case using concurrent_step_index [OF _ assms(3)] concurrent_reachable_inv [OF _ assms(2)] by blast
qed

lemma concurrent_reachable_start:
  assumes "concurrent_reachable h (m, d, r, ws)" "host_ok h" "rest_of_index h = 0"
  shows "dataplane_ok d" "index_ok d"
  using concurrent_reachable_ok [OF assms(1,2)] concurrent_reachable_index [OF assms] by (simp_all add: index_inv_def)

end
