(* ===== verification/Reload_Returns.thy ===== *)
theory Reload_Returns
  imports Balancer_System
begin

section \<open>When a reload comes back\<close>

text \<open>
  A reload does not come back when a lookup of a neighbour does not, and it has no defined
  behaviour when a lookup has none. There are no other reasons.
\<close>

definition unanswered :: "host \<Rightarrow> base_config \<Rightarrow> bool" where
  "unanswered h config \<longleftrightarrow>
     (\<exists>s \<in> set (services config). \<exists>r \<in> set (reals s).
        lookup_mac h r = Inl Never_returns \<or> lookup_mac h r = Inl Undefined_behaviour)"

definition returning :: "phase \<Rightarrow> bool" where
  "returning f \<longleftrightarrow> (\<forall>d. comes_back (fst (f d)))"

lemma comes_back_simps [simp]:
  "comes_back None" "comes_back (Some e) \<longleftrightarrow> e \<noteq> Never_returns \<and> e \<noteq> Undefined_behaviour"
  by (simp_all add: comes_back_def)

lemma returningI: "(\<And>d. comes_back (fst (f d))) \<Longrightarrow> returning f"
  by (simp add: returning_def)

lemma returningD: "returning f \<Longrightarrow> comes_back (fst (f d))"
  by (simp add: returning_def)

lemma returning_and_then [intro]: "returning f \<Longrightarrow> returning g \<Longrightarrow> returning (and_then f g)"
  unfolding returning_def and_then_def by (auto split: prod.split option.split) (metis comes_back_simps(2) fst_conv)+

subsection \<open>The preparation\<close>

lemma prepare_backend_stops:
  "prepare_backend h s r = Inl e \<Longrightarrow> \<not> comes_back (Some e) \<Longrightarrow> lookup_mac h r = Inl e"
  by (auto simp: prepare_backend_def Let_def split: if_splits option.splits sum.splits)

lemma prepare_reals_stops:
  "\<not> comes_back (fst (prepare_reals h s rs d)) \<Longrightarrow>
     \<exists>r \<in> set rs. lookup_mac h r = Inl Never_returns \<or> lookup_mac h r = Inl Undefined_behaviour"
proof (induction rs arbitrary: d)
  case (Cons r rs)
  then show ?case using prepare_backend_stops [of h s r] by (cases "prepare_backend h s r") auto
qed simp

lemma prepare_services_stops:
  "\<not> comes_back (fst (prepare_services h ss start d)) \<Longrightarrow>
     \<exists>s \<in> set ss. \<exists>r \<in> set (reals s). lookup_mac h r = Inl Never_returns \<or> lookup_mac h r = Inl Undefined_behaviour"
proof (induction ss arbitrary: start d)
  case (Cons s ss)
  show ?case
  proof (cases "prepare_key h s")
    case (Some key)
    let ?d = "d\<lparr>m_xdpKeys := m_xdpKeys d @ [key]\<rparr>"
    obtain r e where r: "prepare_reals h s (reals s) ?d = (r, e)" by (rule prod.exhaust)
    show ?thesis
    proof (cases r)
      case None
      then show ?thesis using Cons Some r by (auto simp: and_then_def)
    next
      case (Some err)
      then have "\<not> comes_back (fst (prepare_reals h s (reals s) ?d))"
        using Cons.prems r \<open>prepare_key h s = Some key\<close> by (simp add: and_then_def)
      from prepare_reals_stops [OF this] show ?thesis by auto
    qed
  qed (use Cons.prems in simp)
qed simp

lemma prepare_stops: "\<not> comes_back (fst (prepare h config d)) \<Longrightarrow> unanswered h config"
  unfolding prepare_def unanswered_def by (rule prepare_services_stops)

lemma prepare_resolves: "fst (prepare h config d) = None \<Longrightarrow> s \<in> set (services config) \<Longrightarrow> resolves h s"
  using prepare_unresolved by blast

subsection \<open>The calls\<close>

lemma load_ddos_returning: "returning (load_ddos config)"
  by (rule returningI) (simp add: load_ddos_def split: option.split prod.split)

lemma load_backends_returning: "returning (load_backends index)"
  by (rule returningI) (simp add: load_backends_def Let_def split_beta)

lemma load_services_returning: "returning (load_services index)"
  by (rule returningI) (simp add: load_services_def Let_def split_beta)

lemma switch_index_returning: "returning (switch_index h index)"
  by (rule returningI) (simp add: switch_index_def Let_def split_beta)

lemma read_index_comes_back: "fst (read_index d) = Inl e \<Longrightarrow> comes_back (Some e)"
  by (auto simp: read_index_def split: if_splits option.splits)

lemma reset_rr_returning: "returning reset_rr"
  by (rule returningI) (simp add: reset_rr_def Let_def split_beta)

lemma reset_wrr_returning: "returning reset_wrr"
  by (rule returningI) (simp add: reset_wrr_def)

lemma clear_sessions_returning: "returning clear_sessions"
  by (rule returningI) (simp add: clear_sessions_def)

lemma reset_backend_stats_returning: "returning (reset_backend_stats idx n)"
proof (rule returningI)
  show "comes_back (fst (reset_backend_stats idx n d))" for d
    by (induction n arbitrary: idx d) (auto split: prod.split bool.split)
qed

lemma reset_service_stats_returning: "returning (reset_service_stats ks)"
proof (rule returningI)
  show "comes_back (fst (reset_service_stats ks d))" for d
    by (induction ks arbitrary: d) (auto split: prod.split bool.split)
qed

lemma reset_stats_returning: "returning reset_stats"
proof (rule returningI)
  have "returning (and_then (reset_backend_stats 0 n) (\<lambda>d. reset_service_stats (m_xdpKeys d) d))" for n
    using returningD [OF reset_service_stats_returning]
    by (intro returning_and_then reset_backend_stats_returning returningI)
  then show "comes_back (fst (reset_stats d))" for d by (simp add: reset_stats_def returningD)
qed

subsection \<open>Consistent hashing\<close>

text \<open>The keys are those of the preparation, and an instance can always be given backends.\<close>

lemma ch_key_prepared: "prepare_key h s \<noteq> None \<Longrightarrow> ch_key h s \<noteq> None"
  by (auto simp: prepare_key_def ch_key_def Let_def split: if_splits)

lemma update_ch_service_defined:
  assumes "dataplane_ok d" "ch_key h s \<noteq> None"
  shows "fst (update_ch_service h s d) = None"
proof -
  have ok: "services_ok (m_chManager d)" using assms(1) by (simp add: dataplane_ok_def chs_ok_def)
  have defined: "(updateBackends cs (se_instance (entry_of key default_instance_config (m_chManager d))) = None) = False" for cs key
    using entry_of_ok [OF ok coprime_default, of key] updateBackends_defined unfolding entry_ok_def by blast
  then show ?thesis
    using assms(2) by (auto simp: defined update_ch_service_def updateServiceBackends_eq Let_def split: option.split)
qed

lemma update_ch_defined:
  "dataplane_ok d \<Longrightarrow> \<forall>s \<in> set ss. ch_key h s \<noteq> None \<Longrightarrow> fst (update_ch h ss d) = None"
proof (induction ss arbitrary: d)
  case (Cons s ss)
  then have "update_ch_service h s d = (None, snd (update_ch_service h s d))"
    using update_ch_service_defined [of d h s] by (simp add: prod_eq_iff)
  moreover have "dataplane_ok (snd (update_ch_service h s d))" by (rule keepsD [OF update_ch_service_keeps Cons.prems(1)])
  moreover have "update_ch h (s # ss) d = update_ch h ss (snd (update_ch_service h s d))"
    by (simp add: and_then_def) (subst calculation(1), simp)
  ultimately show ?case using Cons by simp
qed simp

subsection \<open>The function\<close>

lemma and_then_comes_back:
  assumes "comes_back (fst (f d))" "\<And>e. f d = (None, e) \<Longrightarrow> comes_back (fst (g e))"
  shows "comes_back (fst (and_then f g d))"
  using assms by (cases "f d") (auto simp: and_then_def split: option.split)

lemma after_switch_comes_back:
  assumes "dataplane_ok d" "\<forall>s \<in> set (services config). ch_key h s \<noteq> None"
  shows "comes_back (fst (after_switch h config d))"
  unfolding after_switch_def
proof (intro and_then_comes_back returningD [OF reset_rr_returning] returningD [OF reset_wrr_returning])
  fix e e' assume "reset_rr d = (None, e)" "reset_wrr e = (None, e')"
  then have "dataplane_ok e'" using keepsD [OF reset_rr_keeps assms(1)] keepsD [OF reset_wrr_keeps, of e] by simp
  then show "comes_back (fst (update_ch h (services config) e'))" using update_ch_defined assms(2) by simp
qed (rule returningD [OF clear_sessions_returning] returningD [OF reset_stats_returning])+

lemma ReloadConfig_comes_back:
  assumes "dataplane_ok d" "host_ok h" "\<not> unanswered h config"
  shows "comes_back (fst (ReloadConfig h config d))"
proof -
  have "comes_back (fst (write_config h config e'))"
    if e: "prepare h config d = (None, e)" "load_ddos config e = (None, e')" for e e'
  proof -
    have "\<forall>s \<in> set (services config). ch_key h s \<noteq> None"
      using prepare_resolves [of h config d] e(1) ch_key_prepared [of h] by (auto simp: resolves_def)
    moreover have "dataplane_ok e'"
      using keepsD [OF prepare_keeps [OF assms(2)] assms(1), of config] keepsD [OF load_ddos_keeps, of e config] e by simp
    ultimately have rest: "comes_back (fst (and_then (load_half i) (and_then (switch_index h i) (after_switch h config)) e2))"
      if "dataplane_ok e2" for i e2
    proof (intro and_then_comes_back after_switch_comes_back returningD [OF switch_index_returning])
      show "comes_back (fst (load_half i e2))"
        unfolding load_half_def by (intro returningD returning_and_then load_backends_returning load_services_returning)
      fix e3 e4 assume "load_half i e2 = (None, e3)" "switch_index h i e3 = (None, e4)"
      then show "dataplane_ok e4"
        using keepsD [OF load_half_keeps that, of i] keepsD [OF switch_index_keeps, of e3 h i] by simp
    qed
    then show ?thesis using read_index_comes_back [of e'] read_index_ok [OF \<open>dataplane_ok e'\<close>]
      by (auto simp: write_config_def split: prod.split sum.split)
  qed
  then show ?thesis using prepare_stops [of h config d] assms(3) returningD [OF load_ddos_returning]
    by (auto simp: ReloadConfig_def intro!: and_then_comes_back)
qed

end
