(* ===== verification/Reload_Blocked.thy ===== *)
theory Reload_Blocked
  imports Concurrent_System Reload_Returns
begin

section \<open>Where a reload can block\<close>

text \<open>
  At every point of a reload past the preparation all addresses have been read, so that the only
  point at which it gets stuck is the preparation, in the lookup of a neighbour.
\<close>

fun services_left :: "reload_point \<Rightarrow> balancer_service list" where
  "services_left (Rl_ch ss) = ss"
| "services_left (Rl_publish pubs ss) = ss"
| "services_left p = []"

definition addresses_read :: "host \<Rightarrow> base_config \<Rightarrow> bool" where
  "addresses_read h conf \<longleftrightarrow> (\<forall>s \<in> set (services conf). ch_key h s \<noteq> None)"

definition point_known :: "host \<Rightarrow> base_config \<Rightarrow> reload_point \<Rightarrow> bool" where
  "point_known h conf p \<longleftrightarrow>
     (case p of
        Rl_prepare \<Rightarrow> True
      | Rl_returned r \<Rightarrow> comes_back r \<or> unanswered h conf
      | _ \<Rightarrow> addresses_read h conf \<and> set (services_left p) \<subseteq> set (services conf))"

lemma point_known_go_on:
  assumes "comes_back (fst r) \<or> unanswered h conf" "fst r = None \<Longrightarrow> point_known h conf p"
  shows "point_known h conf (fst (go_on p r))"
  using assms by (cases "fst r") (auto simp: go_on_def point_known_def)

lemma reload_next_known:
  assumes "point_known h conf p" "dataplane_ok d"
  shows "point_known h conf (fst (reload_next h conf (p, d)))"
  using assms
proof (induction h conf "(p, d)" arbitrary: p d rule: reload_next.induct)
  case (1 h conf d)
  have "addresses_read h conf" if "fst (prepare h conf d) = None"
    using prepare_resolves [OF that] ch_key_prepared [of h] by (auto simp: addresses_read_def resolves_def)
  then show ?case using prepare_stops [of h conf d]
    by (auto simp: point_known_def [of _ _ "Rl_returned r" for r] intro!: point_known_go_on) (simp add: point_known_def)
next
  case (2 h conf d)
  then show ?case using returningD [OF load_ddos_returning, of conf d]
    by simp (rule point_known_go_on, simp_all add: point_known_def)
next
  case (3 h conf d)
  then show ?case using read_index_comes_back [of d]
    by (auto simp: point_known_def split: prod.split sum.split)
next
  case (4 h conf i d)
  then show ?case using returningD [OF load_backends_returning, of i d]
    by simp (rule point_known_go_on, simp_all add: point_known_def)
next
  case (5 h conf i d)
  then show ?case using returningD [OF load_services_returning, of i d]
    by simp (rule point_known_go_on, simp_all add: point_known_def)
next
  case (6 h conf i d)
  then show ?case using returningD [OF switch_index_returning, of h i d]
    by simp (rule point_known_go_on, simp_all add: point_known_def)
next
  case (7 h conf d)
  then show ?case using returningD [OF reset_rr_returning, of d]
    by simp (rule point_known_go_on, simp_all add: point_known_def)
next
  case (11 h conf service ss d)
  obtain pubs r e where b: "begin_ch_service h service d = (pubs, r, e)" by (rule prod_cases3)
  have "ch_key h service \<noteq> None" using 11(1) by (auto simp: point_known_def addresses_read_def)
  from update_ch_service_defined [OF 11(2) this] have "r = None" by (simp add: update_ch_service_begin b)
  then show ?case using 11(1) by (simp add: b go_on_def point_known_def)
next
  case (17 h conf idx n d)
  then show ?case using returningD [OF reset_backend_stats_returning, of idx 1 d]
    by (simp del: reset_backend_stats.simps) (rule point_known_go_on, simp_all add: point_known_def del: reset_backend_stats.simps)
next
  case (19 h conf key ks d)
  then show ?case using returningD [OF reset_service_stats_returning, of "[key]" d]
    by (simp del: reset_service_stats.simps) (rule point_known_go_on, simp_all add: point_known_def del: reset_service_stats.simps)
qed (auto simp: point_known_def split_beta Let_def split: option.split)

definition reload_known :: "host \<Rightarrow> concurrent_system \<Rightarrow> bool" where
  "reload_known h s \<longleftrightarrow> (\<forall>conf p. fst (snd (snd s)) = Some (conf, p) \<longrightarrow> point_known h conf p)"

lemma concurrent_step_known:
  "concurrent_step h s t \<Longrightarrow> concurrent_ok s \<Longrightarrow> reload_known h s \<Longrightarrow> reload_known h t"
proof (induction rule: concurrent_step.induct)
  case (con_call p ws conf d q e m)
  then show ?case using reload_next_known [of h conf p d] by (simp add: reload_known_def concurrent_ok_def)
qed (auto simp: reload_known_def starting_def point_known_def)

lemma concurrent_reachable_known:
  assumes "concurrent_reachable h s" "host_ok h"
  shows "reload_known h s"
  using assms(1)
proof (induction rule: concurrent_reachable.induct)
  case (con_start opened)
  then show ?case by (simp add: reload_known_def)
next
  case (con_next s t)
  then show ?case using concurrent_step_known concurrent_reachable_inv [OF _ assms(2)] by blast
qed

text \<open>A reload that is stuck is so because of a neighbour.\<close>

lemma stuck_unanswered:
  assumes "concurrent_reachable h (m, d, Some (conf, Rl_returned r), ws)" "host_ok h" "\<not> comes_back r"
  shows "unanswered h conf"
  using concurrent_reachable_known [OF assms(1,2)] assms(3) by (simp add: reload_known_def point_known_def)

end
