(* ===== verification/Control_Process.thy ===== *)
theory Control_Process
  imports Startup Grpc_Server Metrics_Server Reload_Blocked
begin

section \<open>The running process\<close>

text \<open>
  \<open>main\<close> of \<open>controlplane/main.cpp\<close> from the moment it has a validated configuration and hands it to
  the manager, with the threads it starts: the scraping loop of \<open>MetricsServer::Serve\<close>, the gRPC
  server, the maintenance of consistent hashing. Every thread has a point of its own, and one step
  of the process is a step of one thread, a request, a system call of the reload that \<open>main\<close> or a
  request has started, or a packet; the XDP program is attached before \<open>main\<close> loads the
  configuration. A scrape reads its three tables at three moments, and a second of maintenance
  publishes its tables call by call. As in \<open>Concurrent_System\<close>, requests that change the
  configuration come one after the other. A reload that blocks in the lookup of a neighbour stays
  where it is, and so does who waits for it. The gRPC thread dereferences what \<open>BuildAndStart\<close> gives,
  a null pointer when the address cannot be used: from there on the process has no behaviour.
\<close>

datatype main_point =
    At_load | At_loading | At_serve | At_grpc | At_maintenance | At_join | At_stop_maintenance | At_join_maintenance
  | At_return | Main_returned

datatype metrics_point =
    Mt_none | Mt_test | Mt_backends
  | Mt_services int "(backend_label, metrics_data) omap"
  | Mt_ddos int "(backend_label, metrics_data) omap" "(service_label, metrics_data) omap"
  | Mt_sleep | Mt_ended

datatype grpc_point = Gr_none | Gr_start | Gr_wait | Gr_undefined | Gr_ended

datatype maintenance_point = Ch_none | Ch_test | Ch_sleep | Ch_work | Ch_publish | Ch_ended

record 'r process =
  main_at :: main_point
  metrics_at :: metrics_point
  ch_at :: maintenance_point
  ch_running :: bool
  grpc_at :: grpc_point
  p_server :: "'r metrics_server"
  p_manager :: config_manager
  p_dataplane :: xdp_dataplane
  p_reload :: "(base_config \<times> reload_point) option"
  p_pending :: pending

definition loading_process :: "loader \<Rightarrow> 'r process" where
  "loading_process l =
     \<lparr>main_at = At_load, metrics_at = Mt_none, ch_at = Ch_none, ch_running = False, grpc_at = Gr_none,
      p_server = new_server 0, p_manager = \<lparr>m_currConfig = None\<rparr>, p_dataplane = dataplane_of l,
      p_reload = None, p_pending = []\<rparr>"

text \<open>
  The parts of a process that a step changes are named in its rule. The metrics server is made
  when the configuration is loaded. The destructors that run when \<open>main\<close> returns stop the gRPC
  server and the metrics server; the destructor of the latter is the only caller of \<open>Stop\<close>.
\<close>

inductive main_step :: "base_config \<Rightarrow> 'r process \<Rightarrow> 'r process \<Rightarrow> bool" for conf where
  ms_load: "main_at s = At_load \<Longrightarrow> LoadConfig (Some asks) conf (p_manager s, None) = (m, c) \<Longrightarrow>
     main_step conf s (s\<lparr>p_manager := m, p_reload := starting c, main_at := At_loading\<rparr>)"
| ms_loaded: "main_at s = At_loading \<Longrightarrow> p_reload s = None \<Longrightarrow>
     main_step conf s (s\<lparr>p_server := new_server start, main_at := At_serve\<rparr>)"
| ms_serve: "main_at s = At_serve \<Longrightarrow>
     main_step conf s (s\<lparr>p_server := Serve (p_server s), metrics_at := Mt_test, main_at := At_grpc\<rparr>)"
| ms_grpc: "main_at s = At_grpc \<Longrightarrow> main_step conf s (s\<lparr>grpc_at := Gr_start, main_at := At_maintenance\<rparr>)"
| ms_maintenance: "main_at s = At_maintenance \<Longrightarrow>
     main_step conf s (s\<lparr>ch_running := True, ch_at := Ch_test, main_at := At_join\<rparr>)"
| ms_joined: "main_at s = At_join \<Longrightarrow> metrics_at s = Mt_ended \<Longrightarrow> main_step conf s (s\<lparr>main_at := At_stop_maintenance\<rparr>)"
| ms_stop: "main_at s = At_stop_maintenance \<Longrightarrow>
     main_step conf s (s\<lparr>ch_running := False, main_at := At_join_maintenance\<rparr>)"
| ms_ended: "main_at s = At_join_maintenance \<Longrightarrow> ch_at s = Ch_ended \<Longrightarrow> main_step conf s (s\<lparr>main_at := At_return\<rparr>)"
| ms_return: "main_at s = At_return \<Longrightarrow>
     main_step conf s (s\<lparr>grpc_at := Gr_ended, p_server := Stop (p_server s), main_at := Main_returned\<rparr>)"

text \<open>\<open>m_server = builder.BuildAndStart(); m_server->Wait();\<close>\<close>

inductive grpc_step :: "'r process \<Rightarrow> 'r process \<Rightarrow> bool" where
  gr_up: "grpc_at s = Gr_start \<Longrightarrow> grpc_step s (s\<lparr>grpc_at := Gr_wait\<rparr>)"
| gr_null: "grpc_at s = Gr_start \<Longrightarrow> grpc_step s (s\<lparr>grpc_at := Gr_undefined\<rparr>)"

inductive metrics_step :: "('r, 'm) double_ops_scheme \<Rightarrow> nat \<Rightarrow> 'r process \<Rightarrow> 'r process \<Rightarrow> bool" for ops cpus where
  mt_test: "metrics_at s = Mt_test \<Longrightarrow>
     metrics_step ops cpus s (s\<lparr>metrics_at := if m_running (p_server s) then Mt_backends else Mt_ended\<rparr>)"
| mt_backends: "metrics_at s = Mt_backends \<Longrightarrow>
     metrics_step ops cpus s (s\<lparr>metrics_at := Mt_services t (GetBackendsCurrentMetrics cpus (p_dataplane s))\<rparr>)"
| mt_services: "metrics_at s = Mt_services t bs \<Longrightarrow>
     metrics_step ops cpus s (s\<lparr>metrics_at := Mt_ddos t bs (GetServicesCurrentMetrics cpus (p_dataplane s))\<rparr>)"
| mt_ddos: "metrics_at s = Mt_ddos t bs ss \<Longrightarrow> GetDdosStats (p_dataplane s) = Some ds \<Longrightarrow>
     metrics_step ops cpus s (s\<lparr>p_server := scrapMetrics ops
         \<lparr>now = t, currentBackendMetrics = bs, currentServiceMetrics = ss, ddos = ds\<rparr> (p_server s), metrics_at := Mt_sleep\<rparr>)"
| mt_wake: "metrics_at s = Mt_sleep \<Longrightarrow> metrics_step ops cpus s (s\<lparr>metrics_at := Mt_test\<rparr>)"

text \<open>The maintenance thread waits at \<open>Ch_work\<close> while a reload publishes a service.\<close>

inductive maintenance_step :: "'r process \<Rightarrow> 'r process \<Rightarrow> bool" where
  ch_test: "ch_at s = Ch_test \<Longrightarrow>
     maintenance_step s (s\<lparr>ch_at := if ch_running s then Ch_sleep else Ch_ended\<rparr>)"
| ch_wake: "ch_at s = Ch_sleep \<Longrightarrow> maintenance_step s (s\<lparr>ch_at := Ch_work\<rparr>)"
| ch_work: "ch_at s = Ch_work \<Longrightarrow> \<not> reload_holds (p_reload s) \<Longrightarrow> begin_maintenance (p_dataplane s) = (ws, e) \<Longrightarrow>
     maintenance_step s (s\<lparr>p_dataplane := e, p_pending := ws, ch_at := Ch_publish\<rparr>)"
| ch_publish: "ch_at s = Ch_publish \<Longrightarrow> p_pending s \<noteq> [] \<Longrightarrow> publish_next (p_pending s, kernel (p_dataplane s)) = (ws, st) \<Longrightarrow>
     maintenance_step s (s\<lparr>p_dataplane := (p_dataplane s)\<lparr>kernel := st\<rparr>, p_pending := ws\<rparr>)"
| ch_done: "ch_at s = Ch_publish \<Longrightarrow> p_pending s = [] \<Longrightarrow> maintenance_step s (s\<lparr>ch_at := Ch_test\<rparr>)"

text \<open>The requests that change something; those that only read leave the process as it is.\<close>

inductive request_step :: "'r process \<Rightarrow> 'r process \<Rightarrow> bool" where
  rq_update: "grpc_at s = Gr_wait \<Longrightarrow> p_reload s = None \<Longrightarrow>
     rpc_UpdateConfig (Some asks) uninit_port request (p_manager s, None) = (response, m, c) \<Longrightarrow>
     request_step s (s\<lparr>p_manager := m, p_reload := starting c\<rparr>)"
| rq_status: "grpc_at s = Gr_wait \<Longrightarrow> p_reload s = None \<Longrightarrow>
     rpc_SetBackendStatus (Some asks) status_request (p_manager s, None) = Some (status_response, m, c) \<Longrightarrow>
     request_step s (s\<lparr>p_manager := m, p_reload := starting c\<rparr>)"

inductive reload_step :: "host \<Rightarrow> 'r process \<Rightarrow> 'r process \<Rightarrow> bool" for h where
  rl_call: "p_reload s = Some (conf, p) \<Longrightarrow> \<not> returned p \<Longrightarrow> \<not> takes_lock p \<or> p_pending s = [] \<Longrightarrow> reload_next h conf (p, p_dataplane s) = (q, e) \<Longrightarrow>
     reload_step h s (s\<lparr>p_dataplane := e, p_reload := Some (conf, q)\<rparr>)"
| rl_return: "p_reload s = Some (conf, Rl_returned r) \<Longrightarrow> comes_back r \<Longrightarrow> reload_step h s (s\<lparr>p_reload := None\<rparr>)"

inductive process_step ::
    "host \<Rightarrow> ('r, 'm) double_ops_scheme \<Rightarrow> nat \<Rightarrow> base_config \<Rightarrow> 'r process \<Rightarrow> 'r process \<Rightarrow> bool"
  for h ops cpus conf where
  ps_main: "main_step conf s t \<Longrightarrow> process_step h ops cpus conf s t"
| ps_grpc: "grpc_step s t \<Longrightarrow> process_step h ops cpus conf s t"
| ps_metrics: "metrics_step ops cpus s t \<Longrightarrow> process_step h ops cpus conf s t"
| ps_maintenance: "maintenance_step s t \<Longrightarrow> process_step h ops cpus conf s t"
| ps_request: "request_step s t \<Longrightarrow> process_step h ops cpus conf s t"
| ps_reload: "reload_step h s t \<Longrightarrow> process_step h ops cpus conf s t"
| ps_packet: "xdp_step (kernel (p_dataplane s)) st \<Longrightarrow>
     process_step h ops cpus conf s (s\<lparr>p_dataplane := (p_dataplane s)\<lparr>kernel := st\<rparr>\<rparr>)"

text \<open>The states of a process whose \<open>main\<close> has the configuration \<open>conf\<close> and the loaded program \<open>l\<close>.\<close>

inductive process_reachable ::
    "host \<Rightarrow> ('r, 'm) double_ops_scheme \<Rightarrow> nat \<Rightarrow> base_config \<Rightarrow> loader \<Rightarrow> 'r process \<Rightarrow> bool"
  for h ops cpus conf l where
  pr_start: "process_reachable h ops cpus conf l (loading_process l)"
| pr_step: "process_reachable h ops cpus conf l s \<Longrightarrow> grpc_at s \<noteq> Gr_undefined \<Longrightarrow> process_step h ops cpus conf s t \<Longrightarrow>
     process_reachable h ops cpus conf l t"

subsection \<open>Where the threads can be\<close>

definition up_to_join :: "main_point \<Rightarrow> bool" where
  "up_to_join p \<longleftrightarrow> p \<in> {At_load, At_loading, At_serve, At_grpc, At_maintenance, At_join}"

definition before_serving :: "main_point \<Rightarrow> bool" where
  "before_serving p \<longleftrightarrow> p \<in> {At_load, At_loading, At_serve}"

definition threads_inv :: "'r process \<Rightarrow> bool" where
  "threads_inv s \<longleftrightarrow> up_to_join (main_at s)
     \<and> (metrics_at s = Mt_none \<longleftrightarrow> before_serving (main_at s)) \<and> metrics_at s \<noteq> Mt_ended
     \<and> (before_serving (main_at s) \<or> m_running (p_server s))
     \<and> (ch_at s = Ch_none \<longleftrightarrow> main_at s \<noteq> At_join) \<and> ch_at s \<noteq> Ch_ended
     \<and> (main_at s = At_join \<longrightarrow> ch_running s)
     \<and> (ch_at s = Ch_publish \<or> p_pending s = [])
     \<and> (main_at s = At_load \<longrightarrow> p_reload s = None)
     \<and> (grpc_at s \<noteq> Gr_none \<longrightarrow> main_at s = At_maintenance \<or> main_at s = At_join)"

lemmas threads_defs = threads_inv_def up_to_join_def before_serving_def

lemma scrapMetrics_running: "m_running (scrapMetrics ops x s) = m_running s"
  by (simp add: scrapMetrics_def Let_def)

lemma threads_inv_step:
  assumes "process_step h ops cpus conf s t" "threads_inv s"
  shows "threads_inv t"
  using assms(1)
proof cases
  case ps_main
  then show ?thesis by cases (use assms(2) in \<open>auto simp: threads_defs Serve_def\<close>)
next
  case ps_grpc
  then show ?thesis by cases (use assms(2) in \<open>auto simp: threads_defs\<close>)
next
  case ps_metrics
  then show ?thesis by cases (use assms(2) in \<open>auto simp: threads_defs scrapMetrics_running\<close>)
next
  case ps_maintenance
  then have "ch_at s \<noteq> Ch_none" by cases simp_all
  then have main: "main_at s = At_join" using assms(2) by (simp add: threads_inv_def)
  from ps_maintenance show ?thesis by cases (use assms(2) main in \<open>simp_all add: threads_defs\<close>)
next
  case ps_request
  then have "grpc_at s = Gr_wait" by cases
  then have "main_at s \<noteq> At_load" using assms(2) by (auto simp: threads_inv_def)
  with ps_request show ?thesis by cases (use assms(2) in \<open>simp_all add: threads_inv_def\<close>)
next
  case ps_reload
  then show ?thesis by cases (use assms(2) in \<open>auto simp: threads_defs\<close>)
qed (use assms(2) in \<open>simp add: threads_inv_def\<close>)

lemma process_threads: "process_reachable h ops cpus conf l s \<Longrightarrow> threads_inv s"
proof (induction rule: process_reachable.induct)
  case pr_start
  then show ?case by (simp add: loading_process_def threads_defs)
next
  case (pr_step s t)
  then show ?case by (blast intro: threads_inv_step)
qed

subsection \<open>What it shares is the concurrent system\<close>

definition shared :: "'r process \<Rightarrow> concurrent_system" where
  "shared s = (p_manager s, p_dataplane s, p_reload s, p_pending s)"

lemma rpc_UpdateConfig_asks:
  "rpc_UpdateConfig (Some asks) uninit_port request (m, None) = (response, m', c) \<Longrightarrow>
     concurrent_step h (m, d, None, ws) (m', d, starting c, ws) \<or> (m', starting c) = (m, None)"
  by (auto simp: rpc_UpdateConfig_def starting_def split: prod.splits if_splits
      intro: con_load [unfolded starting_def])

lemma rpc_SetBackendStatus_asks:
  "rpc_SetBackendStatus (Some asks) request (m, None) = Some (response, m', c) \<Longrightarrow>
     concurrent_step h (m, d, None, ws) (m', d, starting c, ws) \<or> (m', starting c) = (m, None)"
  by (auto simp: rpc_SetBackendStatus_def starting_def Let_def split: prod.splits if_splits option.splits
      intro: con_set [unfolded starting_def])

lemma process_step_shared:
  assumes "process_step h ops cpus conf s t" "threads_inv s"
  shows "concurrent_step h (shared s) (shared t) \<or> shared t = shared s"
  using assms(1)
proof cases
  case ps_main
  then show ?thesis
  proof cases
    case (ms_load m c)
    then show ?thesis
      using con_load [OF ms_load(3), of h "p_dataplane s" "p_pending s"] assms(2) by (simp add: shared_def threads_inv_def)
  qed (simp_all add: shared_def)
next
  case ps_grpc
  then show ?thesis by cases (simp_all add: shared_def)
next
  case ps_metrics
  then show ?thesis by cases (simp_all add: shared_def)
next
  case ps_maintenance
  then show ?thesis
  proof cases
    case (ch_work ws e)
    then show ?thesis using con_maintain [OF ch_work(3,4), of h "p_manager s"] assms(2) by (simp add: shared_def threads_inv_def)
  next
    case (ch_publish ws st)
    then show ?thesis using con_publish [OF ch_publish(3,4), of h "p_manager s" "p_reload s"] by (simp add: shared_def)
  qed (simp_all add: shared_def)
next
  case ps_request
  then show ?thesis
  proof cases
    case rq_update
    then show ?thesis using rpc_UpdateConfig_asks [of _ _ "p_manager s" _ _ _ h "p_dataplane s" "p_pending s"] by (simp add: shared_def)
  next
    case rq_status
    then show ?thesis using rpc_SetBackendStatus_asks [of _ "p_manager s" _ _ _ h "p_dataplane s" "p_pending s"] by (simp add: shared_def)
  qed
next
  case ps_reload
  then show ?thesis by cases (simp_all add: shared_def con_call con_return)
qed (simp add: shared_def con_packet)

lemma process_shared_reachable: "process_reachable h ops cpus conf l s \<Longrightarrow> concurrent_reachable h (shared s)"
proof (induction rule: process_reachable.induct)
  case pr_start
  then show ?case using con_start [of h "isValidBpfState l"] by (simp add: shared_def loading_process_def dataplane_of_def)
next
  case (pr_step s t)
  then show ?case using process_step_shared [OF pr_step.hyps(3)] process_threads con_next by metis
qed

subsection \<open>A configuration is there once it has been loaded\<close>

lemma SetRealState_config:
  assumes "SetRealState reload request (m, d) = (err, m', d')" "m_currConfig m' = None"
  shows "m_currConfig m = None"
proof (rule ccontr)
  assume "m_currConfig m \<noteq> None"
  then obtain conf where "m_currConfig m = Some conf" by blast
  then show False using assms by (auto simp: SetRealState_def Let_def split: option.splits)
qed

lemma rpc_UpdateConfig_config:
  "rpc_UpdateConfig reload uninit_port request (m, d) = (response, m', d') \<Longrightarrow> m_currConfig m' = None \<Longrightarrow> m_currConfig m = None"
  by (auto simp: rpc_UpdateConfig_def LoadConfig_def call_reload_def split: prod.splits if_splits option.splits)

lemma rpc_SetBackendStatus_config:
  assumes "rpc_SetBackendStatus reload request (m, d) = Some (response, m', d')" "m_currConfig m' = None"
  shows "m_currConfig m = None"
  using assms SetRealState_config [of reload _ m d]
  by (force simp: rpc_SetBackendStatus_def Let_def split: option.splits if_splits prod.splits)

lemma process_step_config:
  assumes "process_step h ops cpus conf s t" "m_currConfig (p_manager t) = None"
    and "m_currConfig (p_manager s) = None \<Longrightarrow> main_at s = At_load"
  shows "main_at t = At_load"
  using assms(1)
proof cases
  case ps_main
  then show ?thesis by cases (use assms(2,3) in \<open>simp_all add: LoadConfig_def\<close>, auto)
next
  case ps_grpc
  then show ?thesis by cases (use assms(2,3) in simp_all)
next
  case ps_metrics
  then show ?thesis by cases (use assms(2,3) in simp_all)
next
  case ps_maintenance
  then show ?thesis by cases (use assms(2,3) in simp_all)
next
  case ps_request
  then show ?thesis
  proof cases
    case rq_update
    then show ?thesis using rpc_UpdateConfig_config [OF rq_update(4)] assms(2,3) by simp
  next
    case rq_status
    then show ?thesis using rpc_SetBackendStatus_config [OF rq_status(4)] assms(2,3) by simp
  qed
next
  case ps_reload
  then show ?thesis by cases (use assms(2,3) in simp_all)
qed (use assms(2,3) in simp)

lemma process_config:
  "process_reachable h ops cpus conf l s \<Longrightarrow> m_currConfig (p_manager s) = None \<Longrightarrow> main_at s = At_load"
proof (induction rule: process_reachable.induct)
  case (pr_step s t)
  then show ?case using process_step_config [OF pr_step.hyps(3)] by simp
qed (simp add: loading_process_def)

subsection \<open>Undisturbed, it comes to serving\<close>

text \<open>Where nothing comes in between, \<open>main\<close> gets to serving with the manager and the data plane that \<open>main_program\<close> gives.\<close>

definition serving_process :: "config_manager \<times> xdp_dataplane \<Rightarrow> int \<Rightarrow> 'r process" where
  "serving_process md start =
     \<lparr>main_at = At_serve, metrics_at = Mt_none, ch_at = Ch_none, ch_running = False, grpc_at = Gr_none,
      p_server = new_server start, p_manager = fst md, p_dataplane = snd md, p_reload = None, p_pending = []\<rparr>"

lemma process_reload_alone:
  "runs_alone h c s t \<Longrightarrow> grpc_at p \<noteq> Gr_undefined \<Longrightarrow> process_reachable h ops cpus conf l (p\<lparr>p_pending := [], p_dataplane := snd s, p_reload := Some (c, fst s)\<rparr>) \<Longrightarrow>
     process_reachable h ops cpus conf l (p\<lparr>p_pending := [], p_dataplane := snd t, p_reload := Some (c, fst t)\<rparr>)"
proof (induction rule: runs_alone.induct)
  case (alone_step s t)
  let ?p = "p\<lparr>p_pending := [], p_dataplane := snd s, p_reload := Some (c, fst s)\<rparr>"
  have "reload_step h ?p (?p\<lparr>p_dataplane := snd (reload_next h c s), p_reload := Some (c, fst (reload_next h c s))\<rparr>)"
    using alone_step.hyps(1) by (intro rl_call [of _ c "fst s"]) simp_all
  from alone_step.IH alone_step.prems(1) pr_step [OF alone_step.prems(2) _ ps_reload [OF this]] show ?case by simp
qed simp

lemma serving_reached:
  assumes "main_program h b files api args = Serving md l"
  obtains conf where "m_currConfig (fst md) = Some conf"
    "\<And>ops cpus start. process_reachable h ops cpus conf l (serving_process md start)"
proof -
  obtain conf where load: "md = LoadConfig (Some (ReloadConfig h)) conf (\<lparr>m_currConfig = None\<rparr>, dataplane_of l)"
      "comes_back (fst (ReloadConfig h conf (dataplane_of l)))"
    by (rule main_serving [OF assms])
  then have md: "md = (\<lparr>m_currConfig = Some conf\<rparr>, snd (ReloadConfig h conf (dataplane_of l)))"
    by (auto simp: LoadConfig_def call_reload_def)
  obtain r e where r: "ReloadConfig h conf (dataplane_of l) = (r, e)" by (rule prod.exhaust)
  have "process_reachable h ops cpus conf l (serving_process md start)" for ops cpus start
  proof -
    let ?p = "(loading_process l)\<lparr>p_manager := \<lparr>m_currConfig = Some conf\<rparr>, main_at := At_loading\<rparr>"
    let ?at = "\<lambda>p d. ?p\<lparr>p_pending := [], p_dataplane := d, p_reload := Some (conf, p)\<rparr>"
    have "main_step conf (loading_process l) (?at Rl_prepare (dataplane_of l))"
      using ms_load [of "loading_process l" conf] by (simp add: loading_process_def LoadConfig_def call_reload_def asks_def starting_def)
    from pr_step [OF pr_start _ ps_main [OF this]]
    have "process_reachable h ops cpus conf l (?at Rl_prepare (dataplane_of l))" by (simp add: loading_process_def)
    moreover have "grpc_at ?p \<noteq> Gr_undefined" by (simp add: loading_process_def)
    moreover have "runs_alone h conf (Rl_prepare, dataplane_of l) (Rl_returned r, e)" using r by (simp add: runs_alone_exact)
    ultimately have ret: "process_reachable h ops cpus conf l (?at (Rl_returned r) e)"
      using process_reload_alone [where p = ?p and s = "(Rl_prepare, dataplane_of l)" and t = "(Rl_returned r, e)"] by simp
    have "reload_step h (?at (Rl_returned r) e) ((?at (Rl_returned r) e)\<lparr>p_reload := None\<rparr>)"
      by (rule rl_return) (use load(2) r in simp_all)
    from pr_step [OF pr_step [OF ret _ ps_reload [OF this]] _ ps_main [OF ms_loaded [of _ conf start]]]
    show ?thesis by (simp add: loading_process_def serving_process_def md r)
  qed
  then show ?thesis by (rule that [rotated]) (simp add: md)
qed

subsection \<open>Who waits for whom\<close>

lemma reload_goes_on:
  assumes "p_reload s = Some (c, p)" "\<not> takes_lock p \<or> p_pending s = []"
  shows "(\<exists>t. reload_step h s t) \<or> (\<exists>r. p = Rl_returned r \<and> \<not> comes_back r)"
proof (cases "returned p")
  case True
  then obtain r where "p = Rl_returned r" by (cases p) simp_all
  then show ?thesis using assms(1) rl_return by blast
next
  case False
  then show ?thesis using rl_call [OF assms(1) False assms(2) surjective_pairing] by blast
qed

lemma publisher_goes_on: "threads_inv s \<Longrightarrow> p_pending s \<noteq> [] \<Longrightarrow> \<exists>t. maintenance_step s t"
  using ch_publish [OF _ _ surjective_pairing, of s] by (auto simp: threads_inv_def)

lemma maintenance_goes_on:
  assumes "threads_inv s" "main_at s = At_join"
  shows "(\<exists>t. maintenance_step s t) \<or> ch_at s = Ch_work \<and> reload_holds (p_reload s) \<and> (\<exists>t. reload_step h s t)"
proof (cases "ch_at s")
  case Ch_work
  show ?thesis
  proof (cases "reload_holds (p_reload s)")
    case True
    then obtain c p where p: "p_reload s = Some (c, p)" "holds_lock p" by (auto simp: reload_holds_def split: option.splits)
    then have "\<not> takes_lock p" "\<not> returned p" by (cases p; simp)+
    then show ?thesis using reload_goes_on [OF p(1)] Ch_work True by fastforce
  qed (use Ch_work ch_work [OF _ _ surjective_pairing] in blast)
next
  case Ch_publish
  then show ?thesis using publisher_goes_on [OF assms(1)] ch_done by blast
qed (use assms in \<open>auto simp: threads_inv_def intro: maintenance_step.intros\<close>)

text \<open>A reload that is stuck stays so, and \<open>main\<close> with it when it is the first one.\<close>

lemma stuck_stays:
  assumes "process_step h ops cpus conf s t" "p_reload s = Some (c, Rl_returned r)" "\<not> comes_back r" "threads_inv s"
  shows "p_reload t = p_reload s \<and> (main_at s = At_loading \<longrightarrow> main_at t = At_loading)"
  using assms(1)
proof cases
  case ps_main
  then show ?thesis by cases (use assms(2-4) in \<open>auto simp: threads_inv_def\<close>)
next
  case ps_grpc
  then show ?thesis by cases simp_all
next
  case ps_metrics
  then show ?thesis by cases simp_all
next
  case ps_maintenance
  then show ?thesis by cases simp_all
next
  case ps_request
  then show ?thesis by cases (use assms(2) in simp_all)
next
  case ps_reload
  then show ?thesis by cases (use assms(2,3) in auto)
qed simp

subsection \<open>The query of the scraping thread returns\<close>

lemma GetDdosStats_returns:
  assumes "maps_ok (kernel d)"
  shows "\<exists>ds. GetDdosStats d = Some ds"
proof -
  have "distinct (map fst (blacklist (kernel d)))" using assms by (simp add: maps_ok_def hash_ok_def)
  then show ?thesis by (simp add: GetDdosStats_def count_keys_length Let_def)
qed

end
