(* ===== verification/Reload_Capacity.thy ===== *)
theory Reload_Capacity
  imports Reload_Progress
begin

section \<open>When the maps are full\<close>

text \<open>
  Nothing ever deletes a key from the service maps or from the map of round-robin cursors, and
  each takes 256. The keys of all configurations add up until a reload finds no room.
\<close>

lemma hash_batch_done:
  "hash_batch n kvs m = (True, m') \<Longrightarrow> hash_ok n m \<Longrightarrow> hash_ok n m' \<and> fst ` set m' = fst ` set m \<union> fst ` set kvs"
proof (induction kvs arbitrary: m)
  case (Cons kv kvs)
  obtain k v where kv: "kv = (k, v)" by (rule prod.exhaust)
  obtain m1 where u: "hash_update n m k v = (True, m1)" "hash_batch n kvs m1 = (True, m')"
    using Cons.prems(1) by (auto simp: kv split: prod.splits bool.splits)
  have "fst ` set m1 = insert k (fst ` set m)"
    unfolding session_keys using hash_update_lookup [OF u(1)] by auto
  then show ?case using Cons.IH [OF u(2) hash_ok_update [OF Cons.prems(2) u(1)]] by (simp add: kv)
qed simp

lemma hash_batch_not_done:
  "hash_batch n kvs m = (False, m') \<Longrightarrow> \<exists>k \<in> fst ` set kvs. hash_lookup m' k = None"
proof (induction kvs arbitrary: m)
  case (Cons kv kvs)
  obtain k v where kv: "kv = (k, v)" by (rule prod.exhaust)
  show ?case
  proof (cases "hash_update n m k v")
    case (Pair r m1)
    then show ?thesis using Cons
      by (cases r) (auto simp: kv hash_update_def hash_lookup_def split: if_splits)
  qed
qed simp

lemma hash_ok_card: "hash_ok n m \<Longrightarrow> card (fst ` set m) \<le> n"
  by (metis card_length dual_order.trans hash_ok_def length_map list.set_map)

lemma hash_batch_full:
  assumes "hash_ok n m" "n < card (fst ` set kvs \<union> fst ` set m)"
  shows "\<not> fst (hash_batch n kvs m)"
proof
  assume "fst (hash_batch n kvs m)"
  then obtain m' where "hash_batch n kvs m = (True, m')" by (cases "hash_batch n kvs m") simp
  then have "hash_ok n m'" "fst ` set m' = fst ` set kvs \<union> fst ` set m"
    using hash_batch_done [OF _ assms(1)] by auto
  then show False using hash_ok_card [of n m'] assms(2) by simp
qed

subsection \<open>Round-robin cursors\<close>

text \<open>A service without a cursor gives no backend.\<close>

lemma rr_without_cursor:
  assumes info: "hash_lookup (services_map st (atomic_index st 0)) key = Some info" "algorithm info = BALANCER_RR"
    and none: "hash_lookup (rr_index st) key = None" and syn: "pure_syn tcp"
  shows "fst (find_tcp_backend env sk key tcp len st) = None"
proof -
  have "tcp_schedule env sk key len bm info l st = (None, l, st)" for bm l
    using info(2) none by (simp add: tcp_schedule_def pick_loop.simps [of _ 0] rr_balancer_handle_def)
  then show ?thesis
    using info(1) syn by (simp add: find_tcp_backend_def array_lookup_def new_session_phase_def tcp_start_def)
qed

lemma reload_rr_full:
  assumes ok: "dataplane_ok d" "maps_opened d" "index_ok d" "rest_of_index h = 0" and fits: "fits h config d"
    and full: "MAX_SERVICES < card (the_key h ` set (services config) \<union> fst ` set (rr_index (kernel d)))"
  obtains e s where "ReloadConfig h config d = (Some Rr_update_failed, e)" "serves h (services config) (kernel e)"
    "s \<in> set (services config)" "hash_lookup (rr_index (kernel e)) (the_key h s) = None"
proof -
  have maps: "maps_ok (kernel d)" using ok(1) by (simp add: dataplane_ok_def)
  have idx: "standby d = 0 \<or> standby d = 1" using ok(3) by (auto simp: index_ok_def)
  obtain e where e: "ReloadConfig h config d = after_switch h config e" "serves h (services config) (kernel e)"
      "rr_index (kernel e) = rr_index (kernel d)" "m_xdpKeys e = map (the_key h) (services config)"
    by (rule ReloadConfig_switches [OF ok(2) maps idx ok(4) fits])
  let ?kvs = "map (\<lambda>k. (k, 0 :: u32)) (m_xdpKeys e)"
  have keys: "fst ` set ?kvs = the_key h ` set (services config)" by (auto simp: e(4) image_iff)
  have "hash_ok MAX_SERVICES (rr_index (kernel e))" using maps by (simp add: e(3) maps_ok_def)
  then have "\<not> fst (hash_batch MAX_SERVICES ?kvs (rr_index (kernel e)))"
    by (rule hash_batch_full) (use full in \<open>simp only: keys e(3)\<close>)
  then obtain m where m: "hash_batch MAX_SERVICES ?kvs (rr_index (kernel e)) = (False, m)"
    by (metis (full_types) prod.collapse)
  then obtain s where s: "s \<in> set (services config)" "hash_lookup m (the_key h s) = None"
    using hash_batch_not_done [OF m] by (auto simp: e(4))
  have "ReloadConfig h config d = (Some Rr_update_failed, in_kernel (\<lambda>st. st\<lparr>rr_index := m\<rparr>) e)"
    unfolding e(1) by (simp add: after_switch_def and_then_def reset_rr_def m)
  moreover have "serves h (services config) (kernel (in_kernel (\<lambda>st. st\<lparr>rr_index := m\<rparr>) e))"
    using e(2) by (subst serves_view [of _ "kernel e"]) (simp_all add: in_kernel_def config_view_def)
  ultimately show ?thesis using that s by (simp add: in_kernel_def)
qed

subsection \<open>Services\<close>

lemma load_services_full:
  assumes "hash_ok MAX_SERVICES (services_map (kernel d) (other_half i))"
    and "MAX_SERVICES < card (fst ` set (zip (m_xdpKeys d) (m_xdpServices d)) \<union> fst ` set (services_map (kernel d) (other_half i)))"
  obtains m where "load_services i d = (Some Services_update_failed, in_kernel (half_services i m) d)"
proof -
  obtain m where m: "hash_batch MAX_SERVICES (zip (m_xdpKeys d) (m_xdpServices d)) (services_map (kernel d) (other_half i)) = (False, m)"
    using hash_batch_full [OF assms] by (metis (full_types) prod.collapse)
  show ?thesis
    by (rule that [of m], cases "i = 0") (use m in \<open>simp_all add: load_services_def half_defs services_map_def in_kernel_def\<close>)
qed

lemma reload_services_full:
  assumes ok: "dataplane_ok d" "maps_opened d" "index_ok d" "rest_of_index h = 0"
    and res: "\<forall>s \<in> set (services config). resolves h s" "length (config_backends h (services config)) \<le> MAX_BACKENDS"
    and full: "MAX_SERVICES < card (the_key h ` set (services config) \<union> fst ` set (standby_services d))"
  obtains e where "ReloadConfig h config d = (Some Services_update_failed, e)"
    "active_config (kernel e) = active_config (kernel d)"
proof -
  let ?i = "standby d" and ?ss = "services config"
  define d1 where "d1 = d\<lparr>dp_currConfig := config, m_xdpBackends := config_backends h ?ss,
     m_xdpKeys := map (the_key h) ?ss, m_xdpServices := config_infos ?ss 0 0\<rparr>"
  define d2 where "d2 = (snd (load_ddos config d1))\<lparr>m_isFirstRun := False\<rparr>"
  note ddos = load_ddos_view [of config d1]
  have d1: "switch_view d1 = (config_view (kernel d), True, m_isFirstRun d, config_backends h ?ss, map (the_key h) ?ss, config_infos ?ss 0 0)"
    using ok(2) by (simp add: switch_view_def d1_def)
  have standby: "standby (snd (load_ddos config d1)) = ?i"
    using switch_view_fields(6) [OF ddos(2)] by (simp add: d1_def standby_def)
  have d2: "config_view (kernel d2) = config_view (kernel d)" "m_xdpBackends d2 = config_backends h ?ss"
      "m_xdpKeys d2 = map (the_key h) ?ss" "m_xdpServices d2 = config_infos ?ss 0 0"
    using ddos(2) d1 by (simp_all add: d2_def switch_view_def)
  obtain bm where b: "load_backends ?i d2 = (None, in_kernel (half_backends ?i bm) d2)"
    by (rule load_backends_fits [OF d2(2) res(2)])
  define d3 where "d3 = in_kernel (half_backends ?i bm) d2"
  have d3: "services_map (kernel d3) (other_half ?i) = standby_services d" "m_xdpKeys d3 = map (the_key h) ?ss"
      "m_xdpServices d3 = config_infos ?ss 0 0"
    using d2 config_view_fields(1) [OF d2(1)] by (simp_all add: d3_def in_kernel_def standby_services_half)
  have "hash_ok MAX_SERVICES (standby_services d)"
    using ok(1) by (simp add: dataplane_ok_def maps_ok_def standby_services_def)
  moreover have "fst ` set (zip (map (the_key h) ?ss) (config_infos ?ss 0 0)) = the_key h ` set ?ss"
    by (metis length_config_infos length_map list.set_map map_fst_zip)
  ultimately obtain m where s: "load_services ?i d3 = (Some Services_update_failed, in_kernel (half_services ?i m) d3)"
    using load_services_full [of d3 ?i] full unfolding d3 by metis
  have run: "ReloadConfig h config d = (Some Services_update_failed, in_kernel (half_services ?i m) d3)"
    using ok(2) ddos(1)
    by (simp add: ReloadConfig_def prepare_resolved [OF res(1)] d1_def [symmetric] and_then_def split_beta write_config_def
        read_index_standby standby d2_def [symmetric] load_half_def b d3_def [symmetric] s)
  have "active_config (kernel d2) = active_config (kernel d)" "atomic_index (kernel d2) = atomic_index (kernel d)"
    using config_view_fields [OF d2(1)] by (simp_all add: active_config_def)
  then have "active_config (kernel (in_kernel (half_services ?i m) d3)) = active_config (kernel d)"
    using active_config_half [OF ok(3) refl] by (simp add: d3_def in_kernel_def)
  with run show ?thesis using that by blast
qed

end
