(* ===== verification/Scheduler_Fairness.thy ===== *)
theory Scheduler_Fairness
  imports Schedulers "HOL-Library.Multiset"
begin

section \<open>What the schedulers promise over many packets\<close>

text \<open>
  Sequences of consecutive picks for one service with an unchanged configuration: round robin
  visits the backends in cyclic order, each exactly once per cycle; weighted round robin gives
  every usable backend exactly \<open>weight\<close> consecutive picks per cycle. The last section says
  what the bounded retry loop makes of inactive backends.
\<close>

fun run_picks ::
    "(u32 \<Rightarrow> xdp_maps \<Rightarrow> pick_result) \<Rightarrow> nat \<Rightarrow> u32 \<Rightarrow> xdp_maps \<Rightarrow> (backend option \<times> nat) list \<times> xdp_maps" where
  "run_picks pick 0 l st = ([], st)"
| "run_picks pick (Suc k) l st =
     (let (b, i, st) = pick l st; (bs, st) = run_picks pick k l st in ((b, unat i) # bs, st))"

lemma run_picks_add:
  "run_picks pick (a + b) l st =
     (let (xs, st1) = run_picks pick a l st; (ys, st2) = run_picks pick b l st1 in (xs @ ys, st2))"
  by (induction a arbitrary: st) (auto split: prod.splits)

abbreviation (input) n_backends :: "service_info \<Rightarrow> nat" where
  "n_backends info \<equiv> unat (backend_count info)"

abbreviation (input) start_of :: "service_info \<Rightarrow> nat" where
  "start_of info \<equiv> unat (backend_start_idx info)"

subsection \<open>Round robin\<close>

definition rr_at :: "service_key \<Rightarrow> nat \<Rightarrow> xdp_maps \<Rightarrow> bool" where
  "rr_at key c st \<longleftrightarrow> (case hash_lookup (rr_index st) key of None \<Rightarrow> False | Some cur \<Rightarrow> unat cur = c)"

definition rr_next :: "service_info \<Rightarrow> nat \<Rightarrow> nat" where
  "rr_next info c = (c + 1) mod n_backends info"

lemma rr_next_lt: "info_ok info \<Longrightarrow> rr_next info c < n_backends info"
  by (simp add: rr_next_def info_ok_def)

lemma info_ok_bound: "info_ok info \<Longrightarrow> i < n_backends info \<Longrightarrow> start_of info + i < 1024"
  by (simp add: info_ok_def max_defs)

lemma rr_new_index:
  assumes "info_ok info" and "unat cur < n_backends info"
  shows "unat (if cur + 1 \<ge> backend_count info then 0 else cur + 1) = rr_next info (unat cur)"
proof -
  have "unat (cur + 1) = unat cur + 1"
    using assms by (intro unat_plus_one) (simp add: info_ok_def max_defs)
  then show ?thesis using assms(2)
    by (auto simp: rr_next_def word_le_nat_alt mod_if)
qed

lemma rr_pick:
  assumes ok: "info_ok info" and at: "rr_at key c st" and c: "c < n_backends info"
  obtains i st' where
    "rr_balancer_handle bm info key l st = (Some (bm (start_of info + rr_next info c)), i, st')"
    "unat i = start_of info + rr_next info c" "rr_at key (rr_next info c) st'"
proof -
  from at obtain cur where cur: "hash_lookup (rr_index st) key = Some cur" "unat cur = c"
    by (auto simp: rr_at_def split: option.splits)
  define new where "new = (if cur + 1 \<ge> backend_count info then 0 else cur + 1)"
  have new: "unat new = rr_next info c"
    using rr_new_index [OF ok] c cur(2) by (simp add: new_def)
  then have idx: "unat (backend_start_idx info + new) = start_of info + rr_next info c"
    using rr_next_in_service(2) [OF ok] rr_next_lt [OF ok] by simp
  have look: "array_lookup MAX_BACKENDS bm (backend_start_idx info + new) =
      Some (bm (start_of info + rr_next info c))"
    using idx info_ok_bound [OF ok rr_next_lt [OF ok]] by (simp add: array_lookup_def max_defs)
  let ?st' = "st\<lparr>rr_index := snd (hash_update MAX_SERVICES (rr_index st) key new)\<rparr>"
  have "rr_balancer_handle bm info key l st =
      (Some (bm (start_of info + rr_next info c)), backend_start_idx info + new, ?st')"
    using cur(1) look by (simp add: rr_balancer_handle_def new_def Let_def)
  moreover have "rr_at key (rr_next info c) ?st'"
    using cur(1) new hash_update_present [of "rr_index st" key MAX_SERVICES new]
      hash_update_lookup [OF prod.collapse [symmetric], of MAX_SERVICES "rr_index st" key new key]
    by (simp add: rr_at_def)
  ultimately show ?thesis using idx that by blast
qed

lemma rr_next_iter: "((c + 1) mod n + 1 + j) mod n = (c + 1 + Suc j) mod (n :: nat)"
  by (metis add.assoc add_Suc_right mod_add_left_eq plus_1_eq_Suc)

lemma rr_run:
  assumes ok: "info_ok info"
  shows "rr_at key c st \<Longrightarrow> c < n_backends info \<Longrightarrow>
    run_picks (rr_balancer_handle bm info key) k l st = (bs, st') \<Longrightarrow>
    bs = map (\<lambda>j. let i = start_of info + (c + 1 + j) mod n_backends info in (Some (bm i), i)) [0..<k]
    \<and> rr_at key ((c + k) mod n_backends info) st'"
proof (induction k arbitrary: c st bs)
  case (Suc k)
  let ?i = "start_of info + rr_next info c"
  obtain i s where p: "rr_balancer_handle bm info key l st = (Some (bm ?i), i, s)" "unat i = ?i"
    and at: "rr_at key (rr_next info c) s"
    by (rule rr_pick [OF ok Suc.prems(1,2)])
  obtain bs1 s1 where run: "run_picks (rr_balancer_handle bm info key) k l s = (bs1, s1)"
    by (rule prod.exhaust)
  have bs: "bs = (Some (bm ?i), ?i) # bs1" "s1 = st'"
    using Suc.prems(3) by (simp_all add: p run)
  have upt: "[0..<Suc k] = 0 # map Suc [0..<k]" 
    using upt_conv_Cons [of 0 "Suc k"] by (simp add: map_Suc_upt del: upt_Suc)
  have "bs1 = map (\<lambda>j. let i = start_of info + (c + 1 + Suc j) mod n_backends info in (Some (bm i), i)) [0..<k]"
    "rr_at key ((c + Suc k) mod n_backends info) st'"
    using Suc.IH [OF at rr_next_lt [OF ok] run [unfolded bs(2)]]
    by (simp_all only: rr_next_def rr_next_iter mod_add_left_eq) (simp_all add: add.assoc)
  then show ?case using bs(1) by (simp add: upt rr_next_def Let_def comp_def del: upt_Suc)
qed simp

text \<open>A cycle: consecutive residues are a permutation of all residues.\<close>

lemma mset_residues: "mset (map (\<lambda>j. (a + j) mod n) [0..<n]) = mset [0..<n]"
proof (cases "n = 0")
  case False
  have "inj_on (\<lambda>j. (a + j) mod n) {0..<n}"
  proof (rule inj_onI)
    fix i j assume ij: "i \<in> {0..<n}" "j \<in> {0..<n}" "(a + i) mod n = (a + j) mod n"
    have dvd: "n dvd j - i" if "i \<le> j" "(a + j) mod n = (a + i) mod n" for i j
      using that mod_eq_dvd_iff_nat [of "a + i" "a + j" n] by simp
    have "n dvd j - i" "n dvd i - j"
      using dvd [of i j] dvd [of j i] ij(3) diff_is_0_eq dvd_0_right nat_le_linear by metis+
    then have "j - i = 0" "i - j = 0"
      using ij(1,2) nat_dvd_not_less [of "j - i" n] nat_dvd_not_less [of "i - j" n]
      by (metis bot_nat_0.not_eq_extremum atLeastLessThan_iff less_imp_diff_less)+
    then show "i = j" by simp
  qed
  moreover have "(\<lambda>j. (a + j) mod n) ` {0..<n} \<subseteq> {0..<n}" using False by auto
  ultimately have "(\<lambda>j. (a + j) mod n) ` {0..<n} = {0..<n}"
    by (intro endo_inj_surj) simp_all
  then show ?thesis
    using \<open>inj_on (\<lambda>j. (a + j) mod n) {0..<n}\<close>
    by (subst set_eq_iff_mset_eq_distinct [symmetric]) (simp_all add: distinct_map)
qed simp

lemma map_residues: "map snd (map (\<lambda>j. let i = s + (a + j) mod n in (f i, i)) xs) =
    map (\<lambda>i. s + i) (map (\<lambda>j. (a + j) mod n) xs)"
  by (simp add: Let_def)

subsection \<open>Weighted round robin\<close>

definition wrr_pos :: "service_key \<Rightarrow> nat \<Rightarrow> nat \<Rightarrow> xdp_maps \<Rightarrow> bool" where
  "wrr_pos key i c st \<longleftrightarrow>
     (case hash_lookup (wrr_state_map st) key of
        None \<Rightarrow> False
      | Some ws \<Rightarrow> unat (current_index ws) = i \<and> unat (current_weight_counter ws) = c)"

text \<open>The packets a backend is due per cycle: its weight, none when it is disabled.\<close>

definition wrr_due :: "backend bpf_array \<Rightarrow> service_info \<Rightarrow> nat \<Rightarrow> nat" where
  "wrr_due bm info i =
     (if active (bm (start_of info + i)) \<noteq> 0 then unat (weight (bm (start_of info + i))) else 0)"

lemma wrr_due_usable: "0 < wrr_due bm info i \<longleftrightarrow> usable (Some (bm (start_of info + i)))"
  by (auto simp: wrr_due_def usable_def word_greater_zero_iff unat_gt_0)

lemma wrr_due_small: "wrr_due bm info i < 256"
  using unsigned_less [of "weight (bm (start_of info + i))", where ?'a = nat]
  by (simp add: wrr_due_def)

lemma wrr_at_eq:
  assumes "info_ok info" and "unat (current_index ws) < n_backends info"
  shows "wrr_at bm info ws = Some (bm (start_of info + unat (current_index ws)))"
    and "unat (wrr_idx info ws) = start_of info + unat (current_index ws)"
proof -
  show idx: "unat (wrr_idx info ws) = start_of info + unat (current_index ws)"
    using rr_next_in_service(2) [OF assms] by (simp add: wrr_idx_def)
  then show "wrr_at bm info ws = Some (bm (start_of info + unat (current_index ws)))"
    using info_ok_bound [OF assms] by (simp add: wrr_at_def array_lookup_def max_defs)
qed

lemma wrr_advance_eq:
  assumes "info_ok info" and "unat (current_index ws) < n_backends info"
  shows "unat (current_index (wrr_advance info ws)) = (unat (current_index ws) + 1) mod n_backends info"
    and "current_weight_counter (wrr_advance info ws) = 0"
proof -
  have "unat (current_index ws + 1) = unat (current_index ws) + 1"
    using assms by (intro unat_plus_one) (simp add: info_ok_def max_defs)
  then show "unat (current_index (wrr_advance info ws)) = (unat (current_index ws) + 1) mod n_backends info"
    by (simp add: wrr_advance_def unat_mod)
qed (simp add: wrr_advance_def)

lemma wrr_stop_eq:
  assumes "info_ok info"
  shows "wrr_stop info m \<longleftrightarrow> \<not> m < 32 \<or> 2 * n_backends info \<le> m"
proof -
  have n: "n_backends info \<le> 1024" using assms by (simp add: info_ok_def max_defs)
  then have u: "unat (backend_count info * 2) = 2 * n_backends info"
    by (simp add: unat_word_ariths)
  with n have "sint (backend_count info * 2) = int (2 * n_backends info)"
    using sint_eq_unat [of "backend_count info * 2"] by simp
  then show ?thesis by (simp only: wrr_stop_def of_nat_le_iff)
qed

text \<open>From position \<open>i\<close> the loop finds the first usable backend, \<open>d\<close> places further on.\<close>

definition wrr_after :: "backend bpf_array \<Rightarrow> service_info \<Rightarrow> nat \<Rightarrow> nat \<Rightarrow> nat \<times> nat" where
  "wrr_after bm info j c =
     (if c + 1 < wrr_due bm info j then (j, c + 1) else ((j + 1) mod n_backends info, 0))"

lemma wrr_spent_eq:
  assumes ok: "info_ok info" and i: "unat (current_index ws) < n_backends info"
    and due: "0 < wrr_due bm info (unat (current_index ws))"
    and c: "unat (current_weight_counter ws) < 256"
  shows "(unat (current_index (wrr_spent (bm (start_of info + unat (current_index ws))) info ws)),
      unat (current_weight_counter (wrr_spent (bm (start_of info + unat (current_index ws))) info ws)))
     = wrr_after bm info (unat (current_index ws)) (unat (current_weight_counter ws))"
proof -
  let ?b = "bm (start_of info + unat (current_index ws))"
  have "unat (current_weight_counter ws + 1) = unat (current_weight_counter ws) + 1"
    using c by (intro unat_plus_one) simp
  moreover have "unat (ucast (weight ?b) :: u32) = unat (weight ?b)"
    using unsigned_less [of "weight ?b", where ?'a = nat]
    by (simp add: unsigned_ucast_eq take_bit_nat_eq_self)
  moreover have "wrr_due bm info (unat (current_index ws)) = unat (weight ?b)"
    using due by (simp add: wrr_due_def split: if_splits)
  ultimately show ?thesis
    using wrr_advance_eq [OF ok i] by (simp add: wrr_spent_def wrr_after_def word_less_nat_alt)
qed

lemma wrr_find:
  assumes ok: "info_ok info"
  shows "unat (current_index ws) < n_backends info \<Longrightarrow> unat (current_weight_counter ws) < 256 \<Longrightarrow>
    m + d < 32 \<Longrightarrow> m + d < 2 * n_backends info \<Longrightarrow>
    (\<forall>e < d. wrr_due bm info ((unat (current_index ws) + e) mod n_backends info) = 0) \<Longrightarrow>
    j = (unat (current_index ws) + d) mod n_backends info \<Longrightarrow> 0 < wrr_due bm info j \<Longrightarrow>
    \<exists>idx ws'. wrr_loop bm info m l ws = (Some (bm (start_of info + j)), idx, ws')
      \<and> unat idx = start_of info + j
      \<and> (unat (current_index ws'), unat (current_weight_counter ws')) =
         wrr_after bm info j (if d = 0 then unat (current_weight_counter ws) else 0)"
proof (induction d arbitrary: m ws)
  case 0
  then have j: "j = unat (current_index ws)" by simp
  have "usable (wrr_at bm info ws)"
    using 0 wrr_due_usable by (simp add: wrr_at_eq [OF ok] j)
  moreover have "\<not> wrr_stop info m" using 0 by (simp add: wrr_stop_eq [OF ok])
  ultimately show ?case
    using 0 wrr_spent_eq [OF ok 0(1), of bm] by (simp add: wrr_loop_turn wrr_at_eq [OF ok] j)
next
  case (Suc d)
  let ?n = "n_backends info"
  let ?ws = "wrr_advance info ws"
  have adv: "unat (current_index ?ws) = (unat (current_index ws) + 1) mod ?n"
      "current_weight_counter ?ws = 0"
    using Suc.prems(1) by (rule wrr_advance_eq [OF ok])+
  have n: "0 < ?n" using ok by (simp add: info_ok_def)
  have "wrr_due bm info (unat (current_index ws)) = 0"
    using Suc.prems(1,5) by (metis add_0_right mod_less zero_less_Suc)
  then have "\<not> usable (wrr_at bm info ws)"
    using wrr_due_usable [of bm info "unat (current_index ws)"] by (simp add: wrr_at_eq [OF ok Suc.prems(1)])
  moreover have "\<not> wrr_stop info m" using Suc.prems(3,4) by (simp add: wrr_stop_eq [OF ok])
  ultimately have step: "wrr_loop bm info m l ws = wrr_loop bm info (m + 1) l ?ws"
    by (simp add: wrr_loop_turn [of bm info m l ws])
  have shift: "(unat (current_index ?ws) + e) mod ?n = (unat (current_index ws) + Suc e) mod ?n" for e
    unfolding adv(1) by (simp add: mod_add_left_eq)
  have "\<exists>idx ws'. wrr_loop bm info (m + 1) l ?ws = (Some (bm (start_of info + j)), idx, ws')
      \<and> unat idx = start_of info + j
      \<and> (unat (current_index ws'), unat (current_weight_counter ws')) =
         wrr_after bm info j (if d = 0 then unat (current_weight_counter ?ws) else 0)"
  proof (rule Suc.IH)
    show "\<forall>e < d. wrr_due bm info ((unat (current_index ?ws) + e) mod ?n) = 0"
      using Suc.prems(5) unfolding shift by auto
    show "j = (unat (current_index ?ws) + d) mod ?n" using Suc.prems(6) unfolding shift .
  qed (use Suc.prems n adv in auto)
  then show ?case by (simp add: step adv(2) cong: if_cong)
qed

lemma wrr_pick:
  assumes ok: "info_ok info" and at: "wrr_pos key i c st" and i: "i < n_backends info"
    and c: "c < 256" and d: "d < 32" "d < n_backends info"
    and idle: "\<forall>e < d. wrr_due bm info ((i + e) mod n_backends info) = 0"
    and j: "j = (i + d) mod n_backends info" "0 < wrr_due bm info j"
  obtains idx st' where
    "wrr_balancer_handle bm info key l st = (Some (bm (start_of info + j)), idx, st')"
    "unat idx = start_of info + j"
    "case wrr_after bm info j (if d = 0 then c else 0) of (i', c') \<Rightarrow> wrr_pos key i' c' st'"
proof -
  from at obtain ws where ws: "hash_lookup (wrr_state_map st) key = Some ws"
      "unat (current_index ws) = i" "unat (current_weight_counter ws) = c"
    by (auto simp: wrr_pos_def split: option.splits)
  obtain idx ws' where w: "wrr_loop bm info 0 l ws = (Some (bm (start_of info + j)), idx, ws')"
      "unat idx = start_of info + j"
      "(unat (current_index ws'), unat (current_weight_counter ws')) =
         wrr_after bm info j (if d = 0 then c else 0)"
    using wrr_find [OF ok, of ws 0 d bm j l] ws(2,3) i c d idle j by auto
  let ?st' = "st\<lparr>wrr_state_map := hash_write (wrr_state_map st) key ws'\<rparr>"
  have "wrr_balancer_handle bm info key l st = (Some (bm (start_of info + j)), idx, ?st')"
    using ws(1) w(1) by (simp add: wrr_handle_eq wrr_init_def)
  moreover have "wrr_pos key (unat (current_index ws')) (unat (current_weight_counter ws')) ?st'"
    using ws(1) by (simp add: wrr_pos_def map_simps)
  ultimately show ?thesis using w(2,3) that by (metis (no_types, lifting) case_prod_conv)
qed

text \<open>
  \<open>wrr_ready key p st\<close>: a new block is due, and nothing usable lies between the cursor and
  \<open>p\<close>.
\<close>

definition wrr_ready :: "backend bpf_array \<Rightarrow> service_info \<Rightarrow> service_key \<Rightarrow> nat \<Rightarrow> xdp_maps \<Rightarrow> bool" where
  "wrr_ready bm info key p st \<longleftrightarrow>
     (\<exists>q d. wrr_pos key q 0 st \<and> q < n_backends info \<and> p = (q + d) mod n_backends info
        \<and> (\<forall>e < d. wrr_due bm info ((q + e) mod n_backends info) = 0))"

lemma wrr_ready_pos:
  "wrr_pos key p 0 st \<Longrightarrow> p < n_backends info \<Longrightarrow> wrr_ready bm info key p st"
  unfolding wrr_ready_def by (rule exI [of _ p], rule exI [of _ 0]) simp

lemma wrr_ready_skip:
  assumes "wrr_ready bm info key p st" and "wrr_due bm info p = 0"
  shows "wrr_ready bm info key ((p + 1) mod n_backends info) st"
proof -
  let ?n = "n_backends info"
  obtain q d where q: "wrr_pos key q 0 st" "q < ?n" "p = (q + d) mod ?n"
      "\<forall>e < d. wrr_due bm info ((q + e) mod ?n) = 0"
    using assms(1) by (auto simp: wrr_ready_def)
  then have "(p + 1) mod ?n = (q + Suc d) mod ?n" by (simp add: mod_Suc_eq)
  moreover have "\<forall>e < Suc d. wrr_due bm info ((q + e) mod ?n) = 0"
    using q(3,4) assms(2) by (auto simp: less_Suc_eq)
  ultimately show ?thesis using q(1,2) unfolding wrr_ready_def by blast
qed

text \<open>A gap of idle backends is shorter than a cycle.\<close>

lemma idle_gap:
  assumes q: "q < n" and x: "x < (n :: nat)" "0 < f x" and idle: "\<forall>e < d. f ((q + e) mod n) = (0 :: nat)"
  shows "d < n"
proof (rule ccontr)
  assume "\<not> d < n"
  define e where "e = (x + n - q) mod n"
  have "e < d" using \<open>\<not> d < n\<close> q mod_less_divisor [of n "x + n - q"] unfolding e_def by linarith
  moreover have "(q + e) mod n = x"
    using q x by (simp add: e_def mod_add_right_eq)
  ultimately show False using idle x(2) by auto
qed

lemma wrr_block:
  assumes ok: "info_ok info" and x: "x < n_backends info"
  shows "wrr_pos key x c st \<Longrightarrow> c + k = wrr_due bm info x \<Longrightarrow> 0 < k \<Longrightarrow>
    run_picks (wrr_balancer_handle bm info key) k l st = (bs, st') \<Longrightarrow>
    bs = replicate k (Some (bm (start_of info + x)), start_of info + x)
    \<and> wrr_pos key ((x + 1) mod n_backends info) 0 st'"
proof (induction k arbitrary: c st bs)
  case (Suc k)
  have "c < 256" "0 < wrr_due bm info x"
    using Suc.prems(2) wrr_due_small [of bm info x] by simp_all
  then obtain idx s where w: "wrr_balancer_handle bm info key l st = (Some (bm (start_of info + x)), idx, s)"
      "unat idx = start_of info + x"
      "case wrr_after bm info x c of (i', c') \<Rightarrow> wrr_pos key i' c' s"
    using wrr_pick [OF ok Suc.prems(1) x, of 0 bm x l] x by auto
  obtain bs1 s1 where run: "run_picks (wrr_balancer_handle bm info key) k l s = (bs1, s1)"
    by (rule prod.exhaust)
  have bs: "bs = (Some (bm (start_of info + x)), start_of info + x) # bs1" "s1 = st'"
    using Suc.prems(4) w by (simp_all add: run)
  show ?case
  proof (cases k)
    case 0
    then show ?thesis using bs run w(3) Suc.prems(2) by (simp add: wrr_after_def)
  next
    case (Suc k')
    then have "wrr_pos key x (c + 1) s" using w(3) Suc.prems(2) by (simp add: wrr_after_def)
    then show ?thesis using Suc.IH [OF _ _ _ run [unfolded bs(2)]] Suc.prems(2) Suc bs(1) by simp
  qed
qed simp

lemma wrr_turn:
  assumes ok: "info_ok info" and ready: "wrr_ready bm info key p st"
    and small: "n_backends info \<le> 32" and due: "0 < wrr_due bm info p"
    and run: "run_picks (wrr_balancer_handle bm info key) (wrr_due bm info p) l st = (bs, st')"
  shows "bs = replicate (wrr_due bm info p) (Some (bm (start_of info + p)), start_of info + p)
    \<and> wrr_pos key ((p + 1) mod n_backends info) 0 st'"
proof -
  let ?n = "n_backends info"
  obtain q d where q: "wrr_pos key q 0 st" "q < ?n" "p = (q + d) mod ?n"
      "\<forall>e < d. wrr_due bm info ((q + e) mod ?n) = 0"
    using ready by (auto simp: wrr_ready_def)
  have p: "p < ?n" using q by simp
  have d: "d < ?n" using idle_gap [of q ?n p "wrr_due bm info" d] q p due by blast
  obtain k where k: "wrr_due bm info p = Suc k" using due gr0_implies_Suc by blast
  obtain idx s where w: "wrr_balancer_handle bm info key l st = (Some (bm (start_of info + p)), idx, s)"
      "unat idx = start_of info + p"
      "case wrr_after bm info p 0 of (i', c') \<Rightarrow> wrr_pos key i' c' s"
    using wrr_pick [OF ok q(1,2) _ _ d q(4,3) due, of l] d small by auto
  obtain bs1 s1 where run1: "run_picks (wrr_balancer_handle bm info key) k l s = (bs1, s1)"
    by (rule prod.exhaust)
  have bs: "bs = (Some (bm (start_of info + p)), start_of info + p) # bs1" "s1 = st'"
    using run w by (simp_all add: run1 k)
  show ?thesis
  proof (cases k)
    case 0
    then show ?thesis using bs run1 w(3) k by (simp add: wrr_after_def)
  next
    case (Suc k')
    then have "wrr_pos key p 1 s" using w(3) k by (simp add: wrr_after_def)
    then show ?thesis using wrr_block [OF ok p _ _ _ run1, of 1] Suc bs k by simp
  qed
qed

text \<open>A stretch of \<open>m\<close> consecutive positions, each served its due.\<close>

definition wrr_serve :: "backend bpf_array \<Rightarrow> service_info \<Rightarrow> nat \<Rightarrow> (backend option \<times> nat) list" where
  "wrr_serve bm info i = replicate (wrr_due bm info i) (Some (bm (start_of info + i)), start_of info + i)"

lemma wrr_stretch:
  assumes ok: "info_ok info" and small: "n_backends info \<le> 32"
  shows "wrr_ready bm info key p st \<Longrightarrow> p < n_backends info \<Longrightarrow>
    run_picks (wrr_balancer_handle bm info key)
      (\<Sum>e\<leftarrow>[0..<m]. wrr_due bm info ((p + e) mod n_backends info)) l st = (bs, st') \<Longrightarrow>
    bs = concat (map (\<lambda>e. wrr_serve bm info ((p + e) mod n_backends info)) [0..<m])
    \<and> wrr_ready bm info key ((p + m) mod n_backends info) st'"
proof (induction m arbitrary: bs st')
  case (Suc m)
  let ?n = "n_backends info"
  let ?k = "\<Sum>e\<leftarrow>[0..<m]. wrr_due bm info ((p + e) mod ?n)"
  let ?p = "(p + m) mod ?n"
  obtain xs s1 where xs: "run_picks (wrr_balancer_handle bm info key) ?k l st = (xs, s1)"
    by (rule prod.exhaust)
  obtain ys s2 where ys: "run_picks (wrr_balancer_handle bm info key) (wrr_due bm info ?p) l s1 = (ys, s2)"
    by (rule prod.exhaust)
  have bs: "bs = xs @ ys" "st' = s2"
    using Suc.prems(3) by (simp_all add: run_picks_add xs ys)
  have ih: "xs = concat (map (\<lambda>e. wrr_serve bm info ((p + e) mod ?n)) [0..<m])"
      "wrr_ready bm info key ?p s1"
    using Suc.IH [OF Suc.prems(1,2) xs] by simp_all
  have nxt: "(?p + 1) mod ?n = (p + Suc m) mod ?n" by (simp add: mod_Suc_eq)
  have "ys = wrr_serve bm info ?p \<and> wrr_ready bm info key ((?p + 1) mod ?n) s2"
  proof (cases "wrr_due bm info ?p")
    case 0
    then show ?thesis using ys ih(2) wrr_ready_skip [OF ih(2)] by (simp add: wrr_serve_def)
  next
    case (Suc k)
    moreover have "(?p + 1) mod ?n < ?n" using Suc.prems(2) by simp
    ultimately show ?thesis
      using wrr_turn [OF ok ih(2) small _ ys] wrr_ready_pos [of key "(?p + 1) mod ?n" s2 info bm]
      by (simp add: wrr_serve_def)
  qed
  then show ?case using bs ih(1) nxt by simp
qed simp

lemma map_mod_upt: "map (\<lambda>e. f (e mod n)) [0..<n] = map f [0..<n]"
  by (rule map_cong) simp_all

lemma wrr_cycle:
  assumes "info_ok info" and "n_backends info \<le> 32" and "wrr_ready bm info key 0 st"
    and "run_picks (wrr_balancer_handle bm info key)
      (\<Sum>i\<leftarrow>[0..<n_backends info]. wrr_due bm info i) l st = (bs, st')"
  shows "bs = concat (map (wrr_serve bm info) [0..<n_backends info])
    \<and> wrr_ready bm info key 0 st'"
proof -
  have "0 < n_backends info" using assms(1) by (simp add: info_ok_def)
  from wrr_stretch [OF assms(1-3) this, of "n_backends info" l bs st'] assms(4) show ?thesis
    unfolding add_0 map_mod_upt by simp
qed

text \<open>Any number of cycles.\<close>

lemma wrr_cycles:
  assumes ok: "info_ok info" and small: "n_backends info \<le> 32"
  shows "wrr_ready bm info key 0 st \<Longrightarrow>
    run_picks (wrr_balancer_handle bm info key)
      (k * (\<Sum>i\<leftarrow>[0..<n_backends info]. wrr_due bm info i)) l st = (bs, st') \<Longrightarrow>
    bs = concat (replicate k (concat (map (wrr_serve bm info) [0..<n_backends info])))
    \<and> wrr_ready bm info key 0 st'"
proof (induction k arbitrary: st bs)
  case (Suc k)
  let ?w = "\<Sum>i\<leftarrow>[0..<n_backends info]. wrr_due bm info i"
  obtain xs s1 where xs: "run_picks (wrr_balancer_handle bm info key) ?w l st = (xs, s1)"
    by (rule prod.exhaust)
  obtain ys s2 where ys: "run_picks (wrr_balancer_handle bm info key) (k * ?w) l s1 = (ys, s2)"
    by (rule prod.exhaust)
  have bs: "bs = xs @ ys" "s2 = st'"
    using Suc.prems(2) unfolding mult_Suc run_picks_add xs by (simp_all add: ys)
  note cyc = wrr_cycle [OF ok small Suc.prems(1) xs]
  show ?case using cyc Suc.IH [OF conjunct2 [OF cyc] ys [unfolded bs(2)]] bs(1) by simp
qed simp

subsection \<open>What the retry loop makes of inactive backends\<close>

text \<open>The first active one of the next four backends, or none.\<close>

definition rr_try :: "backend bpf_array \<Rightarrow> service_info \<Rightarrow> nat \<Rightarrow> nat \<Rightarrow> nat option" where
  "rr_try bm info c k =
     List.find (\<lambda>i. active (bm i) \<noteq> 0)
       (map (\<lambda>j. start_of info + (c + 1 + j) mod n_backends info) [0..<k])"

lemma rr_retry:
  assumes ok: "info_ok info"
  shows "n \<le> 4 \<Longrightarrow> rr_at key c st \<Longrightarrow> c < n_backends info \<Longrightarrow>
    pick_loop (rr_balancer_handle bm info key) n l st = (r, l', st') \<Longrightarrow>
    r = map_option bm (rr_try bm info c (4 - n))
    \<and> (\<forall>i. rr_try bm info c (4 - n) = Some i \<longrightarrow> unat l' = i)"
proof (induction "4 - n" arbitrary: n c l st)
  case 0
  then have n: "n = 4" by simp
  obtain i s where "rr_balancer_handle bm info key l st = (Some (bm (start_of info + rr_next info c)), i, s)"
    by (rule rr_pick [OF ok 0(3,4)])
  then show ?case using 0(5)
    by (simp add: n pick_loop.simps [of "rr_balancer_handle bm info key" 4 l st] rr_try_def)
next
  case (Suc m)
  let ?i = "start_of info + rr_next info c"
  obtain i s where p: "rr_balancer_handle bm info key l st = (Some (bm ?i), i, s)" "unat i = ?i"
    and at: "rr_at key (rr_next info c) s"
    by (rule rr_pick [OF ok Suc.prems(2,3)])
  have n: "4 - n = Suc (4 - (n + 1))" "n < 4" using Suc.hyps(2) by simp_all
  have upt: "[0..<4 - n] = 0 # map Suc [0..<4 - (n + 1)]"
    unfolding n(1) using upt_conv_Cons [of 0 "Suc (4 - (n + 1))"] by (simp add: map_Suc_upt del: upt_Suc)
  have "rr_try bm info (rr_next info c) k = List.find (\<lambda>i. active (bm i) \<noteq> 0)
      (map (\<lambda>j. start_of info + (c + 1 + Suc j) mod n_backends info) [0..<k])" for k
    unfolding rr_try_def rr_next_def rr_next_iter ..
  then have turn: "rr_try bm info c (4 - n) =
      (if active (bm ?i) \<noteq> 0 then Some ?i else rr_try bm info (rr_next info c) (4 - (n + 1)))"
    unfolding rr_try_def [of bm info c] upt by (simp add: comp_def rr_next_def del: upt_Suc)
  show ?case
  proof (cases "active (bm ?i) = 0")
    case True
    then have "pick_loop (rr_balancer_handle bm info key) (n + 1) i s = (r, l', st')"
      using Suc.prems(4) p n by (simp add: pick_loop.simps [of "rr_balancer_handle bm info key" n l st])
    with Suc.hyps(1) [of "n + 1" "rr_next info c" s i] show ?thesis
      using True Suc.hyps(2) at rr_next_lt [OF ok] by (simp add: turn)
  next
    case False
    then show ?thesis using Suc.prems(4) p n(2)
      by (simp add: pick_loop.simps [of "rr_balancer_handle bm info key" n l st] turn)
  qed
qed

end
