(* ===== verification/Example_State.thy ===== *)
theory Example_State
  imports Xdp_Safety Scheduler_Fairness
begin

section \<open>A configured balancer\<close>

text \<open>
  A small concrete state at which the witnesses of the properties are evaluated: one service on
  \<open>10.0.0.1:80\<close> over TCP with two backends, the maps otherwise as the loader leaves them.
\<close>

definition demo_key :: service_key where
  "demo_key = make_service_key (addr_of_v4 0x0100000A) 80 IPPROTO_TCP 4"

definition demo_info :: "u8 \<Rightarrow> service_info" where
  "demo_info alg = \<lparr>backend_count = 2, backend_start_idx = 0, algorithm = alg, service_idx = 0\<rparr>"

definition demo_backend :: "u8 \<Rightarrow> backend" where
  "demo_backend n = \<lparr>be_addr = [0, 0, 0, 0, 0, 0, 0, 0, 0, 0, 0, 0, 0, 0, 0, n], be_port = 80, mac = [2, 0, 0, 0, 0, n],
     active = 1, be_ip_version = 4, weight = n\<rparr>"

definition demo_maps :: "u8 \<Rightarrow> xdp_maps" where
  "demo_maps alg = initial_maps
     \<lparr>services_first := [(demo_key, demo_info alg)],
      backends_first := (\<lambda>_. zero_backend)(0 := demo_backend 1, 1 := demo_backend 2),
      rr_index := [(demo_key, 0)],
      wrr_state_map := [(demo_key, \<lparr>current_index = 0, current_weight_counter = 0\<rparr>)]\<rparr>"

definition demo_env :: "u64 \<Rightarrow> xdp_env" where
  "demo_env t = \<lparr>cpu = 0, ktime_ddos = t, ktime_hit = t, ktime_new = t, lru_victim = (\<lambda>_. 0)\<rparr>"

definition demo_session :: session_state_key where
  "demo_session = \<lparr>src_ipv6 = addr_of_v4 0x0200000A, dst_ipv6 = addr_of_v4 0x0100000A,
     src_port = 0x9A9C, dst_port = 0x5000\<rparr>"

definition demo_flags :: "bool \<Rightarrow> bool \<Rightarrow> tcp_flags" where
  "demo_flags s a = \<lparr>fin = False, syn = s, rst = False, ack = a\<rparr>"

text \<open>A TCP packet of that flow; \<open>b\<close> is the flags byte.\<close>

definition demo_packet :: "u8 \<Rightarrow> packet" where
  "demo_packet b =
     [2, 0, 0, 0, 0, 0xAA, 2, 0, 0, 0, 0, 0xBB, 0x08, 0x00,
      0x45, 0, 0, 40, 0, 0, 0, 0, 64, 6, 0, 0, 10, 0, 0, 2, 10, 0, 0, 1,
      0x9C, 0x9A, 0, 0x50, 0, 0, 0, 0, 0, 0, 0, 0, 0x50, b, 0, 0, 0, 0, 0, 0]"

lemmas demo_defs = demo_key_def demo_info_def demo_backend_def demo_maps_def demo_env_def
  demo_session_def demo_flags_def

lemma demo_info_fields:
  "unat (backend_count (demo_info alg)) = 2" "unat (backend_start_idx (demo_info alg)) = 0"
  "info_ok (demo_info alg)"
  by (simp_all add: demo_info_def info_ok_def MAX_BACKENDS_def)

lemma demo_cursors: "rr_at demo_key 0 (demo_maps alg)" "wrr_pos demo_key 0 0 (demo_maps alg)"
  by (simp_all add: rr_at_def wrr_pos_def demo_maps_def hash_lookup_def)

lemma demo_maps_ok: "maps_ok (demo_maps alg)"
  by (simp add: demo_maps_def initial_maps_def maps_ok_def hash_ok_def max_defs backend_ok_def
      demo_backend_def zero_backend_def)

lemma demo_sessions_ok: "sessions_ok (demo_maps alg)"
  by (simp add: demo_maps_def initial_maps_def sessions_ok_def hash_lookup_def)

lemma demo_quiet: "quiet (demo_maps alg)"
  by (simp add: demo_maps_def initial_maps_def quiet_def hash_lookup_def)

text \<open>The first SYN of the flow under round robin: the second backend, and a session for it.\<close>

lemmas demo_eval = find_tcp_backend_def demo_maps_def initial_maps_def demo_flags_def pure_syn_def
  array_lookup_def new_session_phase_def services_map_def hash_lookup_def demo_info_def
  tcp_schedule_def pick_loop.simps [of _ 0] rr_balancer_handle_def hash_update_def
  backends_map_def max_defs demo_backend_def close_phase_def tcp_start_def word_le_nat_alt
  tcp_stats_phase_def demo_env_def

lemma demo_first_syn:
  obtains st' where
    "find_tcp_backend (demo_env 0) demo_session demo_key (demo_flags True False) 54 (demo_maps BALANCER_RR)
       = (Some (demo_backend 2), st')"
    "hash_lookup (tcp_session_state st') demo_session =
       Some \<lparr>ss_backend_idx = 1, ss_service_idx = 0, created = 0, timeout = TCP_STATE_TIMEOUT\<rparr>"
  using that by (simp add: demo_eval)

text \<open>The same SYN as a packet, through the whole program.\<close>

lemmas handler_eval = balancer_handler_def handle_ipv4_def handle_ipv6_def tcp_balancer_handle_v4_def
  tcp_balancer_handle_v6_def verdict_of_def sizeof_defs field_defs load8_def load16_def load32_def
  load_def store_def store16_def load_tcp_flags_def tcp_flags_of_def rewrite_l2_def rewrite_v6_def
  make_service_key_def packet_len_of_def ETH_P_IP_def ETH_P_IPV6_def IPPROTO_TCP_def
  IPPROTO_UDP_def bswap16_def addr_of_v4_def bytes32_def bytes16_def

lemma demo_syn_transmitted:
  obtains st' where
    "balancer_handler (demo_env 0) (demo_packet 2) (demo_maps BALANCER_RR) =
       Some (XDP_TX, [2, 0, 0, 0, 0, 2, 2, 0, 0, 0, 0, 0xAA] @ drop 12 (demo_packet 2), st')"
  using that by (simp add: demo_packet_def handler_eval demo_eval demo_key_def)

text \<open>An IPv6 service on \<open>fd00::1\<close> port 80, and a SYN to it.\<close>

definition demo6_key :: service_key where
  "demo6_key = make_service_key [0xFD, 0, 0, 0, 0, 0, 0, 0, 0, 0, 0, 0, 0, 0, 0, 1] 80 IPPROTO_TCP 6"

definition demo6_maps :: xdp_maps where
  "demo6_maps = (demo_maps BALANCER_RR)
     \<lparr>services_first := [(demo6_key, demo_info BALANCER_RR)], rr_index := [(demo6_key, 0)]\<rparr>"

definition demo6_packet :: packet where
  "demo6_packet =
     [2, 0, 0, 0, 0, 0xAA, 2, 0, 0, 0, 0, 0xBB, 0x86, 0xDD,
      0x60, 0, 0, 0, 0, 20, 6, 64,
      0xFD, 0, 0, 0, 0, 0, 0, 0, 0, 0, 0, 0, 0, 0, 0, 2,
      0xFD, 0, 0, 0, 0, 0, 0, 0, 0, 0, 0, 0, 0, 0, 0, 1,
      0x9C, 0x9A, 0, 0x50, 0, 0, 0, 0, 0, 0, 0, 0, 0x50, 2, 0, 0, 0x12, 0x34, 0, 0]"

lemma demo6_maps_ok: "maps_ok demo6_maps" "sessions_ok demo6_maps"
  using demo_maps_ok [of BALANCER_RR]
  by (simp_all add: demo6_maps_def maps_ok_def hash_ok_def max_defs demo_maps_def initial_maps_def
      sessions_ok_def hash_lookup_def)

lemma demo6_syn_transmitted:
  obtains p' st' c where "balancer_handler (demo_env 0) demo6_packet demo6_maps = Some (XDP_TX, p', st')"
    "load16 p' 70 = Some c"
    "load p' 38 16 = Some [0, 0, 0, 0, 0, 0, 0, 0, 0, 0, 0, 0, 0, 0, 0, 2]"
    "load16 p' 56 = Some 0x5000"
  using that by (simp add: demo6_packet_def demo6_maps_def demo6_key_def handler_eval demo_eval
      update_tcp_checksum_v6_def Let_def)

end
