(* ===== verification/Config_Properties.thy ===== *)
theory Config_Properties
  imports Grpc_Server Example_State
begin

section \<open>Properties of the configuration path\<close>

text \<open>The validator, the parser, the configuration manager and the gRPC mappers.\<close>

subsection \<open>A JSON library to evaluate the parser with\<close>

datatype json_value =
    JNull
  | JString string
  | JNumber nat
  | JBool bool
  | JArray "json_value list"
  | JObject "(string \<times> json_value) list"

fun member :: "json_value \<Rightarrow> string \<Rightarrow> json_value option" where
  "member (JObject ms) key = map_of ms key"
| "member _ key = None"

fun need :: "'a option \<Rightarrow> json_fault + 'a" where
  "need None = Inl Throws"
| "need (Some x) = Inr x"

definition demo_api :: "json_value \<Rightarrow> json_value json_api" where
  "demo_api document =
     \<lparr>json_parse = (\<lambda>text. if text = '''' then None else Some document), json_what = (\<lambda>_. ''no value''),
      json_empty = (\<lambda>j. j = JObject [] \<or> j = JArray [] \<or> j = JNull),
      json_is_null = (\<lambda>j. j = JNull), json_is_array = (\<lambda>j. case j of JArray _ \<Rightarrow> True | _ \<Rightarrow> False),
      json_items = (\<lambda>j. case j of JArray js \<Rightarrow> js | _ \<Rightarrow> []),
      json_contains = (\<lambda>j key. member j key \<noteq> None),
      json_index = (\<lambda>j key. case member j key of None \<Rightarrow> Inr JNull | Some v \<Rightarrow> Inr v),
      json_const_index = (\<lambda>j key. case member j key of None \<Rightarrow> Inl Undefined_access | Some v \<Rightarrow> Inr v),
      json_string = (\<lambda>j. case j of JString s \<Rightarrow> Inr s | _ \<Rightarrow> Inl Throws),
      json_u8 = (\<lambda>j. case j of JNumber n \<Rightarrow> Inr (of_nat n) | _ \<Rightarrow> Inl Throws),
      json_u32 = (\<lambda>j. case j of JNumber n \<Rightarrow> Inr (of_nat n) | _ \<Rightarrow> Inl Throws),
      json_value_bool = (\<lambda>j key default.
        case member j key of None \<Rightarrow> Inr default | Some (JBool b) \<Rightarrow> Inr b | Some _ \<Rightarrow> Inl Throws)\<rparr>"

definition demo_document :: "string \<Rightarrow> string \<Rightarrow> json_value" where
  "demo_document vip ip = JObject
     [(''services'', JArray [JObject
        [(''name'', JString ''web''), (''vip'', JString vip), (''protocol'', JString '' TCP''),
         (''port'', JNumber 80), (''balancer'', JString ''rr''),
         (''reals'', JArray [JObject [(''ip'', JString ip), (''weight'', JNumber 3)]])]])]"

definition demo_service :: "string \<Rightarrow> string \<Rightarrow> balancer_service" where
  "demo_service vip ip =
     \<lparr>reals = [\<lparr>real_ip = ip, enabled = True, real_weight = 3, real_ip_version = 4, real_port = 80\<rparr>],
      srv_name = ''web'', srv_vip = vip, srv_protocol = '' TCP'', srv_port = 80, srv_type = RR,
      srv_ip_version = 4\<rparr>"

lemma demo_parse:
  "json_Parse (demo_api (demo_document vip ip)) ''x'' = Inr \<lparr>services = [demo_service vip ip], ddosConf = None\<rparr>"
  by (simp add: json_Parse_def demo_api_def demo_document_def demo_service_def parse_service_def
      parse_service_reals_def parse_type_def fromString_def parse_ddos_def get_string_def get_u32_def get_u8_def)

lemma demo_quad: "dotted_quad ''10.0.0.1''" "dotted_quad ''10.0.0.2''"
  unfolding dotted_quad_def
  by (rule exI [of _ "''10''"], rule exI [of _ "''0''"], rule exI [of _ "''0''"], rule exI [of _ "''1''"],
      simp add: octet_def decimal_def is_digit_def)
    (rule exI [of _ "''10''"], rule exI [of _ "''0''"], rule exI [of _ "''0''"], rule exI [of _ "''2''"],
      simp add: octet_def decimal_def is_digit_def)

lemma demo_ip6: "checkIP ''fd00::1'' = Some 6"
  by code_simp

lemma demo_protocol: "map tolower (trim '' TCP'') = ''tcp''"
  by code_simp

lemma demo_valid: "valid_service (demo_service ''10.0.0.1'' ''10.0.0.2'')"
  using demo_quad [folded checkIP_4]
  by (simp add: valid_service_def demo_service_def valid_real_def demo_protocol)

lemma first_named:
  assumes "t \<in> set xs" "f t = n" "\<forall>u \<in> set (takeWhile (\<lambda>u. u \<noteq> t) xs). f u \<noteq> n"
    and "i < length xs" "f (xs ! i) = n" "\<forall>k < i. f (xs ! k) \<noteq> n"
  shows "t = xs ! i"
  using assms
proof (induction xs arbitrary: i)
  case (Cons x xs)
  show ?case
  proof (cases "x = t")
    case True
    then show ?thesis using Cons.prems(2,6) by (cases i) auto
  next
    case False
    then obtain k where "i = Suc k" using Cons.prems(3,5) by (cases i) auto
    then show ?thesis using False Cons by (auto simp: All_less_Suc2)
  qed
qed simp

subsection \<open>Validation\<close>

text \<open>A service after validation.\<close>

definition validated :: "balancer_service \<Rightarrow> bool" where
  "validated s \<longleftrightarrow>
     (srv_protocol s = ''tcp'' \<or> srv_protocol s = ''udp'') \<and> 0 < srv_port s \<and> srv_port s < 65535
     \<and> (if dotted_quad (srv_vip s) then srv_ip_version s = 4 else srv_ip_version s = 6)
     \<and> (\<forall>r \<in> set (reals s). real_weight r \<noteq> 0
           \<and> (if dotted_quad (real_ip r) then real_ip_version r = 4 else real_ip_version r = 6))"

lemma validated_normal:
  assumes "valid_service s"
  shows "validated (normal_service s)"
proof -
  have v: "the (checkIP a) = (if dotted_quad a then 4 else 6)" if "checkIP a \<noteq> None" for a
    using that checkIP_4 [of a] checkIP_cases [of a] by auto
  show ?thesis
    using assms v
    by (auto simp: validated_def valid_service_def normal_service_def valid_real_def normal_real_def)
qed

text \<open>
  C16. What the validator accepts and what it makes of it. A configuration passes exactly when the
  names of its services differ, every port is between 1 and 65534, every protocol is \<open>tcp\<close> or
  \<open>udp\<close> up to case and leading spaces, every VIP is an IP address, and every real server has a
  positive weight, an IP address, and had the service's IP version before validation. Afterwards
  protocols are in normal form, and the IP version of a service or a real server is 4 exactly
  when its address is a dotted quad of numbers up to 255, and 6 otherwise.
\<close>

theorem validate_exact:
  "(fst (Validate conf) = None \<longleftrightarrow>
      distinct (map srv_name (services conf)) \<and> (\<forall>s \<in> set (services conf). valid_service s))
   \<and> (fst (Validate conf) = None \<longrightarrow> (\<forall>s \<in> set (services (snd (Validate conf))). validated s))"
  using Validate_accepts [of conf] Validate_result [of conf] validated_normal by auto

lemma validate_exact_witness:
  "fst (Validate \<lparr>services = [demo_service ''10.0.0.1'' ''10.0.0.2''], ddosConf = None\<rparr>) = None"
  using validate_exact [of "\<lparr>services = [demo_service ''10.0.0.1'' ''10.0.0.2''], ddosConf = None\<rparr>"] demo_valid
  by simp

text \<open>
  C27. No IPv6 service with real servers can be configured from a file: the parser gives every real
  server the IP version 4, and the validator compares that with the service's before it looks at
  the real server's address.
\<close>

theorem ipv6_file_rejected:
  assumes "json_Parse api data = Inr conf" and "s \<in> set (services conf)"
    and "checkIP (srv_vip s) = Some 6" and "reals s \<noteq> []"
  shows "fst (Validate conf) \<noteq> None"
proof -
  obtain r where r: "r \<in> set (reals s)" using assms(4) by (cases "reals s") auto
  have "real_ip_version r = 4"
    using json_Parse_shape [OF assms(1)] assms(2) r by (simp add: parsed_service_def)
  then have "\<not> valid_service s" using assms(3) r by (auto simp: valid_service_def valid_real_def)
  then show ?thesis using assms(2) Validate_accepts [of conf] by auto
qed

lemma ipv6_file_rejected_witness:
  "\<exists>conf. json_Parse (demo_api (demo_document ''fd00::1'' ''fd00::2'')) ''x'' = Inr conf
     \<and> fst (Validate conf) \<noteq> None"
  using ipv6_file_rejected [OF demo_parse, of "demo_service ''fd00::1'' ''fd00::2''" "''fd00::1''" "''fd00::2''"] demo_ip6 demo_parse
  by (simp add: demo_service_def)

subsection \<open>The configuration manager\<close>

text \<open>A real server that is found is switched, and the next request can switch it back.\<close>

lemma SetRealState_found:
  fixes reload :: "('e, 'd) reload option"
  assumes conf: "m_currConfig m = Some conf"
    and i: "find_index (\<lambda>s. srv_name s = serviceName req) (services conf) = Some i" and s: "s = services conf ! i"
    and j: "find_index (\<lambda>r. real_ip r = realIp req) (reals s) = Some j" and r: "r = reals s ! j"
  defines "conf' \<equiv> conf\<lparr>services := (services conf)[i := s\<lparr>reals := (reals s)[j := r\<lparr>enabled := req_enabled req\<rparr>]\<rparr>]\<rparr>"
  shows "SetRealState reload req (m, d) = (None, m\<lparr>m_currConfig := Some conf'\<rparr>, call_reload reload conf' d)"
    and "fst (snd (SetRealState reload (req\<lparr>req_enabled := enabled r\<rparr>) (m\<lparr>m_currConfig := Some conf'\<rparr>, d'))) = m"
proof -
  show "SetRealState reload req (m, d) = (None, m\<lparr>m_currConfig := Some conf'\<rparr>, call_reload reload conf' d)"
    using conf i j by (simp add: SetRealState_def conf'_def s r Let_def)
  have at: "i < length (services conf)" "srv_name s = serviceName req" "j < length (reals s)" "real_ip r = realIp req"
    using i j by (auto simp: find_index_Some s r)
  have "find_index (\<lambda>t. srv_name t = serviceName req)
      ((services conf)[i := s\<lparr>reals := (reals s)[j := r\<lparr>enabled := req_enabled req\<rparr>]\<rparr>]) = Some i"
    by (rule find_index_update [OF i]) (simp add: at(2))
  moreover have "find_index (\<lambda>r. real_ip r = realIp req) ((reals s)[j := r\<lparr>enabled := req_enabled req\<rparr>]) = Some j"
    by (rule find_index_update [OF j]) (simp add: at(4))
  moreover have "s\<lparr>reals := (reals s)[j := r]\<rparr> = s" by (simp add: r)
  ultimately show "fst (snd (SetRealState reload (req\<lparr>req_enabled := enabled r\<rparr>) (m\<lparr>m_currConfig := Some conf'\<rparr>, d'))) = m"
    using at(1,3) conf by (simp add: conf'_def SetRealState_def Let_def) (simp add: s)
qed

text \<open>
  C28. Switching a real server on or off. Either no service has the name or none of its real servers
  the address: then the request is refused and nothing changes. Or the first such real server of
  the first such service gets the new state, everything else stays, and the data plane is given
  the new configuration; whether it could load it is not reported. Setting the old state again
  restores the configuration.
\<close>

theorem set_real_state_exact:
  assumes "m_currConfig m = Some conf"
  shows "(fst (SetRealState reload req (m, d)) \<noteq> None \<and> snd (SetRealState reload req (m, d)) = (m, d)
        \<and> \<not> (\<exists>s \<in> set (services conf). srv_name s = serviceName req
              \<and> (\<forall>t \<in> set (takeWhile (\<lambda>t. t \<noteq> s) (services conf)). srv_name t \<noteq> serviceName req)
              \<and> realIp req \<in> real_ip ` set (reals s)))
    \<or> (\<exists>i j s r. i < length (services conf) \<and> s = services conf ! i \<and> srv_name s = serviceName req
        \<and> (\<forall>k < i. srv_name (services conf ! k) \<noteq> serviceName req)
        \<and> j < length (reals s) \<and> r = reals s ! j \<and> real_ip r = realIp req
        \<and> (\<forall>k < j. real_ip (reals s ! k) \<noteq> realIp req)
        \<and> (let conf' = conf\<lparr>services := (services conf)[i := s\<lparr>reals := (reals s)[j := r\<lparr>enabled := req_enabled req\<rparr>]\<rparr>]\<rparr>
           in SetRealState reload req (m, d) = (None, m\<lparr>m_currConfig := Some conf'\<rparr>, call_reload reload conf' d))
        \<and> (let md = snd (SetRealState reload req (m, d))
           in fst (snd (SetRealState reload (req\<lparr>req_enabled := enabled r\<rparr>) md)) = m))"
proof (cases "find_index (\<lambda>s. srv_name s = serviceName req) (services conf)")
  case None
  then have "SetRealState reload req (m, d) =
      (Some (''service with name '' @ serviceName req @ '' not found''), m, d)"
    using assms by (simp add: SetRealState_def)
  then show ?thesis using None by (intro disjI1) (auto simp: find_index_None)
next
  case (Some i)
  define s where "s = services conf ! i"
  have i: "i < length (services conf)" "srv_name s = serviceName req"
      "\<forall>k < i. srv_name (services conf ! k) \<noteq> serviceName req"
    using Some by (auto simp: find_index_Some s_def)
  show ?thesis
  proof (cases "find_index (\<lambda>r. real_ip r = realIp req) (reals s)")
    case None
    have "t = s" if "t \<in> set (services conf)" "srv_name t = serviceName req"
      "\<forall>u \<in> set (takeWhile (\<lambda>u. u \<noteq> t) (services conf)). srv_name u \<noteq> serviceName req" for t
      by (rule first_named [where f = srv_name, OF that i(1) i(2) [unfolded s_def] i(3), folded s_def])
    moreover have "SetRealState reload req (m, d) = (Some (''real '' @ realIp req @ '' not found''), m, d)"
      using None Some assms by (simp add: SetRealState_def s_def Let_def)
    ultimately show ?thesis using None by (intro disjI1) (force simp: find_index_None)
  next
    case j: (Some j)
    define r where "r = reals s ! j"
    have jj: "j < length (reals s)" "real_ip r = realIp req" "\<forall>k < j. real_ip (reals s ! k) \<noteq> realIp req"
      using j by (auto simp: find_index_Some r_def)
    from i jj SetRealState_found [OF assms Some s_def j r_def, of reload] show ?thesis
      by (intro disjI2 exI [of _ i] exI [of _ j] exI [of _ s] exI [of _ r]) (simp add: s_def r_def Let_def)
  qed
qed

lemma set_real_state_exact_witness:
  "fst (snd (SetRealState (None :: (unit, unit) reload option) \<lparr>serviceName = ''web'', realIp = ''10.0.0.2'', req_enabled = False\<rparr>
      (\<lparr>m_currConfig = Some \<lparr>services = [demo_service ''10.0.0.1'' ''10.0.0.2''], ddosConf = None\<rparr>\<rparr>, ())))
   \<noteq> \<lparr>m_currConfig = Some \<lparr>services = [demo_service ''10.0.0.1'' ''10.0.0.2''], ddosConf = None\<rparr>\<rparr>"
  using set_real_state_exact [of "\<lparr>m_currConfig = Some \<lparr>services = [demo_service ''10.0.0.1'' ''10.0.0.2''], ddosConf = None\<rparr>\<rparr>"
       "\<lparr>services = [demo_service ''10.0.0.1'' ''10.0.0.2''], ddosConf = None\<rparr>" "None :: (unit, unit) reload option"
       "\<lparr>serviceName = ''web'', realIp = ''10.0.0.2'', req_enabled = False\<rparr>" "()"]
  by (auto simp: demo_service_def Let_def)

subsection \<open>The gRPC interface\<close>

text \<open>
  C29. A configuration that a client reads and sends back. The message has every field of the
  services but the ports of their real servers, and nothing of the SYN-flood protection: what the
  manager gets back is the same list of services up to those ports, and no protection settings.
\<close>

theorem get_update_roundtrip:
  assumes "m_currConfig m = Some conf"
  shows "\<exists>msg. rpc_GetConfig m = Some msg
    \<and> rpc_UpdateConfig reload uninit msg (m, d) =
        (\<lparr>ucr_success = True, ucr_errors = []\<rparr>,
         LoadConfig reload \<lparr>services = map (sent_service uninit) (services conf), ddosConf = None\<rparr> (m, d))"
  using assms
  by (simp add: rpc_GetConfig_def ListServices_def rpc_UpdateConfig_def
      FromProtoConfiguration_ToProtoConfiguration)

lemma get_update_roundtrip_witness:
  "\<exists>msg. rpc_GetConfig \<lparr>m_currConfig = Some \<lparr>services = [demo_service ''10.0.0.1'' ''10.0.0.2''], ddosConf = None\<rparr>\<rparr> = Some msg
    \<and> ucr_success (fst (rpc_UpdateConfig (None :: (unit, unit) reload option) (\<lambda>_. 7) msg (\<lparr>m_currConfig = None\<rparr>, ())))"
  using get_update_roundtrip [of "\<lparr>m_currConfig = Some \<lparr>services = [demo_service ''10.0.0.1'' ''10.0.0.2''], ddosConf = None\<rparr>\<rparr>" _
      "None :: (unit, unit) reload option" "\<lambda>_. 7" "()"]
  by (auto simp: rpc_UpdateConfig_def split: if_splits prod.splits)

lemma from_services_eq:
  "fst (from_services u svcs) =
     map (\<lambda>s. projr (FromProtoService u s)) (filter (\<lambda>s. fromString (as_algorithm s) \<noteq> None) svcs)"
  "length (snd (from_services u svcs)) = length (filter (\<lambda>s. fromString (as_algorithm s) = None) svcs)"
  by (induction svcs)
    (auto simp: FromProtoService_def FromProtoAlgorithm_def Let_def split_beta split: option.splits)

text \<open>
  C30. What an update from the network must satisfy: each service names one of the three
  algorithms. If some do not, there is an error for each of them and nothing changes. Otherwise the
  configuration is taken over without validation and success is reported, whether or not the
  data plane could load it.
\<close>

theorem update_config_exact:
  "rpc_UpdateConfig reload uninit msg md =
     (if \<exists>s \<in> set msg. fromString (as_algorithm s) = None
      then (\<lparr>ucr_success = False, ucr_errors = snd (from_services uninit msg)\<rparr>, md)
      else (\<lparr>ucr_success = True, ucr_errors = []\<rparr>,
            LoadConfig reload \<lparr>services = map (\<lambda>s. projr (FromProtoService uninit s)) msg, ddosConf = None\<rparr> md))
   \<and> length (snd (from_services uninit msg)) = length (filter (\<lambda>s. fromString (as_algorithm s) = None) msg)"
proof -
  have none: "filter (\<lambda>s. fromString (as_algorithm s) = None) msg = [] \<longleftrightarrow>
      \<not> (\<exists>s \<in> set msg. fromString (as_algorithm s) = None)"
    by (auto simp: filter_empty_conv)
  then have errors: "snd (from_services uninit msg) = [] \<longleftrightarrow>
      \<not> (\<exists>s \<in> set msg. fromString (as_algorithm s) = None)"
    using from_services_eq(2) [of uninit msg] by (metis length_0_conv)
  have all: "fst (from_services uninit msg) = map (\<lambda>s. projr (FromProtoService uninit s)) msg"
    if "\<not> (\<exists>s \<in> set msg. fromString (as_algorithm s) = None)"
  proof -
    have "filter (\<lambda>s. fromString (as_algorithm s) \<noteq> None) msg = msg" using that by (simp add: filter_id_conv)
    then show ?thesis by (simp only: from_services_eq(1))
  qed
  show ?thesis
    using errors all from_services_eq(2) [of uninit msg]
    by (simp add: rpc_UpdateConfig_def FromProtoConfiguration_def split_beta Let_def)
qed

end
