(* ===== verification/Host_Properties.thy ===== *)
theory Host_Properties
  imports Startup Metrics_Server Arp Ndp Config_Properties
begin

section \<open>Properties of the process around the data path\<close>

text \<open>Loading the program, counting packets, listing blocked addresses, resolving neighbours.\<close>

subsection \<open>Counters\<close>

lemma cpu_total_percpu_modify:
  fixes f :: "summary_packets_data \<Rightarrow> 'w::len word"
  assumes "c < cpus" "unat i < n" "\<And>xs. f (foldl add_stats zero_stats xs) = sum_list (map f xs)"
    and "\<And>v. f (g v) = f v + w"
  shows "f (cpu_total cpus (percpu_modify n c g i m) j) = f (cpu_total cpus m j) + (if j = unat i then w else 0)"
proof (cases "j = unat i")
  case True
  have "(\<lambda>k. f (percpu_modify n c g i m k j)) = (\<lambda>k. f (((\<lambda>k. m k j)(c := g (m c j))) k))"
    using True assms(2) by (auto simp: percpu_modify_apply fun_eq_iff)
  then show ?thesis
    using sum_list_upd [OF assms(1), of f g "\<lambda>k. m k j" w] True
    by (simp add: cpu_total_def assms(3,4) comp_def)
next
  case False
  then have "(\<lambda>k. percpu_modify n c g i m k j) = (\<lambda>k. m k j)"
    using assms(2) by (auto simp: percpu_modify_apply fun_eq_iff)
  then show ?thesis using False by (simp add: cpu_total_def)
qed

lemma cpu_total_backend_stats:
  assumes "cpu env < cpus" "unat i < MAX_BACKENDS"
  shows "total_packets (cpu_total cpus (backends_packets_stats (backend_stats env (count_packet len) i st)) j)
      = total_packets (cpu_total cpus (backends_packets_stats st) j) + (if j = unat i then 1 else 0)"
    and "total_bytes (cpu_total cpus (backends_packets_stats (backend_stats env (count_packet len) i st)) j)
      = total_bytes (cpu_total cpus (backends_packets_stats st) j) + (if j = unat i then ucast len else 0)"
  using assms
  by (simp_all add: backend_stats_def cpu_total_percpu_modify total_fields zero_stats_def count_packet_def)

lemma service_stats_backends [simp]:
  "backends_packets_stats (service_stats env f i st) = backends_packets_stats st"
  by (simp add: service_stats_def)

text \<open>
  Every UDP packet that is sent to a backend is counted once, whichever CPU handles it: the
  sum over the CPUs that the control plane reports moves by one packet and by the packet's length
  for the backend the packet goes to, and for no other.
\<close>

theorem udp_packet_counted:
  assumes "find_udp_backend env key len st = (Some b, st')" and "cpu env < cpus"
  shows "\<exists>i < MAX_BACKENDS. backends_map st (atomic_index st 0) i = b
    \<and> (\<forall>j. total_packets (cpu_total cpus (backends_packets_stats st') j)
             = total_packets (cpu_total cpus (backends_packets_stats st) j) + (if j = i then 1 else 0)
           \<and> total_bytes (cpu_total cpus (backends_packets_stats st') j)
             = total_bytes (cpu_total cpus (backends_packets_stats st) j) + (if j = i then ucast len else 0))"
proof -
  obtain info where info: "hash_lookup (services_map st (atomic_index st 0)) key = Some info"
    using assms(1) by (cases "hash_lookup (services_map st (atomic_index st 0)) key")
      (auto simp: find_udp_backend_def array_lookup_def)
  obtain x l s where sched: "udp_schedule key (backends_map st (atomic_index st 0)) info 0 st = (x, l, s)"
    by (rule prod_cases3)
  have x: "x = Some b" and st': "st' = service_stats env (count_packet len) (service_idx info)
      (backend_stats env (count_packet len) l s)"
    using assms(1) info sched by (auto simp: find_udp_backend_def array_lookup_def split: option.splits)
  note step = udp_schedule_step [OF sched]
  have l: "unat l < MAX_BACKENDS" "backends_map st (atomic_index st 0) (unat l) = b"
    using step(3) [OF x] by (auto simp: array_lookup_def split: if_splits)
  have "backends_packets_stats s = backends_packets_stats st" by (rule sched_frame_fields(8) [OF step(1)])
  then show ?thesis using l cpu_total_backend_stats [OF assms(2) l(1), of len s]
    by (intro exI [of _ "unat l"]) (simp add: st')
qed

definition demo_udp_maps :: xdp_maps where
  "demo_udp_maps = (demo_maps BALANCER_RR)
     \<lparr>services_first := [(demo_key\<lparr>sk_protocol := IPPROTO_UDP\<rparr>, demo_info BALANCER_RR)],
      rr_index := [(demo_key\<lparr>sk_protocol := IPPROTO_UDP\<rparr>, 0)]\<rparr>"

lemma demo_udp_found:
  "\<exists>st'. find_udp_backend (demo_env 0) (demo_key\<lparr>sk_protocol := IPPROTO_UDP\<rparr>) 60 demo_udp_maps = (Some (demo_backend 2), st')"
  by (simp add: find_udp_backend_def udp_schedule_def demo_udp_maps_def demo_eval balancer_alg_defs)

lemma udp_packet_counted_witness:
  "\<exists>st' i. find_udp_backend (demo_env 0) (demo_key\<lparr>sk_protocol := IPPROTO_UDP\<rparr>) 60 demo_udp_maps = (Some (demo_backend 2), st')
     \<and> total_bytes (cpu_total 4 (backends_packets_stats st') i)
       = total_bytes (cpu_total 4 (backends_packets_stats demo_udp_maps) i) + 60"
proof -
  obtain st' where f: "find_udp_backend (demo_env 0) (demo_key\<lparr>sk_protocol := IPPROTO_UDP\<rparr>) 60 demo_udp_maps
      = (Some (demo_backend 2), st')"
    using demo_udp_found by blast
  have "cpu (demo_env 0) < 4" by (simp add: demo_env_def)
  from udp_packet_counted [OF f this] f show ?thesis by force
qed

text \<open>
  C31. What \<open>GetBackendsMetrics\<close> gives for a backend: the sum over all CPUs of the counters at the
  backend's index, unless a later backend of the configuration has the same address, port, hardware
  address, state and weight, whose counters are then given instead.
\<close>

theorem backend_metrics_exact:
  assumes "maps_opened d" "j < length (m_xdpBackends d)" "length (m_xdpBackends d) \<le> MAX_BACKENDS"
  shows "\<exists>k. j \<le> k \<and> k < length (m_xdpBackends d)
    \<and> backend_rank (m_xdpBackends d ! k) = backend_rank (m_xdpBackends d ! j)
    \<and> (\<forall>i. k < i \<and> i < length (m_xdpBackends d) \<longrightarrow> backend_rank (m_xdpBackends d ! i) \<noteq> backend_rank (m_xdpBackends d ! j))
    \<and> omap_find backend_lt (m_xdpBackends d ! j) (GetBackendsMetrics cpus d) =
        Some (cpu_total cpus (backends_packets_stats (kernel d)) k)"
proof -
  let ?P = "\<lambda>k. j \<le> k \<and> k < length (m_xdpBackends d)
      \<and> backend_rank (m_xdpBackends d ! k) = backend_rank (m_xdpBackends d ! j)"
  define k where "k = Max {k. ?P k}"
  have fin: "finite {k. ?P k}" by (rule finite_subset [of _ "{..<length (m_xdpBackends d)}"]) auto
  have "j \<in> {k. ?P k}" using assms(2) by simp
  then have k: "?P k" unfolding k_def using Max_in [OF fin] by blast
  have later: "backend_rank (m_xdpBackends d ! i) \<noteq> backend_rank (m_xdpBackends d ! j)"
    if "k < i" "i < length (m_xdpBackends d)" for i
    using Max_ge [OF fin, of i] that k by (auto simp: k_def [symmetric])
  have "omap_find backend_lt (m_xdpBackends d ! j) (GetBackendsMetrics cpus d) =
      Some (foldl add_stats zero_stats (map (\<lambda>c. backends_packets_stats (kernel d) c k) [0..<cpus]))"
    unfolding GetBackendsMetrics_def
  proof (rule bk.sum_entries_last [of k])
    show "\<forall>x \<in> set (drop (Suc k) (m_xdpBackends d)). backend_rank x \<noteq> backend_rank (m_xdpBackends d ! j)"
      using later by (auto simp: in_set_conv_nth)
    have "unat (of_nat (0 + k) :: u32) = k" using k assms(3) by (simp add: unat_of_nat max_defs)
    then show "lookup_cpus cpus (maps_opened d) MAX_BACKENDS (backends_packets_stats (kernel d)) (of_nat (0 + k)) =
        Some (map (\<lambda>c. backends_packets_stats (kernel d) c k) [0..<cpus])"
      using k assms(1,3) by (simp add: lookup_cpus_def)
  qed (use k in simp_all)
  then show ?thesis using k later by (auto simp: cpu_total_def)
qed

lemma backend_metrics_exact_witness:
  "\<exists>k. omap_find backend_lt (demo_backend 1)
     (GetBackendsMetrics 4 ((initial_dataplane True)\<lparr>m_xdpBackends := [demo_backend 1, demo_backend 2]\<rparr>)) =
     Some (cpu_total 4 (backends_packets_stats initial_maps) k)"
  using backend_metrics_exact [of "(initial_dataplane True)\<lparr>m_xdpBackends := [demo_backend 1, demo_backend 2]\<rparr>" 0 4]
  by (auto simp: initial_dataplane_def max_defs)

subsection \<open>Scrapes\<close>

lemma list_all2_right: "list_all2 P xs ys \<Longrightarrow> y \<in> set ys \<Longrightarrow> \<exists>x \<in> set xs. P x y"
  by (induction rule: list_all2_induct) auto

text \<open>A scrape of a state of the data plane.\<close>

definition scrapes :: "nat \<Rightarrow> xdp_dataplane \<Rightarrow> scrape \<Rightarrow> bool" where
  "scrapes cpus d x \<longleftrightarrow>
     currentBackendMetrics x = GetBackendsCurrentMetrics cpus d
     \<and> currentServiceMetrics x = GetServicesCurrentMetrics cpus d \<and> GetDdosStats d = Some (ddos x)"

lemma sum_entries_keys:
  "e \<in> set (sum_entries backend_lt read i ks m) \<Longrightarrow> fst e \<in> set ks \<or> fst e \<in> fst ` set m"
proof (induction ks arbitrary: i m)
  case (Cons k ks)
  have put: "fst e \<in> set ks \<or> fst e = k \<or> fst e \<in> fst ` set m"
    if "fst e \<in> set ks \<or> fst e \<in> fst ` set (omap_put backend_lt k v m)" for v
    using that
  proof
    assume "fst e \<in> fst ` set (omap_put backend_lt k v m)"
    then obtain p where "p \<in> set (omap_put backend_lt k v m)" "fst e = fst p" by blast
    then show ?thesis using bk.put_keys [of p k v m] by simp
  qed simp
  show ?case
  proof (cases "read (of_nat i)")
    case (Some ps)
    then show ?thesis
      using put [of "foldl add_stats zero_stats ps"] Cons.prems
        Cons.IH [of "Suc i" "omap_put backend_lt k (foldl add_stats zero_stats ps) m"]
      by simp blast
  qed (use Cons in auto)
qed auto

lemma labels_fold:
  assumes "\<forall>e \<in> set es. be_ip_version (fst e) = 4 \<or> be_ip_version (fst e) = 6"
    and "omap_ok backend_label_lt m" "list_all (\<lambda>e. known_version (fst e)) m"
  defines "m' \<equiv> foldl (\<lambda>m (b, stats). omap_put backend_label_lt (label_backend b) (metrics_of stats) m) m es"
  shows "omap_ok backend_label_lt m' \<and> list_all (\<lambda>e. known_version (fst e)) m'"
  unfolding m'_def using assms(1-3)
proof (induction es arbitrary: m)
  case (Cons e es)
  obtain b stats where e: "e = (b, stats)" by (cases e)
  have "known_version (label_backend b)"
    using Cons.prems(1) by (auto simp: e known_version_def label_backend_def)
  then have "list_all (\<lambda>e. known_version (fst e)) (omap_put backend_label_lt (label_backend b) (metrics_of stats) m)"
    using Cons.prems(3) bl.put_keys by (fastforce simp: list_all_iff)
  then show ?case using Cons bl.put_ok [OF Cons.prems(2)] by (simp add: e)
qed simp

lemma current_metrics_ok:
  assumes "\<forall>b \<in> set (m_xdpBackends d). be_ip_version b = 4 \<or> be_ip_version b = 6"
  shows "omap_ok backend_label_lt (GetBackendsCurrentMetrics cpus d)
    \<and> list_all (\<lambda>e. known_version (fst e)) (GetBackendsCurrentMetrics cpus d)"
  unfolding GetBackendsCurrentMetrics_def
  by (rule labels_fold)
    (use assms in \<open>auto simp: GetBackendsMetrics_def omap_ok_def dest!: sum_entries_keys\<close>)

text \<open>
  What the exported counters of a backend show: however often the server scrapes, the sum of
  all increments it gave to an instrument is the value the data plane had at the last scrape, as
  long as every scrape finds the backend.
\<close>

theorem exported_counters:
  assumes "list_all2 (scrapes cpus) (ds @ [d]) (xs @ [x])" and "(i, f) \<in> set backend_counters"
    and "\<forall>d' \<in> set (ds @ [d]). \<forall>b' \<in> set (m_xdpBackends d'). be_ip_version b' = 4 \<or> be_ip_version b' = 6"
    and "\<forall>d' \<in> set (ds @ [d]). omap_find backend_label_lt b (GetBackendsCurrentMetrics cpus d') \<noteq> None"
  shows "\<exists>cur. omap_find backend_label_lt b (GetBackendsCurrentMetrics cpus d) = Some cur
    \<and> added_up i (backend_labels b) (calls (fold (scrapMetrics ops) (xs @ [x]) (new_server t))) = f cur"
proof -
  have d: "scrapes cpus d x" using list_all2_lengthD [OF assms(1)] assms(1) by (simp add: list_all2_append)
  obtain cur where cur: "omap_find backend_label_lt b (GetBackendsCurrentMetrics cpus d) = Some cur"
    using assms(4) by auto
  have all: "scrape_ok y \<and> omap_find backend_label_lt b (currentBackendMetrics y) \<noteq> None"
    if y: "y \<in> set (xs @ [x])" for y
  proof -
    obtain d' where "d' \<in> set (ds @ [d])" "scrapes cpus d' y"
      using list_all2_right [OF assms(1) y] by blast
    moreover from this have "omap_find backend_label_lt b (GetBackendsCurrentMetrics cpus d') \<noteq> None"
      "\<forall>b' \<in> set (m_xdpBackends d'). be_ip_version b' = 4 \<or> be_ip_version b' = 6"
      using assms(3,4) by blast+
    ultimately show ?thesis using current_metrics_ok [of d' cpus] by (simp add: scrapes_def scrape_ok_def)
  qed
  have "(b, cur) \<in> set (GetBackendsCurrentMetrics cpus d)"
    using bl.find_mem [OF cur] by (auto simp: backend_label_rank_inj)
  then have "known_version b" using current_metrics_ok [of d cpus] assms(3) by (auto simp: list_all_iff)
  with counted_scrapes [OF assms(2), of b xs x cur] all cur d show ?thesis by (auto simp: scrapes_def)
qed

subsection \<open>Blocked addresses\<close>

definition demo_counting :: "u64 \<Rightarrow> xdp_dataplane" where
  "demo_counting n = (initial_dataplane True)
     \<lparr>m_xdpBackends := [demo_backend 1],
      kernel := initial_maps\<lparr>backends_packets_stats := (\<lambda>_ _. zero_stats\<lparr>total_packets := n\<rparr>)\<rparr>\<rparr>"

definition demo_scrape :: "u64 \<Rightarrow> scrape" where
  "demo_scrape n = \<lparr>now = 0, currentBackendMetrics = GetBackendsCurrentMetrics 2 (demo_counting n),
     currentServiceMetrics = GetServicesCurrentMetrics 2 (demo_counting n),
     ddos = \<lparr>ds_dropped_total = 0, ds_blacklist_size = 0\<rparr>\<rparr>"

definition demo_ops :: "int double_ops" where
  "demo_ops = \<lparr>seconds = (\<lambda>t. t div 1000000000), above_1ms = (\<lambda>t. 0 < t), double_of = uint,
     times_1_5 = (\<lambda>x. x + x div 2), divided_by = (\<lambda>x y. x div y)\<rparr>"

lemma demo_current:
  "omap_find backend_label_lt (label_backend (demo_backend 1)) (GetBackendsCurrentMetrics 2 (demo_counting n)) =
     Some (metrics_of (cpu_total 2 (\<lambda>_ _. zero_stats\<lparr>total_packets := n\<rparr>) 0))"
  by (simp add: GetBackendsCurrentMetrics_def GetBackendsMetrics_def demo_counting_def initial_dataplane_def
      lookup_cpus_def max_defs cpu_total_def bl.lt_rank)

lemma demo_scrapes: "scrapes 2 (demo_counting n) (demo_scrape n)"
  using count_keys_length [of "[] :: (u32, u64) bpf_hash"]
  by (simp add: scrapes_def demo_scrape_def GetDdosStats_def GetGlobalSynStats_def demo_counting_def
      initial_dataplane_def initial_maps_def array_lookup_def)

lemma exported_counters_witness:
  "added_up Backend_total_packets (backend_labels (label_backend (demo_backend 1)))
     (calls (fold (scrapMetrics demo_ops) [demo_scrape 3, demo_scrape 10] (new_server 0))) = 20"
  using exported_counters [of 2 "[demo_counting 3]" "demo_counting 10" "[demo_scrape 3]" "demo_scrape 10"
      Backend_total_packets md_total_packets "label_backend (demo_backend 1)" demo_ops 0]
  by (simp add: demo_scrapes demo_current backend_counters_def metrics_of_def cpu_total_def total_fields)
    (simp add: demo_counting_def initial_dataplane_def demo_backend_def zero_stats_def numeral_eq_Suc)

text \<open>
  C32. The two queries about the blacklist. Its size is reported exactly, modulo $2^{64}$; the list
  itself only when it is empty: otherwise the loop that reads it asks for the first key again
  and again, and the request never returns.
\<close>

theorem blacklist_queries:
  assumes "maps_opened d" "maps_ok (kernel d)"
  shows "GetDdosStats d = Some \<lparr>ds_dropped_total = dropped_total (global_syn (kernel d) 0),
      ds_blacklist_size = of_nat (length (blacklist (kernel d)))\<rparr>
    \<and> (GetBlackList d = (if blacklist (kernel d) = [] then Some [] else None))"
proof -
  have "distinct (map fst (blacklist (kernel d)))" using assms(2) by (simp add: maps_ok_def hash_ok_def)
  from count_keys_length [OF this] show ?thesis
    using assms(1)
    by (simp add: GetDdosStats_def GetGlobalSynStats_def GetBlackList_def array_lookup_def
        read_blacklist_nonempty read_blacklist_empty)
qed

definition demo_blocked :: xdp_dataplane where
  "demo_blocked = (initial_dataplane True)\<lparr>kernel := initial_maps\<lparr>blacklist := [(0x0200000A, 5)]\<rparr>\<rparr>"

lemma blacklist_queries_witness:
  "GetBlackList demo_blocked = None \<and> map_option ds_blacklist_size (GetDdosStats demo_blocked) = Some 1"
proof -
  have "maps_opened demo_blocked" "maps_ok (kernel demo_blocked)"
    using maps_ok_initial by (simp_all add: demo_blocked_def initial_dataplane_def maps_ok_def hash_ok_def max_defs)
  from blacklist_queries [OF this] show ?thesis by (simp add: demo_blocked_def)
qed

subsection \<open>A program that does not load\<close>

text \<open>What \<open>RunProgram\<close> needs once the object file could be opened.\<close>

definition runs :: "bpf_host \<Rightarrow> string \<Rightarrow> loader \<Rightarrow> bool" where
  "runs b bin l \<longleftrightarrow>
     object_loads b bin \<and> 0 < if_nametoindex b (m_progInterface l)
     \<and> (\<exists>flags \<in> {XDP_FLAGS_UPDATE_IF_NOEXIST, XDP_FLAGS_SKB_MODE}.
          xdp_attach b (if_nametoindex b (m_progInterface l)) (program_fd b (m_progName l)) flags)
     \<and> (\<forall>name \<in> set all_maps. object_has_map b name)"

lemma RunProgram_runs:
  assumes "object_opens b bin"
  shows "(\<exists>l'. RunProgram b bin l = Some (None, l')) \<longleftrightarrow> runs b bin l"
  using assms find_missing [of "object_has_map b" all_maps]
  by (auto simp: RunProgram_eqs runs_def split: option.split)

text \<open>
  C33. Starting up with an object file that opens but cannot be run, because it does not load, the
  interface does not exist, the kernel refuses it or a map is missing: the error path frees the
  object and returns from \<open>main\<close>, where the destructor frees it a second time. The process has
  undefined behaviour then, instead of the exit code 1 it means to give.
\<close>

theorem failed_start_undefined:
  assumes "\<not> arg_help args" "arg_config_file args = Some name" "files name = Some content"
    and "arg_format args = Some ''json''" "arg_xdp_binary args = Some bin"
    and "object_opens b bin" "\<not> runs b bin (new_loader ''balancer_handler'' (iface_of args))"
  shows "main_program h b files api args = Undefined"
proof -
  let ?l = "new_loader ''balancer_handler'' (iface_of args)"
  obtain e l where run: "RunProgram b bin ?l = Some (Some e, l)"
    using RunProgram_defined [of b bin ?l] RunProgram_runs [OF assms(6), of ?l] assms(7)
    by (cases "RunProgram b bin ?l") (auto simp del: not_None_eq)
  from RunProgram_failure [OF run assms(6)] have "leave_main 1 l = Undefined"
    by (simp add: leave_main_def destroy_def close_object_def Let_def)
  then show ?thesis
    using assms(1-5) run by (simp add: main_program_def openFile_def Let_def)
qed

definition demo_args :: main_args where
  "demo_args = \<lparr>arg_help = False, arg_config_file = Some ''lb.json'', arg_format = Some ''json'',
     arg_xdp_binary = Some ''xdp.o'', arg_iface = None\<rparr>"

text \<open>The addresses of the C library, and one neighbour for every address.\<close>

definition demo_host :: host where
  "demo_host = \<lparr>inet_aton = map_of [(''10.0.0.1'', 0x0100000A), (''10.0.0.2'', 0x0200000A)], inet_pton6 = (\<lambda>_. None), Arp_Lookup = (\<lambda>_. Some (Some [2, 0, 0, 0, 0, 7])),
     Ndp_Lookup = (\<lambda>_. Some Unresolved), rest_of_union = replicate 12 0, rest_of_index = 0\<rparr>"

definition demo_bpf :: "nat \<Rightarrow> bpf_host" where
  "demo_bpf ifindex = \<lparr>object_opens = (\<lambda>_. True), object_loads = (\<lambda>_. True), program_fd = (\<lambda>_. 3),
     if_nametoindex = (\<lambda>_. ifindex), xdp_attach = (\<lambda>_ _ _. True), object_has_map = (\<lambda>_. True)\<rparr>"

lemma failed_start_undefined_witness:
  "main_program demo_host (demo_bpf 0) (\<lambda>_. Some ''text'') (demo_api JNull) demo_args = Undefined"
  using failed_start_undefined [of demo_args "''lb.json''" "\<lambda>_. Some ''text''" "''text''" "''xdp.o''" "demo_bpf 0"
      demo_host "demo_api JNull"]
  by (simp add: demo_args_def demo_bpf_def runs_def new_loader_def)

subsection \<open>Neighbours\<close>

text \<open>
  C34. An IPv4 lookup finds its neighbour: when the socket calls succeed, the neighbour answers the
  request of the code as RFC 826 says, and only unrelated frames come before the answer, the
  lookup returns the neighbour's hardware address, and the socket is closed.
\<close>

theorem arp_resolves:
  assumes "socket_ok a" "ioctl_ifindex a (ifr_name iface) = Some i"
    and "ioctl_hwaddr a (ifr_name iface) = Some src_mac" "ioctl_addr a (ifr_name iface) = Some src_ip"
    and "inet_addr a ipv4 = ip" "ip \<noteq> INADDR_NONE" "bind_ok a" "setsockopt_ok a"
    and "length src_mac = 6" "length hw = 6" "sendto_ok a (arp_request src_mac src_ip ip)"
    and "\<forall>k < n. skipped ip (recvfrom a k)"
    and "map_option Frame (arp_peer hw ip (arp_request src_mac src_ip ip)) = Some (recvfrom a n)"
  shows "arp_Lookup a ipv4 iface fds = Some (Some hw, fds)"
proof -
  obtain reply where reply: "arp_peer hw ip (arp_request src_mac src_ip ip) = Some reply" "length reply = 42"
    "\<forall>buf. is_reply_of ip (receive_into reply buf)" "\<forall>buf. take 6 (drop 22 (receive_into reply buf)) = hw"
    by (rule arp_peer_answers [OF assms(9,10)])
  obtain buf where "recv_loop (recvfrom a) ip 0 (stack_bytes a) = recv_loop (recvfrom a) ip (0 + n) buf"
    using recv_loop_skips [of n ip "recvfrom a" 0 "stack_bytes a"] assms(12) by auto
  moreover have "recv_loop (recvfrom a) ip n buf = Some (Some hw)"
  proof -
    have "recvfrom a n = Frame reply" using assms(13) reply(1) by simp
    then show ?thesis using reply(2-4) by (subst recv_loop.simps) (simp add: Let_def BUF_SIZE_def)
  qed
  ultimately have "recv_arp_reply a ip = Some (Some hw)" using assms(8) by (simp add: recv_arp_reply_def)
  then show ?thesis
    using assms(1-7,11) by (simp add: arp_Lookup_def get_if_index_def send_arp_req_def Let_def)
qed

definition demo_mac :: bytes where
  "demo_mac = [2, 0, 0, 0, 0, 7]"

definition demo_arp :: "recv_result \<Rightarrow> arp_host" where
  "demo_arp r = \<lparr>socket_ok = True, ioctl_ifindex = (\<lambda>_. Some 2), ioctl_hwaddr = (\<lambda>_. Some [2, 0, 0, 0, 0, 1]),
     ioctl_addr = (\<lambda>_. Some 0x0100000A), inet_addr = (\<lambda>_. 0x0200000A), bind_ok = True, sendto_ok = (\<lambda>_. True),
     setsockopt_ok = True, recvfrom = (\<lambda>k. if k = 0 then Frame [1, 2, 3] else r),
     stack_bytes = replicate 2048 0\<rparr>"

lemma arp_resolves_witness:
  "\<exists>reply. arp_Lookup (demo_arp (Frame reply)) ''10.0.0.2'' ''eth0'' 3 = Some (Some demo_mac, 3)"
proof -
  obtain reply where "arp_peer demo_mac 0x0200000A (arp_request [2, 0, 0, 0, 0, 1] 0x0100000A 0x0200000A) = Some reply"
    by (rule arp_peer_answers [of "[2, 0, 0, 0, 0, 1]" demo_mac "0x0200000A" "0x0100000A"]) (simp_all add: demo_mac_def)
  then show ?thesis
    using arp_resolves [of "demo_arp (Frame reply)" "''eth0''" 2 "[2, 0, 0, 0, 0, 1]" "0x0100000A" "''10.0.0.2''"
        "0x0200000A" demo_mac 1 3]
    by (auto simp: demo_arp_def INADDR_NONE_def demo_mac_def skipped_def BUF_SIZE_def)
qed

lemma ndp_lookup_start:
  assumes "nd_inet_pton n ipv6 = Some addr6" "nd_if_index n iface \<noteq> 0" "nd_socket_ok n" "nd_bind_ok n"
    and "nd_send_ok n (neighbour_request (nd_pid n) (nd_if_index n iface))"
  shows "ndp_Lookup n ipv6 iface = datagram_loop (nd_recvmsg n) (nd_if_index n iface) addr6 0 (nd_stack_bytes n)"
  using assms by (simp add: ndp_Lookup_def Let_def)

text \<open>
  An IPv6 lookup whose first datagram starts with the neighbour's entry gives the hardware
  address of that entry.
\<close>

theorem ndp_resolves:
  assumes "nd_inet_pton n ipv6 = Some addr6" "nd_if_index n iface \<noteq> 0" "nd_socket_ok n" "nd_bind_ok n"
    and "nd_send_ok n (neighbour_request (nd_pid n) (nd_if_index n iface))"
    and "length addr6 = 16" "length hw = 6" "length (nd_stack_bytes n) = BUFFER_SIZE"
    and "nd_recvmsg n 0 = Some (Datagram (neighbour_entry pid (nd_if_index n iface) state addr6 hw @ rest))"
  shows "ndp_Lookup n ipv6 iface = Some (Resolved hw)"
proof -
  let ?entry = "neighbour_entry pid (nd_if_index n iface) state addr6 hw"
  have len: "length ?entry = 60" by (simp add: neighbour_entry_def assms(6,7))
  let ?buf = "fill_buffer (?entry @ rest) (nd_stack_bytes n)"
  have "length ?buf = BUFFER_SIZE" "take 60 ?buf = ?entry"
    using assms(8) len by (simp_all add: fill_buffer_def BUFFER_SIZE_def)
  from neighbour_entry_walk [OF assms(6,7) this(1) _ _ this(2), of "length (take BUFFER_SIZE (?entry @ rest))"] len
  have "walk_messages (nd_if_index n iface) addr6 ?buf 0 (int (length (take BUFFER_SIZE (?entry @ rest)))) = Found hw"
    by (simp add: BUFFER_SIZE_def)
  then show ?thesis
    by (simp only: ndp_lookup_start [OF assms(1-5)], subst datagram_loop.simps) (simp add: assms(9) Let_def)
qed

definition demo_ndp :: "(nat \<Rightarrow> netlink_answer option) \<Rightarrow> ndp_host" where
  "demo_ndp answers = \<lparr>nd_inet_pton = (\<lambda>_. Some (replicate 15 0 @ [1])), nd_if_index = (\<lambda>_. 2),
     nd_socket_ok = True, nd_bind_ok = True, nd_pid = 77, nd_send_ok = (\<lambda>_. True), nd_recvmsg = answers,
     nd_stack_bytes = replicate BUFFER_SIZE 0\<rparr>"

lemma ndp_resolves_witness:
  "ndp_Lookup (demo_ndp (\<lambda>k. if k = 0
     then Some (Datagram (neighbour_entry 77 2 2 (replicate 15 0 @ [1]) demo_mac @ [])) else None)) ''::1'' ''eth0''
   = Some (Resolved demo_mac)"
  by (rule ndp_resolves [where pid = 77 and state = 2 and rest = "[]"])
    (simp_all add: demo_ndp_def demo_mac_def)

text \<open>
  When no datagram has an entry of the neighbour or an error, an IPv6 lookup does not return:
  the message that ends the kernel's answer ends the walk through its datagram only, and the
  code waits for another one without a time limit.
\<close>

theorem ndp_unknown_hangs:
  assumes "nd_inet_pton n ipv6 = Some addr6" "nd_if_index n iface \<noteq> 0" "nd_socket_ok n" "nd_bind_ok n"
    and "nd_send_ok n (neighbour_request (nd_pid n) (nd_if_index n iface))"
    and "\<forall>k. passed_over (nd_if_index n iface) addr6 (nd_recvmsg n k)"
  shows "ndp_Lookup n ipv6 iface = None"
  using datagram_loop_diverges [OF assms(6)] by (simp only: ndp_lookup_start [OF assms(1-5)])

text \<open>The kernel's answer for an empty table: a single message that ends the dump.\<close>

definition dump_done :: bytes where
  "dump_done = bytes32 20 @ bytes16 NLMSG_DONE @ bytes16 2 @ bytes32 1 @ bytes32 77 @ [0, 0, 0, 0]"

lemma dump_done_passed: "passed_over if_index addr6 (Some (Datagram dump_done))"
proof -
  have "walk_messages if_index addr6 (fill_buffer dump_done buf) 0 20 = Read_on" for buf
    by (subst walk_messages.simps)
      (simp add: fill_buffer_def dump_done_def BUFFER_SIZE_def as_size_t_def u32_at_def u16_at_def netlink_defs)
  then show ?thesis by (simp add: passed_over_def) (simp add: dump_done_def BUFFER_SIZE_def)
qed

lemma ndp_unknown_hangs_witness:
  "ndp_Lookup (demo_ndp (\<lambda>k. if k = 0 then Some (Datagram dump_done) else None)) ''::1'' ''eth0'' = None"
  by (rule ndp_unknown_hangs) (simp_all add: demo_ndp_def dump_done_passed, simp add: passed_over_def)

end
