(* ===== verification/System_Properties.thy ===== *)
theory System_Properties
  imports Wrr_Cursors Host_Properties Reload_Returns
begin

section \<open>Properties of the whole system\<close>

text \<open>The manager, the reload, the maintenance and the XDP program on their shared maps.\<close>

definition demo_service4 :: balancer_service where
  "demo_service4 = \<lparr>reals = [\<lparr>real_ip = ''10.0.0.2'', enabled = True, real_weight = 3, real_ip_version = 4, real_port = 80\<rparr>],
     srv_name = ''web'', srv_vip = ''10.0.0.1'', srv_protocol = ''tcp'', srv_port = 80, srv_type = RR, srv_ip_version = 4\<rparr>"

definition demo_config :: base_config where
  "demo_config = \<lparr>services = [demo_service4], ddosConf = None\<rparr>"

lemma demo_host_ok: "host_ok demo_host" "rest_of_index demo_host = 0"
  by (simp_all add: host_ok_def demo_host_def)

lemma demo_resolves:
  "resolves demo_host demo_service4" "the_key demo_host demo_service4 = make_service_key ([10, 0, 0, 1] @ replicate 12 0) 80 IPPROTO_TCP 4"
  by (simp_all add: resolves_def demo_service4_def demo_host_def prepare_key_def prepare_backend_def lookup_mac_def the_key_def
      protocol_number_def make_service_key_def bytes32_def)

lemma demo_fits: "fits demo_host demo_config (initial_dataplane True)"
  using demo_resolves(1)
  by (simp add: fits_def demo_config_def standby_services_def standby_def initial_dataplane_def initial_maps_def
      config_backends_def service_backends_def max_defs)
    (simp add: demo_service4_def)

lemma demo_start: "maps_opened (initial_dataplane True)" "standby (initial_dataplane True) = 0"
  "maps_ok (kernel (initial_dataplane True))" "dataplane_ok (initial_dataplane True)"
  using dataplane_ok_initial [of True] by (simp_all add: initial_dataplane_def standby_def maps_ok_initial)

subsection \<open>Reloading\<close>

text \<open>
  C5. What a reload does, whatever it reports: when the maps are open, everything resolves, there is
  room and the four uninitialised bytes behind the new index are zero, the other half of the double
  buffer becomes the active one. In it every service of the configuration has its entry, the
  backends are those of the configuration in order, and all other keys have what this half held
  before.
\<close>

theorem reload_installs:
  assumes "maps_opened d" "maps_ok (kernel d)" "standby d = 0 \<or> standby d = 1" "rest_of_index h = 0"
    and "fits h config d"
  defines "st \<equiv> kernel (snd (ReloadConfig h config d))"
  shows "serves h (services config) st \<and> atomic_index st 0 = (if standby d = 0 then 1 else 0)
    \<and> (\<forall>k. k \<notin> the_key h ` set (services config) \<longrightarrow>
         hash_lookup (services_map st (atomic_index st 0)) k = hash_lookup (standby_services d) k)"
  using ReloadConfig_installs [OF assms(1-5)] by (simp add: st_def elsewhere_def)

lemma reload_installs_witness:
  "hash_lookup (services_second (kernel (snd (ReloadConfig demo_host demo_config (initial_dataplane True)))))
     (make_service_key ([10, 0, 0, 1] @ replicate 12 0) 80 IPPROTO_TCP 4) = Some (prepare_info demo_service4 0 0)"
proof -
  let ?st = "kernel (snd (ReloadConfig demo_host demo_config (initial_dataplane True)))"
  have st: "serves demo_host [demo_service4] ?st" "atomic_index ?st 0 = 1"
    using reload_installs [OF demo_start(1,3) _ demo_host_ok(2) demo_fits] demo_start(2)
    by (simp_all add: demo_config_def)
  then show ?thesis by (simp add: serves_def services_map_def demo_resolves(2) service_start_def)
qed

text \<open>
  C35. Such a reload reports a failure all the same for every configuration with an IPv4 service
  on an address that is 256 or more as a number in memory order: the last phase takes the
  address for an index into the counters of the services.
\<close>

theorem reload_reports_failure:
  assumes "maps_opened d" "maps_ok (kernel d)" "standby d = 0 \<or> standby d = 1" "rest_of_index h = 0"
    and "fits h config d"
    and "s \<in> set (services config)" "srv_ip_version s = 4" "inet_aton h (srv_vip s) = Some a" "256 \<le> unat a"
  shows "fst (ReloadConfig h config d) \<noteq> None
    \<and> serves h (services config) (kernel (snd (ReloadConfig h config d)))"
proof -
  obtain e where e: "ReloadConfig h config d = after_switch h config e"
      "m_xdpKeys e = map (the_key h) (services config)"
    by (rule ReloadConfig_switches [OF assms(1-5)])
  have "\<not> unat (vip4 (the_key h s)) < MAX_SERVICES"
    using assms(9) by (simp add: prepare_key_v4 [OF assms(7,8)] max_defs)
  then have "fst (after_switch h config e) \<noteq> None"
    using after_switch_None [of h config e] e(2) assms(6) by auto
  then show ?thesis using e(1) ReloadConfig_installs(1) [OF assms(1-5)] by simp
qed

lemma reload_reports_failure_witness:
  "fst (ReloadConfig demo_host demo_config (initial_dataplane True)) \<noteq> None"
  using reload_reports_failure [OF demo_start(1,3) _ demo_host_ok(2) demo_fits, of demo_service4 "0x0100000A"] demo_start(2)
  by (simp add: demo_config_def) (simp add: demo_service4_def demo_host_def)

text \<open>
  C36. A reload that cannot start or finish its preparation, because the maps are not open or an
  address or a neighbour of one service does not resolve, gives an error, or never returns if a
  lookup does not, and leaves every map of the kernel as it is: the flows keep the configuration
  they have.
\<close>

theorem reload_refused:
  assumes "\<not> maps_opened d \<or> (\<exists>s \<in> set (services config). \<not> resolves h s)"
  shows "fst (ReloadConfig h config d) \<noteq> None \<and> kernel (snd (ReloadConfig h config d)) = kernel d"
proof (cases "maps_opened d")
  case True
  then obtain s where "s \<in> set (services config)" "\<not> resolves h s" using assms by blast
  then show ?thesis by (intro ReloadConfig_refused prepare_unresolved)
next
  case False
  then show ?thesis by (simp add: ReloadConfig_def)
qed

lemma reload_refused_witness:
  "fst (ReloadConfig (demo_host\<lparr>Arp_Lookup := (\<lambda>_. Some None)\<rparr>) demo_config (initial_dataplane True)) \<noteq> None"
  using reload_refused [of "initial_dataplane True" demo_config "demo_host\<lparr>Arp_Lookup := (\<lambda>_. Some None)\<rparr>"]
  by (simp add: demo_config_def)
    (simp add: resolves_def demo_service4_def prepare_backend_def lookup_mac_def demo_host_def)

text \<open>
  C37. A reload never returns when the neighbour of an IPv6 server is unknown: when everything before
  that server resolves, the lookup waits for an answer that the kernel's dump does not have, without
  a time limit (\<open>Ndp\<close>). The maps stay as they are, and the command that asked for the reload does
  not finish.
\<close>

theorem unknown_neighbour_blocks:
  assumes "maps_opened d" "services config = before @ s # after" "reals s = rs @ r # rest"
    and "\<forall>t \<in> set before. resolves (asking_neighbours a n iface h) t" "prepare_key h s \<noteq> None"
    and "\<forall>r \<in> set rs. \<exists>b. prepare_backend (asking_neighbours a n iface h) s r = Inr b"
    and "real_ip_version r \<noteq> 4" "inet_pton6 h (real_ip r) \<noteq> None"
    and "nd_inet_pton n (real_ip r) = Some addr6" "nd_if_index n iface \<noteq> 0" "nd_socket_ok n" "nd_bind_ok n"
    and "nd_send_ok n (neighbour_request (nd_pid n) (nd_if_index n iface))"
    and "\<forall>k. passed_over (nd_if_index n iface) addr6 (nd_recvmsg n k)"
  shows "fst (ReloadConfig (asking_neighbours a n iface h) config d) = Some Never_returns
    \<and> kernel (snd (ReloadConfig (asking_neighbours a n iface h) config d)) = kernel d
    \<and> \<not> finishes (asking_neighbours a n iface h) (Some config) d"
proof -
  let ?h = "asking_neighbours a n iface h"
  have fields: "inet_aton ?h = inet_aton h" "inet_pton6 ?h = inet_pton6 h" "rest_of_union ?h = rest_of_union h"
    by (simp_all add: asking_neighbours_def)
  have "ndp_Lookup n (real_ip r) iface = None"
    using datagram_loop_diverges [OF assms(14)] by (simp only: ndp_lookup_start [OF assms(9-13)])
  then have mac: "lookup_mac ?h r = Inl Never_returns" using assms(7) by (simp add: lookup_mac_def asking_neighbours_def)
  have r: "prepare_backend ?h s r = Inl Never_returns"
    using assms(7,8) mac by (auto simp: prepare_backend_def fields)
  have reals: "fst (prepare_reals ?h s (rs @ r # rest) e) = Some Never_returns" for e
    using assms(6) r by (induction rs arbitrary: e) auto
  have "prepare_key ?h s = prepare_key h s" by (simp add: prepare_key_def fields Let_def)
  then obtain key where key: "prepare_key ?h s = Some key" using assms(5) by auto
  have "fst (prepare_services ?h (before @ s # after) start e) = Some Never_returns" for start e
    using assms(4)
  proof (induction before arbitrary: start e)
    case Nil
    let ?e = "e\<lparr>m_xdpKeys := m_xdpKeys e @ [key]\<rparr>"
    obtain e' where "prepare_reals ?h s (reals s) ?e = (Some Never_returns, e')"
      using reals [of ?e] assms(3) by (cases "prepare_reals ?h s (rs @ r # rest) ?e") simp
    then show ?case by (simp add: key and_then_def)
  next
    case (Cons t ts)
    have t: "prepare_key ?h t = Some (the_key ?h t)" "\<forall>r \<in> set (reals t). \<exists>b. prepare_backend ?h t r = Inr b"
      using Cons.prems by (auto simp: resolves_def the_key_def)
    show ?case using Cons by (simp add: t(1) and_then_def prepare_reals_resolved [OF t(2)])
  qed
  then have "fst (prepare ?h config d) = Some Never_returns" by (simp add: prepare_def assms(2))
  then obtain e where "prepare ?h config d = (Some Never_returns, e)" by (cases "prepare ?h config d") simp
  then have "ReloadConfig ?h config d = (Some Never_returns, e)" "kernel e = kernel d"
    using assms(1) prepare_kernel(1) [of ?h config d] by (simp_all add: ReloadConfig_def and_then_def)
  then show ?thesis by (simp add: finishes_def)
qed

definition demo_v6_config :: base_config where
  "demo_v6_config = \<lparr>services = [demo_service4\<lparr>reals :=
     [\<lparr>real_ip = ''::1'', enabled = True, real_weight = 1, real_ip_version = 6, real_port = 80\<rparr>]\<rparr>], ddosConf = None\<rparr>"

lemma unknown_neighbour_blocks_witness:
  "fst (ReloadConfig (asking_neighbours (demo_arp Recv_fails) (demo_ndp (\<lambda>k. if k = 0 then Some (Datagram dump_done) else None)) ''eth0''
      (demo_host\<lparr>inet_pton6 := (\<lambda>_. Some (replicate 15 0 @ [1]))\<rparr>)) demo_v6_config (initial_dataplane True)) = Some Never_returns"
proof -
  let ?n = "demo_ndp (\<lambda>k. if k = 0 then Some (Datagram dump_done) else None)"
  let ?s = "services demo_v6_config ! 0"
  have "passed_over (nd_if_index ?n ''eth0'') (replicate 15 0 @ [1]) (nd_recvmsg ?n k)" for k
    using dump_done_passed by (simp add: demo_ndp_def) (simp add: passed_over_def)
  moreover have "services demo_v6_config = [] @ ?s # []" "reals ?s = [] @ hd (reals ?s) # []"
    by (simp_all add: demo_v6_config_def)
  ultimately show ?thesis
    using unknown_neighbour_blocks [of "initial_dataplane True" demo_v6_config "[]" ?s "[]" "[]" "hd (reals ?s)" "[]"
        "demo_arp Recv_fails" ?n "''eth0''" "demo_host\<lparr>inet_pton6 := (\<lambda>_. Some (replicate 15 0 @ [1]))\<rparr>" "replicate 15 0 @ [1]"]
    by (simp add: demo_start(1) demo_v6_config_def demo_service4_def demo_ndp_def demo_host_def prepare_key_def)
qed

text \<open>The length of a ban is computed in 32 bits: five minutes become less than four seconds.\<close>

lemma ban_duration_wraps:
  "ban_duration_ms c = 300000 \<Longrightarrow> ban_duration_ns (kernel_ddos_config c) = 3647256576"
  by (simp add: kernel_ddos_config_def)

subsection \<open>Flows after a reload\<close>

text \<open>What packets and maintenance make of the data plane.\<close>

inductive undisturbed :: "xdp_dataplane \<Rightarrow> xdp_dataplane \<Rightarrow> bool" for d where
  und_start: "undisturbed d d"
| und_packet: "undisturbed d e \<Longrightarrow> xdp_step (kernel e) st \<Longrightarrow> undisturbed d (e\<lparr>kernel := st\<rparr>)"
| und_maintain: "undisturbed d e \<Longrightarrow> undisturbed d (ChPeriodicMaintenance e)"

lemma maintenance_views:
  "config_view (kernel (ChPeriodicMaintenance d)) = config_view (kernel d)"
  using maintenance_cursor_view [of d] by (simp add: cursor_view_def)

lemma undisturbed_keeps:
  "undisturbed d e \<Longrightarrow> dataplane_ok d \<Longrightarrow> cursors_ok (kernel d) \<Longrightarrow>
     dataplane_ok e \<and> cursors_ok (kernel e) \<and> config_view (kernel e) = config_view (kernel d)"
proof (induction rule: undisturbed.induct)
  case (und_packet e st)
  then have e: "maps_ok (kernel e)" "sessions_ok (kernel e)" by (simp_all add: dataplane_ok_def)
  note step = xdp_step_invariant [OF und_packet.hyps(2) e]
  show ?case
    using und_packet step(1,2) xdp_step_cursors [OF und_packet.hyps(2) e] xdp_frame_view [OF step(3)]
    by (simp add: dataplane_ok_kernel)
next
  case (und_maintain e)
  then show ?case
    using maintenance_ok [of e] maintenance_views [of e] cursors_ok_view [OF maintenance_cursor_view [of e]] by simp
qed simp

lemma undisturbed_reload:
  assumes h: "host_ok h" "rest_of_index h = 0" and d: "dataplane_ok d" "maps_opened d" "standby d = 0 \<or> standby d = 1"
    and fits: "fits h config d" "length (rr_index (kernel d)) + length (services config) \<le> MAX_SERVICES"
    and run: "undisturbed (snd (ReloadConfig h config d)) e"
  shows "dataplane_ok e \<and> cursors_ok (kernel e) \<and> serves h (services config) (kernel e)"
proof -
  let ?d' = "snd (ReloadConfig h config d)"
  have ok: "maps_ok (kernel d)" using d(1) by (simp add: dataplane_ok_def)
  note inst = ReloadConfig_installs(1) [OF d(2) ok d(3) h(2) fits(1)]
  have "dataplane_ok ?d'" by (rule keepsD [OF ReloadConfig_keeps [OF h(1)] d(1)])
  moreover have "cursors_ok (kernel ?d')"
    using ReloadConfig_resets [OF d(2) ok d(3) h(2) fits]
    by (simp add: cursors_ok_def wrr_cursor_ok_def hash_lookup_def)
  ultimately have e: "dataplane_ok e" "cursors_ok (kernel e)" "config_view (kernel e) = config_view (kernel ?d')"
    using undisturbed_keeps [OF run] by simp_all
  then show ?thesis using serves_view [OF e(3)] inst by simp
qed

text \<open>
  A new flow of a round-robin or weighted service gets a real server of that service. After a
  reload with room for the configuration, however many packets have passed and however often
  maintenance has run: if a connecting packet for the service's address, port and protocol is
  given a backend, it is the backend prepared for an enabled real server of this service.
\<close>

theorem configured_flow:
  assumes "host_ok h" "rest_of_index h = 0" "dataplane_ok d" "maps_opened d" "standby d = 0 \<or> standby d = 1"
    and "fits h config d" "length (rr_index (kernel d)) + length (services config) \<le> MAX_SERVICES"
    and "undisturbed (snd (ReloadConfig h config d)) e"
    and s: "s \<in> set (services config)" "reals s \<noteq> []" "srv_type s \<noteq> CH" and syn: "pure_syn tcp"
    and f: "find_tcp_backend env sk (the_key h s) tcp len (kernel e) = (Some b, st')"
  shows "\<exists>r \<in> set (reals s). enabled r \<and> b = the_backend h s r"
proof -
  have e: "dataplane_ok e" "cursors_ok (kernel e)" "serves h (services config) (kernel e)"
    using undisturbed_reload [OF assms(1-8)] by simp_all
  have room: "length (config_backends h (services config)) \<le> MAX_BACKENDS" and "resolves h s"
    using assms(6) s(1) by (simp_all add: fits_def)
  obtain i where i: "i < length (services config)" "services config ! i = s"
    using s(1) by (auto simp: in_set_conv_nth)
  let ?info = "prepare_info s (service_start (services config) i) i"
  have "info_ok ?info" using served_info(1) [OF room i(1)] s(2) i(2) by simp
  then have "wrr_cursor_ok ?info (the_key h s) (kernel e)"
    using e(2,3) i by (auto simp: cursors_ok_def serves_def)
  with served_flow [OF _ _ e(3) room i(1)] e(1) s \<open>resolves h s\<close> syn f show ?thesis
    by (simp add: i(2) dataplane_ok_def)
qed

text \<open>The demonstration configuration, reloaded, and the first packet after it.\<close>

lemmas reload_eval = ReloadConfig_def and_then_def prepare_def demo_config_def demo_service4_def
  initial_dataplane_def prepare_key_def prepare_backend_def lookup_mac_def demo_host_def protocol_number_def
  prepare_info_def algorithm_number_def load_ddos_def write_config_def read_index_def load_half_def
  load_backends_def load_services_def in_kernel_def array_update_def max_defs initial_maps_def
  hash_update_def switch_index_def index_word_def after_switch_def reset_rr_def reset_wrr_def
  clear_sessions_def update_ch_service_def reset_stats_def percpu_update_def vip4_def

lemma demo_reloaded_syn:
  "\<exists>b st'. find_tcp_backend (demo_env 0) demo_session (the_key demo_host demo_service4) (demo_flags True False) 54
     (kernel (snd (ReloadConfig demo_host demo_config (initial_dataplane True)))) = (Some b, st')"
  by (simp add: reload_eval demo_eval balancer_alg_defs the_key_def)

lemma configured_flow_witness:
  "\<exists>b st'. find_tcp_backend (demo_env 0) demo_session (the_key demo_host demo_service4) (demo_flags True False) 54
     (kernel (snd (ReloadConfig demo_host demo_config (initial_dataplane True)))) = (Some b, st')
     \<and> mac b = [2, 0, 0, 0, 0, 7]"
proof -
  obtain b st' where f: "find_tcp_backend (demo_env 0) demo_session (the_key demo_host demo_service4)
      (demo_flags True False) 54 (kernel (snd (ReloadConfig demo_host demo_config (initial_dataplane True)))) = (Some b, st')"
    using demo_reloaded_syn by blast
  have room: "length (rr_index (kernel (initial_dataplane True))) + length (services demo_config) \<le> MAX_SERVICES"
    by (simp add: initial_dataplane_def initial_maps_def demo_config_def max_defs)
  have "\<exists>r \<in> set (reals demo_service4). enabled r \<and> b = the_backend demo_host demo_service4 r"
    by (rule configured_flow [OF demo_host_ok demo_start(4,1) _ demo_fits room und_start _ _ _ _ f])
      (simp_all add: demo_start(2) demo_config_def, simp_all add: demo_service4_def demo_flags_def pure_syn_def)
  then show ?thesis
    using f by (auto simp: the_backend_def demo_service4_def prepare_backend_def lookup_mac_def demo_host_def)
qed

subsection \<open>Every state of the system\<close>

text \<open>
  At every state that packets, commands of the manager and maintenance can reach in any order,
  also after reloads that failed half-way, the XDP program runs every packet to a verdict without
  an access outside the packet, and the maps, the session table, the prepared backends and the
  consistent-hash services keep their invariants.
\<close>

theorem system_memory_safe:
  assumes "system_reachable h (m, d)" "host_ok h"
  shows "dataplane_ok d
    \<and> (\<exists>v p' st'. balancer_handler env p (kernel d) = Some (v, p', st') \<and> v \<in> {XDP_PASS, XDP_DROP, XDP_TX}
         \<and> length p' = length p \<and> dataplane_ok (d\<lparr>kernel := st'\<rparr>))"
  using system_reachable_ok [OF assms] dataplane_packet [of d env p] by simp

lemma system_memory_safe_witness:
  "\<exists>v p' st'. balancer_handler (demo_env 0) (demo_packet 2) initial_maps = Some (v, p', st')"
  using system_memory_safe [OF sys_start demo_host_ok(1), of True "demo_env 0" "demo_packet 2"]
  by (auto simp: initial_dataplane_def)

subsection \<open>Starting up\<close>

text \<open>
  C38. When \<open>main\<close> gets to serving, the configuration it serves is the one of the file: the text
  without its line breaks parsed, accepted by the validator and in normal form; the program was
  loaded with all its maps if a binary was given; and the state is one the system reaches.
\<close>

theorem serving_validated:
  assumes "main_program h b files api args = Serving (m, d) l"
  shows "system_reachable h (m, d)
    \<and> (\<exists>content conf conf'. Option.bind (arg_config_file args) files = Some content
         \<and> json_Parse api (filter (\<lambda>c. c \<noteq> CHR 0x0A) content) = Inr conf \<and> Validate conf = (None, conf')
         \<and> m_currConfig m = Some conf' \<and> distinct (map srv_name (services conf'))
         \<and> (\<forall>s \<in> set (services conf'). validated s))
    \<and> (arg_xdp_binary args \<noteq> None \<longrightarrow> isValidBpfState l)"
proof -
  obtain content conf conf' where c: "Option.bind (arg_config_file args) files = Some content"
      "json_Parse api (filter (\<lambda>c. c \<noteq> CHR 0x0A) content) = Inr conf" "Validate conf = (None, conf')"
      "(m, d) = LoadConfig (Some (ReloadConfig h)) conf' (\<lparr>m_currConfig = None\<rparr>, dataplane_of l)"
      "arg_xdp_binary args \<noteq> None \<longrightarrow> isValidBpfState l"
    by (rule main_serving [OF assms]) blast
  have "srv_name (normal_service s) = srv_name s" for s by (simp add: normal_service_def)
  then have names: "map (\<lambda>x. srv_name (normal_service x)) ss = map srv_name ss" for ss by simp
  have "m_currConfig m = Some conf'" using c(4) by (simp add: LoadConfig_def)
  moreover have "distinct (map srv_name (services conf')) \<and> (\<forall>s \<in> set (services conf'). validated s)"
    using Validate_accepts [of conf] Validate_result [of conf] validated_normal c(3)
    by (auto simp add: comp_def names)
  ultimately show ?thesis using c serving_reachable [OF assms] by blast
qed

lemma demo_serving:
  "\<exists>m d l. main_program demo_host (demo_bpf 2) (\<lambda>_. Some ''x'') (demo_api (demo_document ''10.0.0.1'' ''10.0.0.2''))
     demo_args = Serving (m, d) l"
proof -
  obtain l where run: "RunProgram (demo_bpf 2) ''xdp.o'' (new_loader ''balancer_handler'' ''eth0'') = Some (None, l)"
    using RunProgram_runs [of "demo_bpf 2" "''xdp.o''" "new_loader ''balancer_handler'' ''eth0''"]
    by (auto simp: demo_bpf_def runs_def)
  obtain conf where "Validate \<lparr>services = [demo_service ''10.0.0.1'' ''10.0.0.2''], ddosConf = None\<rparr> = (None, conf)"
    using Validate_accepts [of "\<lparr>services = [demo_service ''10.0.0.1'' ''10.0.0.2''], ddosConf = None\<rparr>"] demo_valid
    by (cases "Validate \<lparr>services = [demo_service ''10.0.0.1'' ''10.0.0.2''], ddosConf = None\<rparr>") simp
  moreover have "comes_back (fst (ReloadConfig demo_host conf (dataplane_of l)))" for conf
    using ReloadConfig_comes_back [of "dataplane_of l" demo_host conf] demo_host_ok(1)
    by (simp add: dataplane_of_def dataplane_ok_initial unanswered_def lookup_mac_def demo_host_def)
  moreover have "fst (file_LoadConfig \<lparr>m_buf = '''', m_input = Some ''x''\<rparr>) = ''x''"
    by (simp add: file_LoadConfig_def read_lines_filter Let_def)
  ultimately show ?thesis
    using run demo_parse [of "''10.0.0.1''" "''10.0.0.2''"]
    by (simp add: main_program_def demo_args_def openFile_def iface_of_def main_configure_def LoadConfig_def comes_back_def Let_def)
qed

lemma serving_validated_witness:
  "\<exists>m d l. main_program demo_host (demo_bpf 2) (\<lambda>_. Some ''x'') (demo_api (demo_document ''10.0.0.1'' ''10.0.0.2''))
     demo_args = Serving (m, d) l \<and> system_reachable demo_host (m, d) \<and> isValidBpfState l"
proof -
  obtain m d l where run: "main_program demo_host (demo_bpf 2) (\<lambda>_. Some ''x'')
      (demo_api (demo_document ''10.0.0.1'' ''10.0.0.2'')) demo_args = Serving (m, d) l"
    using demo_serving by blast
  have "arg_xdp_binary demo_args \<noteq> None" by (simp add: demo_args_def)
  with serving_validated [OF run] run show ?thesis by blast
qed

end
