(* ===== verification/Interleaving_Properties.thy ===== *)
theory Interleaving_Properties
  imports Concurrent_System Reload_Capacity System_Properties
begin

section \<open>Properties of reloads among packets\<close>

text \<open>
  What is true at every moment, with packets and maintenance between any two system calls of a
  reload, and packets between any two calls of a publication. \<open>dataplane_ok\<close> and \<open>index_ok\<close> hold
  whenever no reload is going on (\<open>concurrent_reachable_start\<close>). The index is switched with four
  bytes that the code does not initialise; where \<open>rest_of_index h = 0\<close> is assumed, they are zero.
\<close>

subsection \<open>Every state\<close>

text \<open>
  C1. At every state of the system, between any two system calls of a reload, at any stage of one
  that failed, the XDP program runs every packet to a verdict without an access outside the packet,
  and the maps, the session table, the prepared backends and the consistent-hash services keep
  their invariants.
\<close>

theorem concurrent_memory_safe:
  assumes "concurrent_reachable h (m, d, r, ws)" "host_ok h"
  shows "dataplane_ok d
    \<and> (\<exists>v p' st'. balancer_handler env p (kernel d) = Some (v, p', st') \<and> v \<in> {XDP_PASS, XDP_DROP, XDP_TX}
         \<and> length p' = length p \<and> dataplane_ok (d\<lparr>kernel := st'\<rparr>))"
  using concurrent_reachable_ok [OF assms] dataplane_packet [of d env p] by simp

lemma concurrent_memory_safe_witness:
  "\<exists>v p' st'. balancer_handler (demo_env 0) (demo_packet 2) initial_maps = Some (v, p', st')"
proof -
  have "concurrent_reachable demo_host (\<lparr>m_currConfig = Some demo_config\<rparr>, initial_dataplane True, Some (demo_config, Rl_prepare), [])"
    by (rule con_next [OF con_start con_load [of demo_config _ _ "Some demo_config", unfolded starting_def option.map]])
      (simp add: LoadConfig_def call_reload_def asks_def)
  from concurrent_memory_safe [OF this demo_host_ok(1), of "demo_env 0" "demo_packet 2"] show ?thesis
    by (auto simp: initial_dataplane_def)
qed

subsection \<open>One reload\<close>

text \<open>The program of system calls without anything in between is the function.\<close>

lemma reload_calls_exact:
  "runs_alone h config (Rl_prepare, d) (Rl_returned r, e) \<longleftrightarrow> ReloadConfig h config d = (r, e)"
  by (simp add: runs_alone_exact)

lemma reload_among_packets:
  "ReloadConfig h config d = (r, e) \<Longrightarrow> among_packets h config d ((Rl_returned r, e), [])"
  using among_packets_alone [OF _ am_start, of h config d "(Rl_returned r, e)"] by (simp add: runs_alone_exact)

text \<open>
  C3. The switch is atomic, when the four bytes behind the new index are zero. As long as the index
  has its old value, packets meet the services and backends of the old configuration, all of them
  and nothing else; so it is up to the call that switches, and for good when the reload fails
  before. After that call, when the configuration resolves and has room, they meet every service of
  it, with its backends in order.
\<close>

theorem reload_atomic:
  assumes "dataplane_ok d0" "index_ok d0" "host_ok h" "rest_of_index h = 0" "among_packets h config d0 ((p, d), ws)"
  shows "(before_switch p \<longrightarrow> atomic_index (kernel d) 0 = atomic_index (kernel d0) 0)
    \<and> (atomic_index (kernel d) 0 = atomic_index (kernel d0) 0 \<longrightarrow> active_config (kernel d) = active_config (kernel d0))
    \<and> (maps_opened d0 \<and> fits h config d0 \<and> \<not> before_switch p \<longrightarrow>
         atomic_index (kernel d) 0 \<noteq> atomic_index (kernel d0) 0 \<and> serves h (services config) (kernel d))"
proof -
  have old: "keeps_old d0 (p, d)" using keeps_old_reached [OF assms(5,3,4,1,2)] by simp
  have "progress h config d0 (p, d)" if "maps_opened d0" "fits h config d0"
    using progress_reached [OF assms(5,3,4,1,2) that] by simp
  then show ?thesis using old switch_changes_index [OF assms(2)] progress_after [of p h config d0 d]
    by (auto simp: keeps_old_def)
qed

lemma demo_index: "index_ok (initial_dataplane b)"
  by (simp add: index_ok_def standby_def initial_dataplane_def initial_maps_def)

lemma reload_atomic_witness:
  "\<exists>r e. among_packets demo_host demo_config (initial_dataplane True) ((Rl_returned r, e), [])
     \<and> serves demo_host [demo_service4] (kernel e)"
proof -
  obtain r e where "ReloadConfig demo_host demo_config (initial_dataplane True) = (r, e)" by (rule prod.exhaust)
  from reload_among_packets [OF this] have run: "among_packets demo_host demo_config (initial_dataplane True) ((Rl_returned r, e), [])" .
  from reload_atomic [OF demo_start(4) demo_index demo_host_ok run] run show ?thesis
    using demo_start(1) demo_fits by (auto simp: demo_config_def)
qed

subsection \<open>Flows\<close>

text \<open>
  C4. A new flow of a round-robin service, from the switch on, and of a weighted service, from the
  moment on at which the old cursors are cleared, gets a real server of that service: if a
  connecting packet for the service's address, port and protocol is given a backend, it is the one
  prepared for an enabled server of the service. This holds while the rest of the reload is still
  going on and for good afterwards. Between the switch and the end of the clearing it does not hold
  of weighted services, whose old cursors may point at the servers of another one.
\<close>

theorem new_flow_during_reload:
  assumes "dataplane_ok d0" "index_ok d0" "host_ok h" "rest_of_index h = 0" "maps_opened d0" "fits h config d0"
    and "among_packets h config d0 ((p, d), ws)" "\<not> before_switch p"
    and "s \<in> set (services config)" "reals s \<noteq> []" "srv_type s = RR \<or> srv_type s = WRR \<and> cursors_cleared p"
    and "pure_syn tcp" "find_tcp_backend env sk (the_key h s) tcp len (kernel d) = (Some b, st')"
  shows "\<exists>r \<in> set (reals s). enabled r \<and> b = the_backend h s r"
  by (rule reload_flow [OF assms(7,3,4,1,2,5,6,8,9,10) _ _ assms(12,13)]) (use assms(11) in auto)

lemma new_flow_during_reload_witness:
  "\<exists>b st'. find_tcp_backend (demo_env 0) demo_session (the_key demo_host demo_service4) (demo_flags True False) 54
     (kernel (snd (ReloadConfig demo_host demo_config (initial_dataplane True)))) = (Some b, st')
     \<and> (\<exists>r \<in> set (reals demo_service4). b = the_backend demo_host demo_service4 r)"
proof -
  obtain r e where e: "ReloadConfig demo_host demo_config (initial_dataplane True) = (r, e)" by (rule prod.exhaust)
  obtain b st' where f: "find_tcp_backend (demo_env 0) demo_session (the_key demo_host demo_service4)
      (demo_flags True False) 54 (kernel e) = (Some b, st')"
    using demo_reloaded_syn e by auto
  have "\<exists>r \<in> set (reals demo_service4). enabled r \<and> b = the_backend demo_host demo_service4 r"
    by (rule new_flow_during_reload [OF demo_start(4) demo_index demo_host_ok demo_start(1) demo_fits
          reload_among_packets [OF e] _ _ _ _ _ f])
      (simp_all add: demo_config_def, simp_all add: demo_service4_def demo_flags_def pure_syn_def)
  then show ?thesis using f e by auto
qed

text \<open>
  C20. The flows that exist when the index switches are not protected. At every moment from the
  switch on, a packet of a flow that has a session goes to the server that the new configuration
  has under the index of the session, whatever service and server the flow had. The sessions are
  deleted later: when nothing comes in between, all those of before are there after the switch.
\<close>

theorem old_flow_redirected:
  assumes "dataplane_ok d0" "index_ok d0" "host_ok h" "rest_of_index h = 0" "maps_opened d0" "fits h config d0"
  shows "(\<forall>p d ws sk v tcp env key len.
      among_packets h config d0 ((p, d), ws) \<and> \<not> before_switch p
      \<and> hash_lookup (tcp_session_state (kernel d)) sk = Some v
      \<and> unat (ss_backend_idx v) < length (config_backends h (services config))
      \<and> \<not> pure_syn tcp \<and> ktime_hit env - created v \<le> timeout v \<longrightarrow>
        fst (find_tcp_backend env sk key tcp len (kernel d))
          = Some (config_backends h (services config) ! unat (ss_backend_idx v)))
    \<and> (\<exists>d. among_packets h config d0 ((Rl_rr, d), [])
        \<and> tcp_session_state (kernel d) = tcp_session_state (kernel d0))"
proof -
  have "\<exists>d. among_packets h config d0 ((Rl_rr, d), []) \<and> tcp_session_state (kernel d) = tcp_session_state (kernel d0)"
    using reaches_switch [OF assms(3,4,1,2,5,6) am_start, of "[]"] by auto
  then show ?thesis using reload_old_flow [OF _ assms(3,4,1,2,5,6)] by blast
qed

text \<open>A flow of another service, on another server, that was given the index 0 by an older configuration.\<close>

definition old_flow :: xdp_dataplane where
  "old_flow = (initial_dataplane True)\<lparr>kernel := initial_maps
     \<lparr>backends_first := (\<lambda>_. zero_backend)(0 := demo_backend 1),
      tcp_session_state := [(demo_session, \<lparr>ss_backend_idx = 0, ss_service_idx = 0, created = 0, timeout = TCP_STATE_TIMEOUT\<rparr>)]\<rparr>\<rparr>"

lemma old_flow_ok: "dataplane_ok old_flow" "index_ok old_flow" "maps_opened old_flow" "fits demo_host demo_config old_flow"
  using demo_maps_ok [of 0] demo_fits
  by (simp_all add: old_flow_def dataplane_ok_def maps_ok_def initial_dataplane_def initial_maps_def hash_ok_def chs_ok_def
      index_ok_def standby_def fits_def standby_services_def demo_backend_def backend_ok_def zero_backend_def max_defs)
    (simp add: sessions_ok_def hash_lookup_def max_defs)

lemma old_flow_redirected_witness:
  "\<exists>d b. among_packets demo_host demo_config old_flow ((Rl_rr, d), [])
     \<and> fst (find_tcp_backend (demo_env 1) demo_session demo_key (demo_flags False True) 54 (kernel old_flow)) = Some (demo_backend 1)
     \<and> fst (find_tcp_backend (demo_env 1) demo_session demo_key (demo_flags False True) 54 (kernel d)) = Some b
     \<and> mac b = [2, 0, 0, 0, 0, 7]"
proof -
  have v: "hash_lookup (tcp_session_state (kernel old_flow)) demo_session
      = Some \<lparr>ss_backend_idx = 0, ss_service_idx = 0, created = 0, timeout = TCP_STATE_TIMEOUT\<rparr>"
    by (simp add: old_flow_def hash_lookup_def)
  have b: "config_backends demo_host (services demo_config) = [the_backend demo_host demo_service4 (hd (reals demo_service4))]"
    by (simp add: config_backends_def service_backends_def demo_config_def demo_service4_def)
  note redirected = old_flow_redirected [OF old_flow_ok(1,2) demo_host_ok old_flow_ok(3,4)]
  obtain d where d: "among_packets demo_host demo_config old_flow ((Rl_rr, d), [])"
      "tcp_session_state (kernel d) = tcp_session_state (kernel old_flow)"
    using redirected by blast
  have "fst (find_tcp_backend (demo_env 1) demo_session demo_key (demo_flags False True) 54 (kernel d))
      = Some (config_backends demo_host (services demo_config) ! unat (0 :: u32))"
    using redirected [THEN conjunct1, rule_format, of Rl_rr d "[]" demo_session
        "\<lparr>ss_backend_idx = 0, ss_service_idx = 0, created = 0, timeout = TCP_STATE_TIMEOUT\<rparr>" "demo_flags False True" "demo_env 1"]
      d v by (simp add: b demo_flags_def pure_syn_def demo_env_def TCP_STATE_TIMEOUT_def)
  then have "fst (find_tcp_backend (demo_env 1) demo_session demo_key (demo_flags False True) 54 (kernel d))
      = Some (the_backend demo_host demo_service4 (hd (reals demo_service4)))" by (simp add: b)
  moreover have "mac (the_backend demo_host demo_service4 (hd (reals demo_service4))) = [2, 0, 0, 0, 0, 7]"
    by (simp add: the_backend_def demo_service4_def prepare_backend_def lookup_mac_def demo_host_def)
  moreover have "fst (find_tcp_backend (demo_env 1) demo_session demo_key (demo_flags False True) 54 (kernel old_flow))
      = Some (demo_backend 1)"
    by (subst find_tcp_backend_live(1) [OF v _ _ _ prod.collapse [symmetric]])
      (simp_all add: demo_flags_def pure_syn_def demo_env_def TCP_STATE_TIMEOUT_def max_defs,
        simp add: old_flow_def backends_map_def initial_maps_def)
  ultimately show ?thesis using d(1) by blast
qed

text \<open>
  C39. The loop that deletes the sessions ends only if the connecting clients let it: with \<open>k\<close>
  packets in between it makes at most two calls for every session that was there and two for every
  packet, and one more.
\<close>

theorem forgetting_bounded:
  assumes "clearing h config d n k s" "host_ok h" "dataplane_ok d"
  shows "n \<le> 2 * (length (tcp_session_state (kernel d)) + k) + 1"
proof -
  have "card (fst ` set (tcp_session_state (kernel d))) \<le> length (tcp_session_state (kernel d))"
    by (metis card_length length_map list.set_map)
  then show ?thesis using clearing_bound [OF assms] by (simp add: left_to_forget_def)
qed

lemma forgetting_bounded_witness:
  "\<exists>s. clearing demo_host demo_config old_flow 3 0 s \<and> (3::nat) \<le> 2 * (length (tcp_session_state (kernel old_flow)) + 0) + 1"
proof -
  let ?e = "in_kernel (\<lambda>st. st\<lparr>tcp_session_state := hash_delete (tcp_session_state st) demo_session\<rparr>) old_flow"
  have calls: "reload_next demo_host demo_config (Rl_sessions, old_flow) = (Rl_session_delete demo_session, old_flow)"
      "reload_next demo_host demo_config (Rl_session_delete demo_session, old_flow) = (Rl_sessions, ?e)"
    by (simp_all add: old_flow_def hash_first_key_def)
  have "clearing demo_host demo_config old_flow 3 0 (reload_next demo_host demo_config (Rl_sessions, ?e), [])"
    unfolding numeral_3_eq_3
    using cl_call [OF cl_call [OF cl_call [OF cl_start _ calls(1)] _ calls(2)] _ refl, of "[]"] by simp
  with forgetting_bounded [OF this demo_host_ok(1) old_flow_ok(1)] show ?thesis by blast
qed

subsection \<open>Full maps\<close>

text \<open>
  C40. The round-robin cursors of all configurations so far share 256 entries, and nothing removes
  one. A reload that needs more reports a failure after the switch (the four bytes behind the new
  index being zero): the new configuration is in force, but one of its services has no cursor, and
  if the services are round-robin ones no connecting packet of that service is given a backend.
\<close>

theorem rr_cursors_exhausted:
  assumes "dataplane_ok d" "maps_opened d" "index_ok d" "rest_of_index h = 0" "fits h config d"
    and "MAX_SERVICES < card (the_key h ` set (services config) \<union> fst ` set (rr_index (kernel d)))"
    and "\<forall>s \<in> set (services config). srv_type s = RR"
  defines "st \<equiv> kernel (snd (ReloadConfig h config d))"
  shows "fst (ReloadConfig h config d) = Some Rr_update_failed \<and> serves h (services config) st
    \<and> (\<exists>s \<in> set (services config). \<forall>env sk tcp len. pure_syn tcp \<longrightarrow>
         fst (find_tcp_backend env sk (the_key h s) tcp len st) = None)"
proof -
  obtain e s where e: "ReloadConfig h config d = (Some Rr_update_failed, e)" "serves h (services config) (kernel e)"
      "s \<in> set (services config)" "hash_lookup (rr_index (kernel e)) (the_key h s) = None"
    by (rule reload_rr_full [OF assms(1-6)])
  obtain i where i: "i < length (services config)" "services config ! i = s"
    using e(3) by (auto simp: in_set_conv_nth)
  have "algorithm (prepare_info s (service_start (services config) i) i) = BALANCER_RR"
    using assms(7) e(3) by (simp add: prepare_info_def algorithm_number_def BALANCER_RR_def)
  then have "fst (find_tcp_backend env sk (the_key h s) tcp len (kernel e)) = None" if "pure_syn tcp" for env sk tcp len
    using rr_without_cursor [OF _ _ e(4) that] e(2) i by (auto simp: serves_def)
  then show ?thesis using e(1-3) unfolding st_def by (metis fst_conv snd_conv)
qed

text \<open>256 cursors of services that are gone.\<close>

definition worn_out :: xdp_dataplane where
  "worn_out = (initial_dataplane True)\<lparr>kernel := initial_maps
     \<lparr>rr_index := map (\<lambda>n. (make_service_key (replicate 16 1) (of_nat n) IPPROTO_TCP 4, 0)) [0..<256]\<rparr>\<rparr>"

lemma worn_out_keys: "distinct (map fst (rr_index (kernel worn_out)))"
proof -
  have "inj_on (\<lambda>n. make_service_key (replicate 16 1) (of_nat n) IPPROTO_TCP 4) {0..<256}"
  proof (rule inj_onI)
    fix a b :: nat
    assume "a \<in> {0..<256}" "b \<in> {0..<256}"
      "make_service_key (replicate 16 1) (of_nat a) IPPROTO_TCP 4 = make_service_key (replicate 16 1) (of_nat b) IPPROTO_TCP 4"
    then have "unat (of_nat a :: u16) = unat (of_nat b :: u16)" "a < 2 ^ 16" "b < 2 ^ 16" by (simp_all add: make_service_key_def)
    then show "a = b" by (simp add: unat_of_nat)
  qed
  then show ?thesis by (simp add: worn_out_def distinct_map comp_def)
qed

lemma worn_out_ok: "dataplane_ok worn_out" "index_ok worn_out" "maps_opened worn_out" "fits demo_host demo_config worn_out"
proof -
  have "hash_ok MAX_SERVICES (rr_index (kernel worn_out))"
    using worn_out_keys by (simp add: hash_ok_def max_defs) (simp add: worn_out_def)
  then show "dataplane_ok worn_out"
    using demo_start(4) by (simp add: worn_out_def dataplane_ok_def maps_ok_def initial_dataplane_def initial_maps_def sessions_ok_def)
  show "index_ok worn_out" "maps_opened worn_out" "fits demo_host demo_config worn_out"
    using demo_fits by (simp_all add: worn_out_def initial_dataplane_def index_ok_def standby_def initial_maps_def
        fits_def standby_services_def)
qed

lemma rr_cursors_exhausted_witness:
  "fst (ReloadConfig demo_host demo_config worn_out) = Some Rr_update_failed
   \<and> fst (find_tcp_backend (demo_env 0) demo_session (the_key demo_host demo_service4) (demo_flags True False) 54
       (kernel (snd (ReloadConfig demo_host demo_config worn_out)))) = None"
proof -
  let ?keys = "fst ` set (rr_index (kernel worn_out))"
  have "length (rr_index (kernel worn_out)) = 256" by (simp add: worn_out_def)
  then have "card ?keys = 256" using distinct_card [OF worn_out_keys] by (simp only: length_map set_map)
  moreover have "hd (vip6 k) = 1" if "k \<in> ?keys" for k
    using that by (auto simp: worn_out_def make_service_key_def)
  then have "the_key demo_host demo_service4 \<notin> ?keys"
    by (force simp: demo_resolves(2) make_service_key_def)
  ultimately have "MAX_SERVICES < card (the_key demo_host ` set (services demo_config) \<union> ?keys)"
    by (simp add: demo_config_def max_defs)
  from rr_cursors_exhausted [OF worn_out_ok(1,3,2) demo_host_ok(2) worn_out_ok(4) this] show ?thesis
    by (simp add: demo_config_def) (simp add: demo_service4_def demo_flags_def pure_syn_def)
qed

text \<open>
  The limits of a ban: the length that the kernel gets is the configured one exactly when it
  is at most 4294 milliseconds, and at most 4.3 seconds whatever is configured.
\<close>

theorem ban_duration_bounded:
  "unat (ban_duration_ns (kernel_ddos_config c)) < 2 ^ 32
   \<and> (unat (ban_duration_ns (kernel_ddos_config c)) = unat (ban_duration_ms c) * 1000000 \<longleftrightarrow> unat (ban_duration_ms c) \<le> 4294)"
proof -
  let ?p = "unat (ban_duration_ms c) * 1000000"
  have p: "unat (ban_duration_ns (kernel_ddos_config c)) = ?p mod 2 ^ 32"
    by (simp add: kernel_ddos_config_def unat_mult_lem unat_word_ariths unsigned_ucast_eq take_bit_eq_mod)
  have "?p mod 2 ^ 32 = ?p \<longleftrightarrow> ?p < 2 ^ 32"
    by (metis mod_less mod_less_divisor zero_less_numeral zero_less_power)
  moreover have "?p < 2 ^ 32 \<longleftrightarrow> unat (ban_duration_ms c) \<le> 4294" by simp linarith
  ultimately show ?thesis unfolding p by simp
qed

end
