(* ===== verification/Process_Properties.thy ===== *)
theory Process_Properties
  imports Control_Process Interleaving_Properties
begin

section \<open>Properties of the running process\<close>

text \<open>
  For a process whose \<open>main\<close> has come to a validated configuration and hands it to the manager,
  whatever its threads, its clients and the network do from then on.
\<close>

text \<open>
  C19. The process is an instance of the concurrent system: its manager, its data plane, its
  reload and its publications are in a state that system reaches, and every step of a thread, a
  request or a packet is one of its steps or leaves them alone. What holds of the concurrent system
  therefore holds of the process. The run of \<open>main\<close> that nothing disturbs is one of its runs: it
  comes to serving with the manager and the data plane that \<open>main_program\<close> gives.
\<close>

theorem process_refines:
  assumes "main_program h b files api args = Serving md l"
    and "process_reachable h ops cpus (the (m_currConfig (fst md))) l s"
  shows "process_reachable h ops cpus (the (m_currConfig (fst md))) l (serving_process md start)
    \<and> concurrent_reachable h (p_manager s, p_dataplane s, p_reload s, p_pending s)
    \<and> (process_step h ops cpus (the (m_currConfig (fst md))) s t \<longrightarrow>
         concurrent_step h (p_manager s, p_dataplane s, p_reload s, p_pending s) (p_manager t, p_dataplane t, p_reload t, p_pending t)
         \<or> (p_manager t, p_dataplane t, p_reload t, p_pending t) = (p_manager s, p_dataplane s, p_reload s, p_pending s))"
proof -
  obtain conf where conf: "m_currConfig (fst md) = Some conf"
      "process_reachable h ops cpus conf l (serving_process md start)"
    by (rule serving_reached [OF assms(1)]) blast
  then show ?thesis
    using process_shared_reachable [OF assms(2)] process_step_shared [OF _ process_threads [OF assms(2)], of h ops cpus conf t]
    by (auto simp: shared_def)
qed

text \<open>A process whose gRPC server is up gets an empty configuration.\<close>

definition demo_process :: "config_manager \<times> xdp_dataplane \<Rightarrow> nat process" where
  "demo_process md =
     (serving_process md 0)\<lparr>main_at := At_maintenance, metrics_at := Mt_test, grpc_at := Gr_wait,
        p_server := (new_server 0)\<lparr>m_running := True\<rparr>\<rparr>"

definition empty_config :: base_config where
  "empty_config = \<lparr>services = [], ddosConf = None\<rparr>"

lemma demo_process_up:
  assumes "process_reachable h ops cpus conf l (serving_process md 0)"
  shows "process_reachable h ops cpus conf l (demo_process md)"
proof -
  let ?s = "serving_process md 0 :: nat process"
  let ?t = "?s\<lparr>p_server := Serve (p_server ?s), metrics_at := Mt_test, main_at := At_grpc\<rparr>"
  let ?u = "?t\<lparr>grpc_at := Gr_start, main_at := At_maintenance\<rparr>"
  have "process_reachable h ops cpus conf l ?t"
    by (rule pr_step [OF assms _ ps_main [OF ms_serve]]) (simp_all add: serving_process_def)
  from pr_step [OF this _ ps_main [OF ms_grpc]] have "process_reachable h ops cpus conf l ?u"
    by (simp add: serving_process_def)
  from pr_step [OF this _ ps_grpc [OF gr_up]] show ?thesis
    by (simp add: demo_process_def serving_process_def Serve_def new_server_def)
qed

lemma demo_process_request:
  "process_step h ops cpus conf (demo_process md)
     ((demo_process md)\<lparr>p_manager := \<lparr>m_currConfig = Some empty_config\<rparr>, p_reload := starting (Some empty_config)\<rparr>)"
proof -
  have "rpc_UpdateConfig (Some asks) (\<lambda>_. 0) [] (fst md, None)
      = (\<lparr>ucr_success = True, ucr_errors = []\<rparr>, \<lparr>m_currConfig = Some empty_config\<rparr>, Some empty_config)"
    by (simp add: rpc_UpdateConfig_def FromProtoConfiguration_def LoadConfig_def call_reload_def asks_def empty_config_def)
  then show ?thesis
    by (intro ps_request rq_update) (simp_all add: demo_process_def serving_process_def)
qed

lemma demo_process_reached:
  obtains md l where "main_program demo_host (demo_bpf 2) (\<lambda>_. Some ''x'') (demo_api (demo_document ''10.0.0.1'' ''10.0.0.2'')) demo_args
       = Serving md l"
    "\<And>(ops :: nat double_ops) cpus. process_reachable demo_host ops cpus (the (m_currConfig (fst md))) l (demo_process md)"
proof -
  obtain md l where run: "main_program demo_host (demo_bpf 2) (\<lambda>_. Some ''x'')
      (demo_api (demo_document ''10.0.0.1'' ''10.0.0.2'')) demo_args = Serving md l"
    using demo_serving by blast
  obtain conf where conf: "m_currConfig (fst md) = Some conf"
      "\<And>(ops :: nat double_ops) cpus start. process_reachable demo_host ops cpus conf l (serving_process md start)"
    by (rule serving_reached [OF run]) blast
  show ?thesis by (rule that [OF run]) (simp add: conf(1) demo_process_up [OF conf(2)])
qed

lemma process_refines_witness:
  "\<exists>md l. main_program demo_host (demo_bpf 2) (\<lambda>_. Some ''x'') (demo_api (demo_document ''10.0.0.1'' ''10.0.0.2'')) demo_args
       = Serving md l
     \<and> concurrent_step demo_host (fst md, snd md, None, [])
         (\<lparr>m_currConfig = Some empty_config\<rparr>, snd md, Some (empty_config, Rl_prepare), [])"
proof -
  obtain md l where run: "main_program demo_host (demo_bpf 2) (\<lambda>_. Some ''x'')
      (demo_api (demo_document ''10.0.0.1'' ''10.0.0.2'')) demo_args = Serving md l"
    and up: "\<And>(ops :: nat double_ops) cpus. process_reachable demo_host ops cpus (the (m_currConfig (fst md))) l (demo_process md)"
    by (rule demo_process_reached) blast
  fix ops :: "nat double_ops"
  from process_refines [OF run up [of ops 0], where t =
      "(demo_process md)\<lparr>p_manager := \<lparr>m_currConfig = Some empty_config\<rparr>, p_reload := starting (Some empty_config)\<rparr>"]
    demo_process_request [of demo_host ops 0 "the (m_currConfig (fst md))" md] run
  show ?thesis by (auto simp: demo_process_def serving_process_def starting_def)
qed

text \<open>
  C17. The process serves for ever: \<open>main\<close> waits for the scraping thread, which only ends when
  \<open>Stop\<close> is called, and the only call of \<open>Stop\<close> is in a destructor that runs after that wait. What
  \<open>main\<close> has for the time after is never reached. Until then a thread only waits for one that goes
  on, or for a neighbour. \<open>main\<close> waits for its first reload. The scraping thread goes on because its
  queries return. The maintenance thread waits for a reload that is publishing a service, a reload
  for the publications of maintenance, and then the other one goes on. A reload gets stuck in one
  place only, the lookup of a real server's neighbour that never returns or has no defined
  behaviour; it stays there whatever the other threads do, and \<open>main\<close> never serves when that is its
  first reload. The handlers find a configuration.
\<close>

theorem process_never_stops:
  assumes "process_reachable h ops cpus conf l s" "host_ok h"
  shows "main_at s \<in> {At_load, At_loading, At_serve, At_grpc, At_maintenance, At_join}
    \<and> (main_at s \<noteq> At_join \<longrightarrow> (\<exists>t. main_step conf s t) \<or> main_at s = At_loading \<and> p_reload s \<noteq> None)
    \<and> (grpc_at s = Gr_start \<longrightarrow> (\<exists>t. grpc_step s t))
    \<and> (main_at s \<notin> {At_load, At_loading, At_serve} \<longrightarrow> (\<exists>t. metrics_step ops cpus s t))
    \<and> (main_at s = At_join \<longrightarrow>
         (\<exists>t. maintenance_step s t) \<or> ch_at s = Ch_work \<and> reload_holds (p_reload s) \<and> (\<exists>t. reload_step h s t))
    \<and> (\<forall>c p. p_reload s = Some (c, p) \<longrightarrow>
         (\<exists>t. reload_step h s t) \<or> p_pending s \<noteq> [] \<and> (\<exists>t. maintenance_step s t)
         \<or> unanswered h c \<and> (\<exists>r. p = Rl_returned r \<and> \<not> comes_back r
             \<and> (\<forall>t. process_step h ops cpus conf s t \<longrightarrow>
                  p_reload t = p_reload s \<and> (main_at s = At_loading \<longrightarrow> main_at t = At_loading))))
    \<and> (main_at s \<noteq> At_load \<longrightarrow> rpc_GetConfig (p_manager s) \<noteq> None)"
proof -
  have inv: "threads_inv s" by (rule process_threads [OF assms(1)])
  note reach = process_shared_reachable [OF assms(1), unfolded shared_def]
  have points: "main_at s \<in> {At_load, At_loading, At_serve, At_grpc, At_maintenance, At_join}"
    using inv by (simp add: threads_inv_def up_to_join_def)
  have main: "(\<exists>t. main_step conf s t) \<or> main_at s = At_loading \<and> p_reload s \<noteq> None" if "main_at s \<noteq> At_join"
  proof (cases "main_at s")
    case At_load
    then show ?thesis using ms_load [OF _ surjective_pairing] by blast
  next
    case At_loading
    then show ?thesis using ms_loaded by blast
  qed (use inv that in \<open>auto simp: threads_inv_def up_to_join_def intro: ms_serve ms_grpc ms_maintenance\<close>)
  have scraping: "\<exists>t. metrics_step ops cpus s t" if "main_at s \<notin> {At_load, At_loading, At_serve}"
  proof (cases "metrics_at s")
    case (Mt_ddos t bs ss)
    have "maps_ok (kernel (p_dataplane s))" using concurrent_reachable_ok [OF reach assms(2)] by (simp add: dataplane_ok_def)
    then obtain ds where "GetDdosStats (p_dataplane s) = Some ds" using GetDdosStats_returns by blast
    with Mt_ddos show ?thesis by (blast intro: mt_ddos)
  qed (use inv that in \<open>auto simp: threads_inv_def before_serving_def intro: metrics_step.intros\<close>)
  have reload: "(\<exists>t. reload_step h s t) \<or> p_pending s \<noteq> [] \<and> (\<exists>t. maintenance_step s t)
      \<or> unanswered h c \<and> (\<exists>r. p = Rl_returned r \<and> \<not> comes_back r
             \<and> (\<forall>t. process_step h ops cpus conf s t \<longrightarrow>
                  p_reload t = p_reload s \<and> (main_at s = At_loading \<longrightarrow> main_at t = At_loading)))"
    if p: "p_reload s = Some (c, p)" for c p
  proof (cases "\<exists>r. p = Rl_returned r \<and> \<not> comes_back r")
    case True
    then obtain r where r: "p = Rl_returned r" "\<not> comes_back r" by blast
    have "unanswered h c" by (rule stuck_unanswered [OF reach [unfolded p r(1)] assms(2) r(2)])
    then show ?thesis using r stuck_stays [OF _ p [unfolded r(1)] r(2) inv, of h ops cpus conf] by blast
  next
    case False
    then show ?thesis using reload_goes_on [OF p, of h] publisher_goes_on [OF inv] by blast
  qed
  have "m_currConfig (p_manager s) \<noteq> None" if "main_at s \<noteq> At_load"
    using that by (rule contrapos_nn) (rule process_config [OF assms(1)])
  then have config: "rpc_GetConfig (p_manager s) \<noteq> None" if "main_at s \<noteq> At_load"
    using that by (auto simp: rpc_GetConfig_def ListServices_def)
  show ?thesis
    by (intro conjI impI allI) (rule points, erule main, rule exI, erule gr_up, erule scraping,
        erule maintenance_goes_on [OF inv], erule reload, erule config)
qed

lemma process_never_stops_witness:
  "\<exists>md l. main_program demo_host (demo_bpf 2) (\<lambda>_. Some ''x'') (demo_api (demo_document ''10.0.0.1'' ''10.0.0.2'')) demo_args
       = Serving md l
     \<and> (\<exists>t. main_step (the (m_currConfig (fst md))) (demo_process md) t) \<and> rpc_GetConfig (fst md) \<noteq> None"
proof -
  obtain md l where run: "main_program demo_host (demo_bpf 2) (\<lambda>_. Some ''x'')
      (demo_api (demo_document ''10.0.0.1'' ''10.0.0.2'')) demo_args = Serving md l"
    and up: "\<And>(ops :: nat double_ops) cpus. process_reachable demo_host ops cpus (the (m_currConfig (fst md))) l (demo_process md)"
    by (rule demo_process_reached) blast
  from process_never_stops [OF up demo_host_ok(1)] run show ?thesis
    by (auto simp: demo_process_def serving_process_def)
qed

end
