(* ===== verification/C_Layout.thy ===== *)
theory C_Layout
  imports Packet
begin

section \<open>The layout of C structs\<close>

text \<open>
  Offsets and sizes as the ABIs of x86-64 and BPF define them: every member at the next multiple
  of its alignment, an integer aligned to its size, a struct as large as a multiple of the largest
  alignment in it, members of a union on top of one another, bit-fields from the low end of their
  unit. Offsets are in bits. A member without a name is anonymous, and its members are members of
  the struct around it.
\<close>

datatype c_type =
    C_int nat
  | C_bits nat "(string \<times> nat) list"
  | C_array nat c_type
  | C_struct c_fields
  | C_union c_fields
and c_fields =
    C_end
  | C_field string c_type c_fields

fun c_members :: "(string \<times> c_type) list \<Rightarrow> c_fields" where
  "c_members [] = C_end"
| "c_members ((f, t) # ms) = C_field f t (c_members ms)"

definition align_up :: "nat \<Rightarrow> nat \<Rightarrow> nat" where
  "align_up n a = (n + a - 1) div a * a"

primrec c_align :: "c_type \<Rightarrow> nat" and fields_align :: "c_fields \<Rightarrow> nat" where
  "c_align (C_int n) = n"
| "c_align (C_bits n bs) = n"
| "c_align (C_array n t) = c_align t"
| "c_align (C_struct fs) = fields_align fs"
| "c_align (C_union fs) = fields_align fs"
| "fields_align C_end = 1"
| "fields_align (C_field f t fs) = max (c_align t) (fields_align fs)"

fun c_size :: "c_type \<Rightarrow> nat" and struct_end :: "c_fields \<Rightarrow> nat \<Rightarrow> nat" and union_size :: "c_fields \<Rightarrow> nat" where
  "c_size (C_int n) = n"
| "c_size (C_bits n bs) = n"
| "c_size (C_array n t) = n * c_size t"
| "c_size (C_struct fs) = align_up (struct_end fs 0) (fields_align fs)"
| "c_size (C_union fs) = align_up (union_size fs) (fields_align fs)"
| "struct_end C_end off = off"
| "struct_end (C_field f t fs) off = struct_end fs (align_up off (c_align t) + c_size t)"
| "union_size C_end = 0"
| "union_size (C_field f t fs) = max (c_size t) (union_size fs)"

text \<open>A member by its name: where it is and how many bits it has.\<close>

fun bits_member :: "string \<Rightarrow> nat \<Rightarrow> (string \<times> nat) list \<Rightarrow> (nat \<times> nat) option" where
  "bits_member f pos [] = None"
| "bits_member f pos ((g, w) # bs) = (if f = g then Some (pos, w) else bits_member f (pos + w) bs)"

fun c_member :: "string \<Rightarrow> c_type \<Rightarrow> (nat \<times> nat) option"
  and struct_member :: "string \<Rightarrow> c_fields \<Rightarrow> nat \<Rightarrow> (nat \<times> nat) option"
  and union_member :: "string \<Rightarrow> c_fields \<Rightarrow> (nat \<times> nat) option"
where
  "c_member f (C_int n) = None"
| "c_member f (C_bits n bs) = bits_member f 0 bs"
| "c_member f (C_array n t) = None"
| "c_member f (C_struct fs) = struct_member f fs 0"
| "c_member f (C_union fs) = union_member f fs"
| "struct_member f C_end off = None"
| "struct_member f (C_field g t fs) off =
     (let start = align_up off (c_align t)
      in if f = g then Some (8 * start, 8 * c_size t)
         else case (if g = '''' then c_member f t else None) of
                Some (pos, w) \<Rightarrow> Some (8 * start + pos, w)
              | None \<Rightarrow> struct_member f fs (start + c_size t))"
| "union_member f C_end = None"
| "union_member f (C_field g t fs) =
     (if f = g then Some (0, 8 * c_size t)
      else case (if g = '''' then c_member f t else None) of
             Some m \<Rightarrow> Some m
           | None \<Rightarrow> union_member f fs)"

text \<open>The bytes a member occupies, for one that is not a bit-field.\<close>

definition byte_member :: "string \<Rightarrow> c_type \<Rightarrow> (nat \<times> nat) option" where
  "byte_member f t = map_option (\<lambda>(pos, w). (pos div 8, w div 8)) (c_member f t)"

definition write_member :: "c_type \<Rightarrow> string \<Rightarrow> bytes \<Rightarrow> bytes \<Rightarrow> bytes option" where
  "write_member t f bs p =
     (case byte_member f t of
        None \<Rightarrow> None
      | Some (off, n) \<Rightarrow> if length bs = n then store p off bs else None)"

definition read_member :: "c_type \<Rightarrow> string \<Rightarrow> bytes \<Rightarrow> bytes option" where
  "read_member t f p = Option.bind (byte_member f t) (\<lambda>(off, n). load p off n)"

fun write_members :: "c_type \<Rightarrow> (string \<times> bytes) list \<Rightarrow> bytes \<Rightarrow> bytes option" where
  "write_members t [] p = Some p"
| "write_members t ((f, bs) # vs) p = Option.bind (write_member t f bs p) (write_members t vs)"

subsection \<open>What is written is read back\<close>

text \<open>The members, in the order they are listed, lie one after the other within \<open>hi\<close> bytes.\<close>

fun in_order :: "nat \<Rightarrow> nat \<Rightarrow> (nat \<times> nat) list \<Rightarrow> bool" where
  "in_order lo hi [] = (lo \<le> hi)"
| "in_order lo hi ((off, n) # ms) = (lo \<le> off \<and> in_order (off + n) hi ms)"

lemma in_order_le: "in_order lo hi ms \<Longrightarrow> lo \<le> hi"
  by (induction ms arbitrary: lo) fastforce+

lemma write_members_read:
  assumes "map (\<lambda>(f, bs). byte_member f t) vs = map Some ms" "list_all2 (\<lambda>(f, bs) (off, n). length bs = n) vs ms"
    and "in_order lo hi ms" "hi \<le> length p"
  shows "\<exists>p'. write_members t vs p = Some p' \<and> length p' = length p
    \<and> (\<forall>off n. off + n \<le> lo \<longrightarrow> load p' off n = load p off n)
    \<and> list_all2 (\<lambda>(f, bs) (off, n). load p' off n = Some bs) vs ms"
  using assms
proof (induction vs arbitrary: ms p lo)
  case (Cons v vs)
  obtain f bs where v: "v = (f, bs)" by (rule prod.exhaust)
  obtain off n ms' where ms: "ms = (off, n) # ms'" using Cons.prems(1) by (cases ms) auto
  have m: "byte_member f t = Some (off, n)" "length bs = n" "lo \<le> off" "in_order (off + n) hi ms'"
    using Cons.prems by (simp_all add: v ms)
  have le: "off + n \<le> length p" using in_order_le [OF m(4)] Cons.prems(4) by simp
  then obtain p1 where p1: "store p off bs = Some p1" using m(2) by (simp add: store_def)
  have len: "length p1 = length p" by (rule length_store [OF p1])
  have "hi \<le> length p1" using len Cons.prems(4) by simp
  from Cons.IH [OF _ _ m(4) this] obtain p' where p': "write_members t vs p1 = Some p'" "length p' = length p1"
      "\<forall>i k. i + k \<le> off + n \<longrightarrow> load p' i k = load p1 i k"
      "list_all2 (\<lambda>(f, bs) (off, n). load p' off n = Some bs) vs ms'"
    using Cons.prems(1,2) by (auto simp: v ms)
  have "load p' off n = Some bs" using p'(3) load_store_same [OF p1] m(2) by simp
  moreover have "load p' i k = load p i k" if "i + k \<le> lo" for i k
    using p'(3) that m(3) load_store_before [OF p1, of i k] by simp
  ultimately show ?case
    using p' p1 m len by (auto simp: v ms write_member_def)
qed simp

end
