(* ===== verification/Shared_Structs.thy ===== *)
theory Shared_Structs
  imports C_Layout Balancer_State
begin

section \<open>The structs of the packets and of the BPF maps\<close>

text \<open>
  The headers of \<open>xdp/vmlinux.h\<close>, the keys and values of the maps in \<open>xdp/balancer.bpf.c\<close> and
  the structs by which the control plane fills them (\<open>manager/xdpstructs.h\<close>), with the buffers
  that \<open>manager/xdpdataplane.cpp\<close> hands to the kernel.
\<close>

definition c_u8 :: c_type where "c_u8 = C_int 1"
definition c_u16 :: c_type where "c_u16 = C_int 2"
definition c_u32 :: c_type where "c_u32 = C_int 4"
definition c_u64 :: c_type where "c_u64 = C_int 8"

lemmas c_int_defs = c_u8_def c_u16_def c_u32_def c_u64_def

subsection \<open>Packet headers\<close>

definition struct_ethhdr :: c_type where
  "struct_ethhdr = C_struct (c_members
     [(''h_dest'', C_array 6 c_u8), (''h_source'', C_array 6 c_u8), (''h_proto'', c_u16)])"

definition struct_iphdr :: c_type where
  "struct_iphdr = C_struct (c_members
     [('''', C_bits 1 [(''ihl'', 4), (''version'', 4)]), (''tos'', c_u8), (''tot_len'', c_u16), (''id'', c_u16),
      (''frag_off'', c_u16), (''ttl'', c_u8), (''protocol'', c_u8), (''check'', c_u16),
      ('''', C_union (c_members
         [('''', C_struct (c_members [(''saddr'', c_u32), (''daddr'', c_u32)])),
          (''addrs'', C_struct (c_members [(''saddr'', c_u32), (''daddr'', c_u32)]))]))])"

definition struct_in6_addr :: c_type where
  "struct_in6_addr = C_struct (c_members
     [(''in6_u'', C_union (c_members
         [(''u6_addr8'', C_array 16 c_u8), (''u6_addr16'', C_array 8 c_u16), (''u6_addr32'', C_array 4 c_u32)]))])"

definition struct_ipv6hdr :: c_type where
  "struct_ipv6hdr = C_struct (c_members
     [('''', C_bits 1 [(''priority'', 4), (''version'', 4)]), (''flow_lbl'', C_array 3 c_u8), (''payload_len'', c_u16),
      (''nexthdr'', c_u8), (''hop_limit'', c_u8),
      ('''', C_union (c_members
         [('''', C_struct (c_members [(''saddr'', struct_in6_addr), (''daddr'', struct_in6_addr)])),
          (''addrs'', C_struct (c_members [(''saddr'', struct_in6_addr), (''daddr'', struct_in6_addr)]))]))])"

definition struct_tcphdr :: c_type where
  "struct_tcphdr = C_struct (c_members
     [(''source'', c_u16), (''dest'', c_u16), (''seq'', c_u32), (''ack_seq'', c_u32),
      ('''', C_bits 2 [(''res1'', 4), (''doff'', 4), (''fin'', 1), (''syn'', 1), (''rst'', 1), (''psh'', 1), (''ack'', 1),
                       (''urg'', 1), (''ece'', 1), (''cwr'', 1)]),
      (''window'', c_u16), (''check'', c_u16), (''urg_ptr'', c_u16)])"

definition struct_udphdr :: c_type where
  "struct_udphdr = C_struct (c_members [(''source'', c_u16), (''dest'', c_u16), (''len'', c_u16), (''check'', c_u16)])"

subsection \<open>Keys and values of the maps\<close>

definition struct_service_key :: c_type where
  "struct_service_key = C_struct (c_members
     [('''', C_union (c_members [(''vip4'', c_u32), (''vip6'', C_array 16 c_u8)])),
      (''port'', c_u16), (''protocol'', c_u8), (''ip_version'', c_u8), (''_pad'', C_array 4 c_u8)])"

definition struct_service_info :: c_type where
  "struct_service_info = C_struct (c_members
     [(''backend_count'', c_u32), (''backend_start_idx'', c_u32), (''algorithm'', c_u8), (''_pad'', C_array 3 c_u8),
      (''service_idx'', c_u32)])"

definition struct_backend :: c_type where
  "struct_backend = C_struct (c_members
     [('''', C_union (c_members [(''ipv4'', c_u32), (''ipv6'', C_array 16 c_u8)])),
      (''port'', c_u16), (''mac'', C_array 6 c_u8), (''active'', c_u8), (''ip_version'', c_u8), (''weight'', c_u8),
      (''pad'', C_array 2 c_u8)])"

definition struct_wrr_state :: c_type where
  "struct_wrr_state = C_struct (c_members [(''current_index'', c_u32), (''current_weight_counter'', c_u32)])"

definition struct_session_state_key :: c_type where
  "struct_session_state_key = C_struct (c_members
     [('''', C_union (c_members [(''src_ipv4'', c_u32), (''src_ipv6'', C_array 16 c_u8)])),
      ('''', C_union (c_members [(''dst_ipv4'', c_u32), (''dst_ipv6'', C_array 16 c_u8)])),
      (''src_port'', c_u16), (''dst_port'', c_u16)])"

definition struct_session_state_val :: c_type where
  "struct_session_state_val = C_struct (c_members
     [(''backend_idx'', c_u32), (''service_idx'', c_u32), (''created'', c_u64), (''timeout'', c_u64)])"

definition struct_summary_packets_data :: c_type where
  "struct_summary_packets_data = C_struct (c_members
     [(''total_packets'', c_u64), (''tcp_syn_packets'', c_u64), (''prepared_packets'', c_u64), (''connections'', c_u32),
      (''_pad'', c_u32), (''total_bytes'', c_u64)])"

definition struct_ddos_config :: c_type where
  "struct_ddos_config = C_struct (c_members
     [(''syn_threshold'', c_u32), (''syn_ack_ratio'', c_u32), (''global_syn_threshold'', c_u32), (''ban_duration_ns'', c_u64)])"

definition struct_global_syn_stats :: c_type where
  "struct_global_syn_stats = C_struct (c_members
     [(''syn_count'', c_u64), (''window_start'', c_u64), (''dropped_total'', c_u64)])"

subsection \<open>The structs of the control plane\<close>

definition cpp_Backend :: c_type where
  "cpp_Backend = C_struct (c_members
     [('''', C_union (c_members [(''ipv4'', c_u32), (''ipv6'', C_array 16 c_u8)])),
      (''port'', c_u16), (''mac'', C_array 6 c_u8), (''active'', c_u8), (''ip_version'', c_u8), (''weight'', c_u8),
      (''pad'', C_array 2 c_u8)])"

definition cpp_ServiceKey :: c_type where
  "cpp_ServiceKey = C_struct (c_members
     [('''', C_union (c_members [(''vip4'', c_u32), (''vip6'', C_array 16 c_u8)])),
      (''port'', c_u16), (''protocol'', c_u8), (''ip_version'', c_u8), (''_pad'', C_array 4 c_u8)])"

definition cpp_ServiceInfo :: c_type where
  "cpp_ServiceInfo = C_struct (c_members
     [(''backend_count'', c_u32), (''backend_start_idx'', c_u32), (''algorithm'', c_u8), (''_pad'', C_array 3 c_u8),
      (''service_idx'', c_u32)])"

definition cpp_PacketsData :: c_type where
  "cpp_PacketsData = C_struct (c_members
     [(''total_packets'', c_u64), (''tcp_syn_packets'', c_u64), (''prepared_packets'', c_u64), (''connections'', c_u32),
      (''_pad'', c_u32), (''total_bytes'', c_u64)])"

definition cpp_DDoSConfiguration :: c_type where
  "cpp_DDoSConfiguration = C_struct (c_members
     [(''syn_threshold'', c_u32), (''syn_ack_ratio'', c_u32), (''global_syn_threshold'', c_u32), (''ban_duration_ns'', c_u64)])"

definition cpp_GlobalSynStats :: c_type where
  "cpp_GlobalSynStats = C_struct (c_members
     [(''syn_count'', c_u64), (''window_start'', c_u64), (''dropped_total'', c_u64)])"

text \<open>The struct without a name in which \<open>ReloadConfig\<close> receives the keys of sessions.\<close>

definition cpp_sess_key :: c_type where
  "cpp_sess_key = C_struct (c_members
     [(''src'', C_array 16 c_u8), (''dst'', C_array 16 c_u8), (''src_port'', c_u16), (''dst_port'', c_u16)])"

lemmas struct_defs = struct_ethhdr_def struct_iphdr_def struct_in6_addr_def struct_ipv6hdr_def struct_tcphdr_def
  struct_udphdr_def struct_service_key_def struct_service_info_def struct_backend_def struct_wrr_state_def
  struct_session_state_key_def struct_session_state_val_def struct_summary_packets_data_def struct_ddos_config_def
  struct_global_syn_stats_def

lemmas cpp_defs = cpp_Backend_def cpp_ServiceKey_def cpp_ServiceInfo_def cpp_PacketsData_def
  cpp_DDoSConfiguration_def cpp_GlobalSynStats_def cpp_sess_key_def

lemmas layout_eval = struct_defs cpp_defs c_int_defs align_up_def byte_member_def

subsection \<open>The constants of the packet model\<close>

lemma header_sizes:
  "c_size struct_ethhdr = sizeof_ethhdr" "c_size struct_iphdr = sizeof_iphdr" "c_size struct_ipv6hdr = sizeof_ipv6hdr"
  "c_size struct_tcphdr = sizeof_tcphdr" "c_size struct_udphdr = sizeof_udphdr"
  by (simp_all add: layout_eval sizeof_defs numeral_2_eq_2 [symmetric])

lemma header_offsets:
  "byte_member ''h_dest'' struct_ethhdr = Some (eth_h_dest 0, 6)"
  "byte_member ''h_source'' struct_ethhdr = Some (eth_h_source 0, 6)"
  "byte_member ''h_proto'' struct_ethhdr = Some (eth_h_proto 0, 2)"
  "c_member ''ihl'' struct_iphdr = Some (8 * ip_ihl 0, 4)"
  "byte_member ''protocol'' struct_iphdr = Some (ip_protocol 0, 1)"
  "byte_member ''saddr'' struct_iphdr = Some (ip_saddr 0, 4)"
  "byte_member ''daddr'' struct_iphdr = Some (ip_daddr 0, 4)"
  "byte_member ''nexthdr'' struct_ipv6hdr = Some (ip6_nexthdr 0, 1)"
  "byte_member ''saddr'' struct_ipv6hdr = Some (ip6_saddr 0, 16)"
  "byte_member ''daddr'' struct_ipv6hdr = Some (ip6_daddr 0, 16)"
  "byte_member ''source'' struct_tcphdr = Some (l4_source 0, 2)" "byte_member ''source'' struct_udphdr = Some (l4_source 0, 2)"
  "byte_member ''dest'' struct_tcphdr = Some (l4_dest 0, 2)" "byte_member ''dest'' struct_udphdr = Some (l4_dest 0, 2)"
  "byte_member ''check'' struct_tcphdr = Some (tcp_check 0, 2)" "byte_member ''check'' struct_udphdr = Some (udp_check 0, 2)"
  by (simp_all add: layout_eval field_defs)

lemma header_flags:
  "c_member ''fin'' struct_tcphdr = Some (8 * tcp_flags_off 0 + 0, 1)"
  "c_member ''syn'' struct_tcphdr = Some (8 * tcp_flags_off 0 + 1, 1)"
  "c_member ''rst'' struct_tcphdr = Some (8 * tcp_flags_off 0 + 2, 1)"
  "c_member ''ack'' struct_tcphdr = Some (8 * tcp_flags_off 0 + 4, 1)"
  by (simp_all add: layout_eval field_defs)

subsection \<open>Structs on both sides\<close>

text \<open>The kernel's struct, the control plane's, and the members, which have the same names.\<close>

definition shared_structs :: "(c_type \<times> c_type \<times> string list) list" where
  "shared_structs =
     [(struct_backend, cpp_Backend, [''ipv6'', ''port'', ''mac'', ''active'', ''ip_version'', ''weight'', ''pad'']),
      (struct_service_key, cpp_ServiceKey, [''vip6'', ''port'', ''protocol'', ''ip_version'', ''_pad'']),
      (struct_service_info, cpp_ServiceInfo, [''backend_count'', ''backend_start_idx'', ''algorithm'', ''_pad'', ''service_idx'']),
      (struct_summary_packets_data, cpp_PacketsData,
        [''total_packets'', ''tcp_syn_packets'', ''prepared_packets'', ''connections'', ''_pad'', ''total_bytes'']),
      (struct_ddos_config, cpp_DDoSConfiguration, [''syn_threshold'', ''syn_ack_ratio'', ''global_syn_threshold'', ''ban_duration_ns'']),
      (struct_global_syn_stats, cpp_GlobalSynStats, [''syn_count'', ''window_start'', ''dropped_total''])]"

definition members_of :: "c_type \<Rightarrow> string list \<Rightarrow> (nat \<times> nat) list" where
  "members_of t fs = map (\<lambda>f. the (byte_member f t)) fs"

lemma shared_layouts:
  "(k, u, fs) \<in> set shared_structs \<Longrightarrow>
     c_size u = c_size k \<and> (\<forall>f \<in> set fs. byte_member f u = byte_member f k \<and> byte_member f k \<noteq> None)
     \<and> in_order 0 (c_size k) (members_of k fs)"
  by (simp add: shared_structs_def) (elim disjE; simp add: members_of_def layout_eval)

text \<open>Keys are compared as bytes: theirs are all in members, and the IPv4 view is the first four.\<close>

lemma keys_without_padding:
  "sum_list (map snd (members_of struct_service_key [''vip6'', ''port'', ''protocol'', ''ip_version'', ''_pad'']))
     = c_size struct_service_key"
  "sum_list (map snd (members_of struct_session_state_key [''src_ipv6'', ''dst_ipv6'', ''src_port'', ''dst_port'']))
     = c_size struct_session_state_key"
  "byte_member ''vip4'' struct_service_key = Some (0, 4)" "byte_member ''vip6'' struct_service_key = Some (0, 16)"
  "byte_member ''ipv4'' struct_backend = Some (0, 4)" "byte_member ''ipv6'' struct_backend = Some (0, 16)"
  by (simp_all add: members_of_def layout_eval)

lemma write_members_cong:
  "\<forall>(f, bs) \<in> set vs. byte_member f t = byte_member f u \<Longrightarrow> write_members t vs = write_members u vs"
proof (induction vs)
  case (Cons v vs)
  obtain f bs where v: "v = (f, bs)" by (rule prod.exhaust)
  have "write_members t vs = write_members u vs" "byte_member f t = byte_member f u" using Cons by (auto simp: v)
  then show ?case by (intro ext) (simp add: v write_member_def)
qed auto

lemma shared_roundtrip:
  assumes s: "(k, u, fs) \<in> set shared_structs" and vs: "map fst vs = fs"
    and len: "\<forall>(f, bs) \<in> set vs. map_option snd (byte_member f u) = Some (length bs)" and p: "length p = c_size u"
  obtains p' where "write_members u vs p = Some p'" "write_members k vs p = Some p'" "length p' = c_size k"
    "\<forall>(f, bs) \<in> set vs. read_member k f p' = Some bs \<and> read_member u f p' = Some bs"
proof -
  note lay = shared_layouts [OF s]
  have same: "byte_member f k = byte_member f u" "byte_member f k \<noteq> None" if "(f, bs) \<in> set vs" for f bs
    using lay that vs by force+
  let ?ms = "members_of k fs"
  have ms: "map (\<lambda>(f, bs). byte_member f k) vs = map Some ?ms"
    using same(2) by (auto simp: members_of_def vs [symmetric])
  have fit: "list_all2 (\<lambda>(f, bs) (off, n). length bs = n) vs ?ms"
    using same len by (fastforce simp: members_of_def vs [symmetric] list_all2_conv_all_nth split: prod.splits dest!: nth_mem)
  obtain p' where p': "write_members k vs p = Some p'" "length p' = length p"
      "list_all2 (\<lambda>(f, bs) (off, n). load p' off n = Some bs) vs ?ms"
    using write_members_read [OF ms fit conjunct2 [OF conjunct2 [OF lay]], of p] lay p by auto
  have "read_member k f p' = Some bs" if "(f, bs) \<in> set vs" for f bs
    using p'(3) that same(2) [OF that]
    by (auto simp: members_of_def vs [symmetric] list_all2_conv_all_nth in_set_conv_nth read_member_def split: prod.splits)
  moreover have "write_members u vs = write_members k vs" by (rule write_members_cong) (use same(1) in force)
  moreover have "read_member u f p' = read_member k f p'" if "(f, bs) \<in> set vs" for f bs
    using same(1) [OF that] by (simp add: read_member_def)
  moreover have "length p' = c_size k" using p'(2) p lay by simp
  ultimately show ?thesis by (intro that [of p']) (use p'(1) in auto)
qed

subsection \<open>The maps and the buffers\<close>

datatype map_kind = K_array | K_percpu_array | K_hash | K_lru_hash

record map_decl =
  md_kind :: map_kind
  md_key :: c_type
  md_value :: c_type
  md_max :: nat

definition decl :: "map_kind \<Rightarrow> c_type \<Rightarrow> c_type \<Rightarrow> nat \<Rightarrow> map_decl" where
  "decl kind key val n = \<lparr>md_kind = kind, md_key = key, md_value = val, md_max = n\<rparr>"

text \<open>The maps that the control plane opens, as the program declares them.\<close>

definition bpf_maps :: "(string \<times> map_decl) list" where
  "bpf_maps =
     [(''services_first'', decl K_hash struct_service_key struct_service_info 256),
      (''services_second'', decl K_hash struct_service_key struct_service_info 256),
      (''atomic_index'', decl K_array c_u32 c_u64 1),
      (''backends_first'', decl K_array c_u32 struct_backend 1024),
      (''backends_second'', decl K_array c_u32 struct_backend 1024),
      (''rr_index'', decl K_hash struct_service_key c_u32 256),
      (''wrr_state_map'', decl K_hash struct_service_key struct_wrr_state 256),
      (''ch_curr_lookup'', decl K_array c_u32 c_u32 65537),
      (''ch_prev_lookup'', decl K_array c_u32 c_u32 65537),
      (''ch_backends'', decl K_array c_u32 struct_backend 257),
      (''ch_config'', decl K_array c_u32 c_u32 4),
      (''tcp_session_state'', decl K_hash struct_session_state_key struct_session_state_val 65536),
      (''backends_packets_stats'', decl K_percpu_array c_u32 struct_summary_packets_data 1024),
      (''services_packets_stats'', decl K_percpu_array c_u32 struct_summary_packets_data 256),
      (''blacklist'', decl K_hash c_u32 c_u64 16384),
      (''ddos_cfg'', decl K_array c_u32 struct_ddos_config 1),
      (''global_syn'', decl K_array c_u32 struct_global_syn_stats 1)]"

text \<open>A call of \<open>bpf_map_...\<close> with the objects its key and value pointers point to.\<close>

record map_access =
  ma_map :: string
  ma_key :: c_type
  ma_value :: "c_type option"

definition access :: "string \<Rightarrow> c_type \<Rightarrow> c_type option \<Rightarrow> map_access" where
  "access m k v = \<lparr>ma_map = m, ma_key = k, ma_value = v\<rparr>"

definition index_lookup :: map_access where "index_lookup = access ''atomic_index'' c_u32 (Some c_u8)"
definition index_update :: map_access where "index_update = access ''atomic_index'' c_u32 (Some c_u32)"

definition service_stats_reset :: map_access where
  "service_stats_reset = access ''services_packets_stats'' cpp_ServiceKey (Some cpp_PacketsData)"

text \<open>The calls of \<open>ReloadConfig\<close>, of the queries and of \<open>updateChBpfMaps\<close>, in the order of the code.\<close>

definition reload_accesses :: "map_access list" where
  "reload_accesses =
     [access ''ddos_cfg'' c_u32 (Some cpp_DDoSConfiguration), index_lookup,
      access ''backends_second'' c_u32 (Some cpp_Backend), access ''backends_first'' c_u32 (Some cpp_Backend),
      access ''services_second'' cpp_ServiceKey (Some cpp_ServiceInfo), access ''services_first'' cpp_ServiceKey (Some cpp_ServiceInfo),
      index_update, access ''rr_index'' cpp_ServiceKey (Some c_u32),
      access ''wrr_state_map'' cpp_ServiceKey None, access ''wrr_state_map'' cpp_ServiceKey None,
      access ''tcp_session_state'' cpp_sess_key None, access ''tcp_session_state'' cpp_sess_key None,
      access ''backends_packets_stats'' c_u32 (Some cpp_PacketsData), service_stats_reset]"

definition query_accesses :: "map_access list" where
  "query_accesses =
     [access ''backends_packets_stats'' c_u32 (Some cpp_PacketsData), access ''services_packets_stats'' c_u32 (Some cpp_PacketsData),
      access ''blacklist'' c_u32 None, access ''blacklist'' c_u32 (Some c_u64),
      access ''global_syn'' c_u32 (Some cpp_GlobalSynStats), access ''blacklist'' c_u32 None]"

definition publish_accesses :: "map_access list" where
  "publish_accesses =
     [access ''ch_config'' c_u32 (Some c_u32), access ''ch_config'' c_u32 (Some c_u32),
      access ''ch_backends'' c_u32 (Some cpp_Backend),
      access ''ch_curr_lookup'' c_u32 (Some c_u32), access ''ch_prev_lookup'' c_u32 (Some c_u32)]"

definition map_accesses :: "map_access list" where
  "map_accesses = reload_accesses @ query_accesses @ publish_accesses"

lemmas accesses_defs = map_accesses_def reload_accesses_def query_accesses_def publish_accesses_def

text \<open>The bytes the kernel copies: a value of a per-CPU map takes a multiple of eight per CPU.\<close>

definition copied :: "map_decl \<Rightarrow> nat" where
  "copied d = (if md_kind d = K_percpu_array then align_up (c_size (md_value d)) 8 else c_size (md_value d))"

text \<open>Arrays of such objects, for a batch or for every CPU, have the element size as their stride.\<close>

definition sizes_agree :: "map_access \<Rightarrow> bool" where
  "sizes_agree a =
     (case map_of bpf_maps (ma_map a) of
        None \<Rightarrow> False
      | Some d \<Rightarrow> c_size (ma_key a) = c_size (md_key d)
          \<and> (case ma_value a of None \<Rightarrow> True | Some v \<Rightarrow> c_size v = copied d))"

definition overrun :: "map_access \<Rightarrow> nat" where
  "overrun a =
     (case map_of bpf_maps (ma_map a) of
        None \<Rightarrow> 0
      | Some d \<Rightarrow> (c_size (md_key d) - c_size (ma_key a))
          + (case ma_value a of None \<Rightarrow> 0 | Some v \<Rightarrow> copied d - c_size v))"

lemmas access_eval = sizes_agree_def overrun_def bpf_maps_def decl_def access_def copied_def
  index_lookup_def index_update_def service_stats_reset_def

lemma map_sizes:
  "c_size struct_service_key = 24" "c_size struct_service_info = 16" "c_size struct_backend = 32" "c_size struct_wrr_state = 8"
  "c_size struct_session_state_key = 36" "c_size struct_summary_packets_data = 40" "c_size struct_ddos_config = 24"
  "c_size struct_global_syn_stats = 24" "c_size cpp_sess_key = 36" "c_size c_u8 = 1" "c_size c_u32 = 4" "c_size c_u64 = 8"
  "c_size cpp_Backend = 32" "c_size cpp_ServiceKey = 24" "c_size cpp_ServiceInfo = 16" "c_size cpp_PacketsData = 40"
  "c_size cpp_DDoSConfiguration = 24" "c_size cpp_GlobalSynStats = 24"
  by (simp_all add: layout_eval numeral_2_eq_2 [symmetric])

lemma accesses_agree: "filter (\<lambda>a. \<not> sizes_agree a) map_accesses = [index_lookup, index_update, service_stats_reset]"
  by (simp add: accesses_defs access_eval map_sizes align_up_def)

lemma accesses_overrun: "overrun index_lookup = 7" "overrun index_update = 4" "overrun service_stats_reset = 0"
  by (simp_all add: access_eval map_sizes align_up_def)

lemma map_limits:
  "map_option md_max (map_of bpf_maps ''services_first'') = Some MAX_SERVICES"
  "map_option md_max (map_of bpf_maps ''backends_first'') = Some MAX_BACKENDS"
  "map_option md_max (map_of bpf_maps ''ch_curr_lookup'') = Some MAX_CH_SLOTS"
  "map_option md_max (map_of bpf_maps ''ch_backends'') = Some MAX_CH_BACKENDS"
  "map_option md_max (map_of bpf_maps ''ch_config'') = Some MAX_CH_CONFIG"
  "map_option md_max (map_of bpf_maps ''tcp_session_state'') = Some MAX_SESSIONS"
  "map_option md_max (map_of bpf_maps ''blacklist'') = Some MAX_BLACKLIST"
  by (simp_all add: bpf_maps_def decl_def max_defs)

end
