(* ===== verification/Layout_Properties.thy ===== *)
theory Layout_Properties
  imports Shared_Structs Bpf_Loader
begin

section \<open>Properties of the interface between the program and the control plane\<close>

text \<open>Bytes go from one to the other in the maps; both sides must mean the same by them.\<close>

text \<open>
  C18. Each of the six structs that the control plane declares again lays out every member as the
  program's struct does: whatever values its members are given, and whatever the buffer held in
  its padding, the program reads those values, and the other way round.
\<close>

theorem shared_struct_roundtrip:
  assumes "(k, u, fs) \<in> set shared_structs" "map fst vs = fs"
    and "\<forall>(f, bs) \<in> set vs. map_option snd (byte_member f u) = Some (length bs)" "length p = c_size u"
  shows "\<exists>p'. write_members u vs p = Some p' \<and> write_members k vs p = Some p' \<and> length p' = c_size k
    \<and> (\<forall>(f, bs) \<in> set vs. read_member k f p' = Some bs \<and> read_member u f p' = Some bs)"
  by (rule shared_roundtrip [OF assms]) blast

text \<open>The limits of the README in a buffer of garbage.\<close>

lemma shared_struct_roundtrip_witness:
  "\<exists>p'. write_members cpp_DDoSConfiguration
       [(''syn_threshold'', [100, 0, 0, 0]), (''syn_ack_ratio'', [3, 0, 0, 0]),
        (''global_syn_threshold'', [0xE8, 3, 0, 0]), (''ban_duration_ns'', [0, 0xA2, 0x64, 0xD9, 0, 0, 0, 0])] (replicate 24 0xCC) = Some p'
     \<and> read_member struct_ddos_config ''ban_duration_ns'' p' = Some [0, 0xA2, 0x64, 0xD9, 0, 0, 0, 0]"
  using shared_struct_roundtrip [of struct_ddos_config cpp_DDoSConfiguration
      "[''syn_threshold'', ''syn_ack_ratio'', ''global_syn_threshold'', ''ban_duration_ns'']"
      "[(''syn_threshold'', [100, 0, 0, 0]), (''syn_ack_ratio'', [3, 0, 0, 0]),
        (''global_syn_threshold'', [0xE8, 3, 0, 0]), (''ban_duration_ns'', [0, 0xA2, 0x64, 0xD9, 0, 0, 0, 0])]" "replicate 24 0xCC"]
  by (auto simp: shared_structs_def map_sizes) (auto simp: layout_eval)

text \<open>The loader opens exactly the maps whose declarations are known here.\<close>

lemma opened_maps_declared: "set all_maps = fst ` set bpf_maps"
  unfolding all_maps_def balancer_maps_def ch_map_names_def ddos_map_names_def bpf_maps_def by (simp add: insert_commute)

text \<open>
  In every call that passes a map's key or value, the objects of the control plane have the
  size that the map declares, with three exceptions: the lookup of the index overwrites the seven
  bytes after its variable, the update of the index reads four bytes after its variable, and the
  reset of the service counters passes a service key for a 32-bit index.
\<close>

lemma map_buffers_exact:
  "filter (\<lambda>a. \<not> sizes_agree a) map_accesses = [index_lookup, index_update, service_stats_reset]
   \<and> map overrun [index_lookup, index_update, service_stats_reset] = [7, 4, 0]
   \<and> ma_key service_stats_reset = cpp_ServiceKey \<and> c_size cpp_ServiceKey = 24"
  by (simp add: accesses_agree accesses_overrun map_sizes) (simp add: service_stats_reset_def access_def)

end
