(* ===== verification/Ch_Properties.thy ===== *)
theory Ch_Properties
  imports Ch_Manager Example_State
begin

section \<open>Properties of consistent hashing\<close>

text \<open>The tables of the control plane, their changes, and what the data path makes of them.\<close>

lemma default_ring: "unat (hashring_size default_instance_config) = HASHRING_SMALL"
  by (simp add: default_instance_config_def HASHRING_SMALL_def)

lemma default_ticks: "unat (merge_timeout_ticks default_instance_config) = 180"
  by (simp add: default_instance_config_def)

lemma default_coprime: "coprime_size (unat (hashring_size default_instance_config))"
  by (simp add: default_ring coprime_size_small)

lemma merge_config [simp]: "m_config (merge_instance inst) = m_config inst"
  by (simp add: merge_instance_def)

lemma tickMergeTimer_config: "tickMergeTimer inst = (b, inst') \<Longrightarrow> m_config inst' = m_config inst"
  using tick_config [of inst] by (simp add: tick_def)

lemma reachable_config: "ch_reachable config inst \<Longrightarrow> m_config inst = config"
  by (induction rule: ch_reachable.induct)
    (auto simp: new_instance_def clear_instance_def updateBackends_config tickMergeTimer_config elim!: ch_stepE)

lemmas reachable_default = reachable_ok [OF _ default_coprime]

lemma default_ring_inst: "ch_reachable default_instance_config inst \<Longrightarrow> ring inst = HASHRING_SMALL"
  using reachable_config [of default_instance_config inst] by (simp add: ring_def default_ring)

text \<open>What a change of the backends leaves, field by field.\<close>

lemma update_fields:
  assumes "ch_reachable default_instance_config inst" "backends \<noteq> []"
    "updateBackends backends inst = Some inst'"
  shows "m_backends inst' = backends" "m_needsMerge inst'" "m_mergeTimer inst' = 0"
    "m_prevLookup inst' = settled_table inst" "m_config inst' = default_instance_config"
    "full_table HASHRING_SMALL (length backends) (m_currLookup inst')" "instance_ok inst'"
proof -
  note ok = reachable_default [OF assms(1)]
  obtain tab where "full_table (ring inst) (length backends) tab"
    "updateBackends backends inst =
       Some (inst\<lparr>m_backends := backends, m_currLookup := tab, m_prevLookup := settled_table inst,
         m_stats := (m_stats inst)\<lparr>st_update_count := st_update_count (m_stats inst) + 1,
                                   current_backends_count := of_nat (length backends)\<rparr>,
         m_mergeTimer := 0, m_needsMerge := True\<rparr>)"
    by (rule updateBackends_ok [OF ok assms(2)])
  then show "m_backends inst' = backends" "m_needsMerge inst'" "m_mergeTimer inst' = 0"
    "m_prevLookup inst' = settled_table inst" "m_config inst' = default_instance_config"
    "full_table HASHRING_SMALL (length backends) (m_currLookup inst')"
    using assms(3) reachable_config [OF assms(1)] default_ring_inst [OF assms(1)] by auto
  show "instance_ok inst'" by (rule instance_ok_update [OF ok assms(3)])
qed

lemma reachable_ticks: "ch_reachable config inst \<Longrightarrow> ch_reachable config ((tick ^^ k) inst)"
  by (induction k) (auto simp: tick_def intro: reach_step step_tick prod.collapse [symmetric])

text \<open>The first instance with a given list of backends.\<close>

lemma demo_instance:
  obtains inst where "updateBackends backends (new_instance default_instance_config) = Some inst"
    "ch_reachable default_instance_config inst"
proof -
  obtain inst where upd: "updateBackends backends (new_instance default_instance_config) = Some inst"
    using updateBackends_defined [OF reachable_default [OF reach_new]] by blast
  show ?thesis by (rule that [OF upd reach_step [OF reach_new step_update [OF upd]]])
qed

text \<open>A packet in a published state.\<close>

lemma published_handle:
  assumes pub: "published inst st" and ok: "instance_ok inst" and ne: "m_backends inst \<noteq> []"
    and n: "length (m_backends inst) \<le> MAX_CH_BACKENDS"
    and look: "fst (consistent_hash_lookup h False st) = lookup_word (lookupCurr h inst)"
  shows "\<exists>i < length (m_backends inst). lookupCurr h inst = Some (int i)
    \<and> fst (ch_balancer_handle env k h len l st) =
          (if active (m_backends inst ! i) = 0 then None else Some (m_backends inst ! i))"
proof -
  obtain v where v: "lookupCurr h inst = Some v" "0 \<le> v" "v < int (length (m_backends inst))"
    by (rule lookupCurr_backend [OF ok ne])
  define i where "i = nat v"
  have i: "v = int i" "i < length (m_backends inst)" using v by (simp_all add: i_def)
  obtain s where s: "consistent_hash_lookup h False st = (of_nat i, s)"
    using look v(1) i(1) by (metis lookup_word_def of_int_of_nat_eq option.simps(5) prod.collapse)
  have "ch_backends s i = m_backends inst ! i"
    using consistent_hash_lookup_frame [OF s] pub i(2) by (auto simp: published_def)
  moreover have "\<not> sint (of_nat i :: u32) < 0" "unat (of_nat i :: u32) = i" "i < MAX_CH_BACKENDS"
    using sint_table_entry [of "int i"] i(2) n by (simp_all add: max_defs unat_of_nat)
  ultimately have "fst (ch_balancer_handle env k h len l st) =
      (if active (m_backends inst ! i) = 0 then None else Some (m_backends inst ! i))"
    by (simp add: ch_balancer_handle_def s array_lookup_def Let_def)
  then show ?thesis using v(1) i by auto
qed

subsection \<open>Tables\<close>

text \<open>
  C11. Giving backends to a consistent-hash instance always succeeds: from every state the instance
  can reach, filling the table ends, every slot gets one of the backends, the slots are shared
  out evenly (they differ by at most one), and every hash is mapped to a backend.
\<close>

theorem ch_update_complete:
  assumes "ch_reachable default_instance_config inst" and "backends \<noteq> []"
  shows "\<exists>inst'. updateBackends backends inst = Some inst' \<and> m_backends inst' = backends
    \<and> full_table HASHRING_SMALL (length backends) (m_currLookup inst')
    \<and> (\<forall>h. \<exists>i. lookupCurr h inst' = Some i \<and> 0 \<le> i \<and> i < int (length backends))"
proof -
  obtain inst' where upd: "updateBackends backends inst = Some inst'"
    using updateBackends_defined [OF reachable_default [OF assms(1)]] by blast
  note f = update_fields [OF assms upd]
  have "\<exists>i. lookupCurr h inst' = Some i \<and> 0 \<le> i \<and> i < int (length backends)" for h
    using lookupCurr_backend [OF f(7), of h] assms(2) f(1) by metis
  then show ?thesis using upd f by auto
qed

lemma ch_update_complete_witness:
  "\<exists>inst'. updateBackends [demo_backend 1, demo_backend 2] (new_instance default_instance_config) = Some inst'
    \<and> full_table HASHRING_SMALL 2 (m_currLookup inst')"
  using ch_update_complete [OF reach_new, of "[demo_backend 1, demo_backend 2]"]
  by (auto simp: numeral_2_eq_2)

text \<open>
  C26. A change becomes final after 180 ticks: until then the table from before the change is kept
  beside the new one, also by a second change, which starts the wait again; the 180th tick drops
  it, after which every key is stable.
\<close>

theorem ch_merge_timeout:
  assumes "ch_reachable default_instance_config inst" and "backends \<noteq> []"
    and "updateBackends backends inst = Some inst'"
  shows "(\<forall>k < 180. m_needsMerge ((tick ^^ k) inst')
        \<and> m_prevLookup ((tick ^^ k) inst') = settled_table inst
        \<and> m_currLookup ((tick ^^ k) inst') = m_currLookup inst'
        \<and> (\<forall>more again. more \<noteq> [] \<longrightarrow> updateBackends more ((tick ^^ k) inst') = Some again \<longrightarrow>
              m_prevLookup again = settled_table inst \<and> m_mergeTimer again = 0 \<and> m_needsMerge again))
    \<and> \<not> m_needsMerge ((tick ^^ 180) inst')
    \<and> m_prevLookup ((tick ^^ 180) inst') = m_currLookup inst'
    \<and> m_currLookup ((tick ^^ 180) inst') = m_currLookup inst'
    \<and> (\<forall>h. isStable h ((tick ^^ 180) inst'))"
proof -
  note f = update_fields [OF assms]
  have t: "unat (merge_timeout_ticks (m_config inst')) = 180" by (simp add: f(5) default_ticks)
  have waits: "(tick ^^ k) inst' = inst'\<lparr>m_mergeTimer := of_nat k\<rparr>" if "k < 180" for k
    using tick_waits [OF f(2,3)] that by (simp add: t)
  have again: "m_prevLookup again = settled_table inst \<and> m_mergeTimer again = 0 \<and> m_needsMerge again"
    if k: "k < 180" and more: "more \<noteq> []" "updateBackends more ((tick ^^ k) inst') = Some again" for k more again
  proof -
    have "ch_reachable default_instance_config inst'"
      using assms(1) step_update [OF assms(3)] by (rule reach_step)
    then have "ch_reachable default_instance_config ((tick ^^ k) inst')" by (rule reachable_ticks)
    note again = update_fields [OF this more]
    show ?thesis using again(2-4) waits [OF k] f(2,4) by (simp add: settled_table_def)
  qed
  have "(tick ^^ 180) inst' = merge_instance inst'"
    using tick_merges [OF f(2,3)] by (simp add: t)
  then show ?thesis
    using again waits f(2,4) by (simp add: merge_instance_def isStable_def slot_def)
qed

lemma ch_merge_timeout_witness:
  "\<exists>inst'. updateBackends [demo_backend 1] (new_instance default_instance_config) = Some inst'
    \<and> \<not> m_needsMerge ((tick ^^ 180) inst') \<and> m_needsMerge ((tick ^^ 179) inst')"
proof -
  obtain inst' where upd: "updateBackends [demo_backend 1] (new_instance default_instance_config) = Some inst'"
    by (rule demo_instance)
  then show ?thesis using ch_merge_timeout [OF reach_new _ upd] by simp
qed

subsection \<open>The data path\<close>

lemma dataplane_published:
  assumes "ch_reachable default_instance_config inst" and "m_backends inst \<noteq> []"
    and "length (m_backends inst) \<le> MAX_CH_BACKENDS"
  shows "\<exists>st'. publish True key inst st = (True, st')
    \<and> (\<forall>h. fst (consistent_hash_lookup h False st') = lookup_word (lookupCurr h inst))
    \<and> (\<forall>env k h n l. \<exists>i < length (m_backends inst). lookupCurr h inst = Some (int i)
          \<and> fst (ch_balancer_handle env k h n l st') =
                (if active (m_backends inst ! i) = 0 then None else Some (m_backends inst ! i)))"
proof -
  note ok = reachable_default [OF assms(1)] and ring = default_ring_inst [OF assms(1)]
  have r: "ring inst \<le> MAX_CH_SLOTS" by (simp add: ring HASHRING_SMALL_def max_defs)
  obtain st' where st': "publish True key inst st = (True, st')" "published inst st'"
    by (rule publish_fits [OF ok assms(3) r])
  have look: "fst (consistent_hash_lookup h False st') = lookup_word (lookupCurr h inst)" for h
    by (rule dataplane_reads_curr [OF st'(2) ok assms(2,3) r])
  have "\<exists>i < length (m_backends inst). lookupCurr h inst = Some (int i)
      \<and> fst (ch_balancer_handle env k h n l st') =
            (if active (m_backends inst ! i) = 0 then None else Some (m_backends inst ! i))" for env k h n l
    by (rule published_handle [OF st'(2) ok assms(2,3) look])
  then show ?thesis using st'(1) look by blast
qed

text \<open>
  C8. The data path implements the control plane's table. After an instance with at most 257
  backends has been copied into the maps, the lookup of the XDP program returns for every hash
  what the control plane's \<open>lookupCurr\<close> returns, and a packet goes to the backend of that
  number, if it is active.
\<close>

theorem ch_dataplane_refines:
  assumes "ch_reachable default_instance_config inst" and "m_backends inst \<noteq> []"
    and "length (m_backends inst) \<le> MAX_CH_BACKENDS"
  shows "\<exists>st'. publish True key inst st = (True, st')
    \<and> (\<forall>h. fst (consistent_hash_lookup h False st') = lookup_word (lookupCurr h inst))
    \<and> (\<forall>env k h n l. \<exists>i < length (m_backends inst). lookupCurr h inst = Some (int i)
          \<and> fst (ch_balancer_handle env k h n l st') =
                (if active (m_backends inst ! i) = 0 then None else Some (m_backends inst ! i)))"
  by (rule dataplane_published [OF assms])

lemma ch_dataplane_refines_witness:
  "\<exists>inst st'. updateBackends [demo_backend 1, demo_backend 2] (new_instance default_instance_config) = Some inst
    \<and> publish True demo_key inst initial_maps = (True, st')
    \<and> fst (consistent_hash_lookup 0 False st') = lookup_word (lookupCurr 0 inst)"
proof -
  obtain inst where upd: "updateBackends [demo_backend 1, demo_backend 2] (new_instance default_instance_config) = Some inst"
    and reach: "ch_reachable default_instance_config inst" by (rule demo_instance)
  then show ?thesis
    using ch_dataplane_refines [OF reach, of demo_key initial_maps] update_fields(1) [OF reach_new _ upd]
    by (fastforce simp: max_defs)
qed

text \<open>
  With more than 257 backends the copy stops after the 257th: it reports a failure, the new
  number of backends and the first 257 of them are in the maps, and the slots still hold the
  table of an earlier copy, whose numbers now name other backends.
\<close>

theorem ch_publish_too_many:
  assumes "MAX_CH_BACKENDS < length (m_backends inst)"
  shows "\<exists>st'. publish True key inst st = (False, st')
    \<and> ch_config st' 0 = hashring_size (m_config inst)
    \<and> ch_config st' 1 = of_nat (length (m_backends inst))
    \<and> (\<forall>i < MAX_CH_BACKENDS. ch_backends st' i = m_backends inst ! i)
    \<and> ch_curr_lookup st' = ch_curr_lookup st \<and> ch_prev_lookup st' = ch_prev_lookup st"
  using write_slots_full [of 0 MAX_CH_BACKENDS "m_backends inst"] assms ch_max_small(2)
  by (simp add: publish_def updateChBpfMaps_def ch_max_small(3) config_writes Let_def)

lemma ch_publish_too_many_witness:
  "\<exists>st'. publish True demo_key ((new_instance default_instance_config)\<lparr>m_backends := replicate 258 (demo_backend 1)\<rparr>)
       initial_maps = (False, st') \<and> ch_config st' 1 = 258"
  using ch_publish_too_many [of "(new_instance default_instance_config)\<lparr>m_backends := replicate 258 (demo_backend 1)\<rparr>"
    demo_key initial_maps] by (auto simp: max_defs)

text \<open>
  The maps hold the table of one service: when the instances of two services have been
  copied, packets of either go to backends of the second alone.
\<close>

theorem ch_services_share_tables:
  assumes "ch_reachable default_instance_config inst" and "m_backends inst \<noteq> []"
    and "length (m_backends inst) \<le> MAX_CH_BACKENDS"
    and "publish True key1 other st = (r, st1)" and "publish True key2 inst st1 = (r2, st2)"
    and "ch_balancer_handle env key h n l st2 = (Some be, i, st3)"
  shows "be \<in> set (m_backends inst)"
proof -
  from dataplane_published [OF assms(1-3), of key2 st1] assms(5)
  obtain j where "j < length (m_backends inst)"
    "fst (ch_balancer_handle env key h n l st2) =
       (if active (m_backends inst ! j) = 0 then None else Some (m_backends inst ! j))"
    by fastforce
  then show ?thesis using assms(6) by (auto split: if_splits)
qed

lemma ch_services_share_tables_witness:
  "\<exists>inst1 inst2 r1 r2 st1 st2 st3 i.
     updateBackends [demo_backend 1] (new_instance default_instance_config) = Some inst1
     \<and> updateBackends [demo_backend 2] (new_instance default_instance_config) = Some inst2
     \<and> publish True demo_key inst1 initial_maps = (r1, st1) \<and> publish True demo6_key inst2 st1 = (r2, st2)
     \<and> ch_balancer_handle (demo_env 0) demo_key 7 60 0 st2 = (Some (demo_backend 2), i, st3)"
proof -
  obtain inst1 where u1: "updateBackends [demo_backend 1] (new_instance default_instance_config) = Some inst1"
    by (rule demo_instance)
  obtain inst2 where u2: "updateBackends [demo_backend 2] (new_instance default_instance_config) = Some inst2"
    and reach: "ch_reachable default_instance_config inst2" by (rule demo_instance)
  note b = update_fields(1) [OF reach_new _ u2]
  obtain r1 st1 where p1: "publish True demo_key inst1 initial_maps = (r1, st1)" by (rule prod.exhaust)
  obtain st2 where p2: "publish True demo6_key inst2 st1 = (True, st2)"
    "fst (ch_balancer_handle (demo_env 0) demo_key 7 60 0 st2) \<noteq> None"
    using dataplane_published [OF reach, of demo6_key st1] b by (fastforce simp: max_defs demo_backend_def)
  then obtain be i st3 where h: "ch_balancer_handle (demo_env 0) demo_key 7 60 0 st2 = (Some be, i, st3)"
    by (cases "ch_balancer_handle (demo_env 0) demo_key 7 60 0 st2") auto
  have "be = demo_backend 2"
    using ch_services_share_tables [OF reach _ _ p1 p2(1) h] b by (simp add: max_defs)
  then show ?thesis using u1 u2 p1 p2(1) h by blast
qed

text \<open>
  Between a service's first table and its first merge the two sides disagree on every key:
  the control plane, which has no previous table, reports it stable, the data path unstable.
\<close>

theorem ch_first_table_unstable:
  assumes "backends \<noteq> []" and "length backends \<le> MAX_CH_BACKENDS"
    and "updateBackends backends (new_instance default_instance_config) = Some inst"
    and "publish True key inst st = (r, st')"
  shows "isStable h inst \<and> \<not> consistent_hash_is_stable h st'"
proof -
  note f = update_fields [OF reach_new assms(1,3)]
  have ring: "ring inst = HASHRING_SMALL" by (simp add: ring_def f(5) default_ring)
  have r: "ring inst \<le> MAX_CH_SLOTS" by (simp add: ring HASHRING_SMALL_def max_defs)
  obtain st'' where "publish True key inst st = (True, st'')" "published inst st''"
    using publish_fits [OF f(7) _ r] assms(2) f(1) by metis
  then have pub: "published inst st'" using assms(4) by simp
  have prev: "m_prevLookup inst = replicate HASHRING_SMALL (-1)"
    by (simp add: f(4) settled_table_def) (simp add: new_instance_def default_ring)
  have s: "slot h inst < HASHRING_SMALL" using slot_less [OF f(7)] by (simp add: ring)
  have "0 < HASHRING_SMALL" by (simp add: HASHRING_SMALL_def)
  moreover have "sint (of_int (m_currLookup inst ! slot h inst) :: u32) = m_currLookup inst ! slot h inst"
    "0 \<le> m_currLookup inst ! slot h inst"
    using full_table_entry [OF f(6) s assms(2)] by simp_all
  ultimately show ?thesis
    using dataplane_stable [OF pub f(7) r, of h] s prev by (auto simp: isStable_def)
qed

lemma ch_first_table_unstable_witness:
  "\<exists>inst st'. updateBackends [demo_backend 1] (new_instance default_instance_config) = Some inst
    \<and> publish True demo_key inst initial_maps = (True, st')
    \<and> isStable 5 inst \<and> \<not> consistent_hash_is_stable 5 st'"
proof -
  obtain inst where upd: "updateBackends [demo_backend 1] (new_instance default_instance_config) = Some inst"
    and reach: "ch_reachable default_instance_config inst" by (rule demo_instance)
  moreover obtain st' where "publish True demo_key inst initial_maps = (True, st')"
    using dataplane_published [OF reach, of demo_key initial_maps]
      update_fields(1) [OF reach_new _ upd] by (auto simp: max_defs)
  ultimately show ?thesis using ch_first_table_unstable [of "[demo_backend 1]" inst] by (fastforce simp: max_defs)
qed

end
