(* ===== verification/Ch_Transition.thy ===== *)
theory Ch_Transition
  imports Concurrent_System
begin

section \<open>Packets while a table is replaced\<close>

text \<open>
  The tables that the data path reads change in a publication alone, one call at a time, and only
  one publication is going on at any moment. So between two calls they are the old tables with the
  first calls applied.
\<close>

definition table_view :: "xdp_maps \<Rightarrow> _" where
  "table_view st = (ch_config st, ch_backends st, ch_curr_lookup st, ch_prev_lookup st)"

text \<open>The publication that is going on, followed by those that wait for it.\<close>

definition queue :: "concurrent_system \<Rightarrow> ch_write list list" where
  "queue s =
     (case s of (m, d, r, ws) \<Rightarrow>
        (case r of Some (conf, Rl_publish pubs ss) \<Rightarrow> if pubs = [] then ws else pubs | _ \<Rightarrow> ws))"

definition tables :: "concurrent_system \<Rightarrow> _" where
  "tables s = (case s of (m, d, r, ws) \<Rightarrow> table_view (kernel d))"

subsection \<open>Nothing else touches the tables\<close>

lemma xdp_step_tables:
  assumes "xdp_step st st'" "maps_ok st" "sessions_ok st"
  shows "table_view st' = table_view st"
proof -
  obtain mid where "ddos_frame st mid" "data_frame mid st'"
    using xdp_step_invariant(3) [OF assms] by (auto simp: xdp_frame_def)
  then show ?thesis by (cases st; cases mid; cases st') (simp add: ddos_frame_def data_frame_def table_view_def)
qed

lemma before_next_tables:
  "before_switch p \<Longrightarrow> table_view (kernel (snd (reload_next h config (p, d)))) = table_view (kernel d)"
  by (cases p)
    (auto simp: prepare_kernel load_ddos_def load_backends_def load_services_def switch_index_def read_index_standby
      table_view_def in_kernel_def Let_def split_beta split: option.split)

lemma reload_next_tables:
  "\<not> holds_lock p \<Longrightarrow> table_view (kernel (snd (reload_next h config (p, d)))) = table_view (kernel d)"
proof (cases "before_switch p")
  case False
  assume "\<not> holds_lock p"
  with False show ?thesis
  proof (induction h config "(p, d)" arbitrary: p d rule: reload_next.induct)
    case (7 h config d)
    show ?case by (simp add: reset_rr_def in_kernel_def table_view_def Let_def split_beta)
  next
    case (11 h config service ss d)
    obtain pubs r e where b: "begin_ch_service h service d = (pubs, r, e)" by (rule prod_cases3)
    show ?case by (simp add: b, subst begin_fields(1) [OF b]) simp
  next
    case (17 h config idx n d)
    show ?case by (simp add: in_kernel_def table_view_def split: prod.split bool.split)
  next
    case (19 h config key ks d)
    show ?case by (simp add: in_kernel_def table_view_def split: prod.split bool.split)
  qed (auto simp: in_kernel_def table_view_def split: option.split)
qed (rule before_next_tables)

text \<open>A call only depends on the tables.\<close>

lemma ch_write_call_tables:
  "table_view st = table_view st' \<Longrightarrow>
     fst (ch_write_call w st) = fst (ch_write_call w st')
     \<and> table_view (snd (ch_write_call w st)) = table_view (snd (ch_write_call w st'))"
  by (cases w) (simp_all add: table_view_def Let_def split_beta)

subsection \<open>One step of the system\<close>

lemma concurrent_step_queue:
  assumes "concurrent_step h s t" "concurrent_ok s" "case s of (m, d, r, ws) \<Rightarrow> ws = [] \<or> \<not> reload_holds r"
    and "queue s \<noteq> []"
  shows "queue t = queue s \<and> tables t = tables s
    \<or> (\<exists>st st'. table_view st = tables s \<and> publish_next (queue s, st) = (queue t, st') \<and> tables t = table_view st')"
  using assms
proof (induction rule: concurrent_step.induct)
  case (con_packet d st m r ws)
  then show ?case using xdp_step_tables [OF con_packet.hyps]
    by (simp add: queue_def tables_def concurrent_ok_def dataplane_ok_def)
next
  case (con_maintain r d ws e m)
  then show ?case by (auto simp: queue_def reload_holds_def split: option.splits reload_point.splits if_splits)
next
  case (con_publish ws d ws' st m r)
  then have "\<not> reload_holds r" by simp
  then have "queue (m, d, r, ws) = ws" "queue (m, d\<lparr>kernel := st\<rparr>, r, ws') = ws'"
    by (auto simp: queue_def reload_holds_def split: option.split reload_point.split)
  then show ?case using con_publish.hyps(2) by (auto simp: tables_def)
next
  case (con_call p ws conf d q e m)
  show ?case
  proof (cases "holds_lock p")
    case True
    then obtain c cs ss where p: "p = Rl_publish (c # cs) ss" by (cases p) (auto simp: neq_Nil_conv)
    then have "ws = []" using con_call.prems(2) by (simp add: reload_holds_def)
    then show ?thesis using con_call.hyps(3) p by (auto simp: queue_def tables_def split: prod.splits)
  next
    case False
    then have "ws \<noteq> []" using con_call.prems(3) by (auto simp: queue_def split: reload_point.splits if_splits)
    then have "\<not> holds_lock q" using interleaved_lock [OF il_reload [OF con_call.hyps]] False by simp
    then show ?thesis using False reload_next_tables [OF False, of h conf d] con_call.hyps(3)
      by (auto simp: queue_def tables_def split: reload_point.split)
  qed
qed (auto simp: queue_def tables_def starting_def split: option.splits reload_point.splits)

subsection \<open>The tables after some of the calls\<close>

definition ch_calls :: "ch_instance \<Rightarrow> ch_write list" where
  "ch_calls inst =
     ch_writes True (m_backends inst) (m_currLookup inst) (m_prevLookup inst) (hashring_size (m_config inst))"

definition partly :: "ch_instance \<Rightarrow> nat \<Rightarrow> xdp_maps \<Rightarrow> xdp_maps" where
  "partly inst k st =
     (let n = length (m_backends inst);
          size = (if k = 0 then ch_config st else (ch_config st)(0 := hashring_size (m_config inst)))
      in st\<lparr>ch_config := (if k < 2 then size else size(1 := of_nat n)),
            ch_backends := (\<lambda>j. if j < n \<and> j + 2 < k then m_backends inst ! j else ch_backends st j),
            ch_curr_lookup := (\<lambda>j. if j < ring inst \<and> j + 2 + n < k then of_int (m_currLookup inst ! j) else ch_curr_lookup st j),
            ch_prev_lookup := (\<lambda>j. if j < ring inst \<and> j + 2 + n + ring inst < k then of_int (m_prevLookup inst ! j)
                                   else ch_prev_lookup st j)\<rparr>)"

text \<open>A publication that has room: none of its calls fails.\<close>

definition fits_tables :: "ch_instance \<Rightarrow> bool" where
  "fits_tables inst \<longleftrightarrow>
     instance_ok inst \<and> length (m_backends inst) \<le> MAX_CH_BACKENDS \<and> ring inst \<le> MAX_CH_SLOTS"

lemma ch_calls_length: "instance_ok inst \<Longrightarrow> length (ch_calls inst) = 2 + length (m_backends inst) + 2 * ring inst"
  using tables_length [of inst] by (simp add: ch_calls_def ch_writes_def ring_def)

lemma take_enumerate: "take k (enumerate n xs) = enumerate n (take k xs)"
  by (induction xs arbitrary: k n) (auto simp: take_Cons')

lemma write_slots_take:
  assumes "length vs \<le> n" "n < 4294967296"
  shows "write_slots n 0 (take k vs) m = (True, \<lambda>j. if j < length vs \<and> j < k then vs ! j else m j)"
  using assms by (subst write_slots_fits) (auto simp: fun_eq_iff)

lemma run_calls:
  assumes "fits_tables inst"
  shows "run_writes (take k (ch_calls inst)) st = (True, partly inst k st)"
proof -
  note len = tables_length [of inst] ch_max_small
  have fits: "instance_ok inst" "length (m_backends inst) \<le> MAX_CH_BACKENDS" "ring inst \<le> MAX_CH_SLOTS"
    using assms by (simp_all add: fits_tables_def)
  have tab: "write_slots MAX_CH_SLOTS 0 (map of_int (take i t)) m
      = (True, \<lambda>j. if j < ring inst \<and> j < i then of_int (t ! j) else m j)"
    if "length t = ring inst" for t :: "int list" and i and m :: "u32 bpf_array"
    using write_slots_take [of "map of_int t" MAX_CH_SLOTS i m] that fits(3) len(3) by (simp add: take_map fun_eq_iff cong: if_cong)
  have bs: "write_slots MAX_CH_BACKENDS 0 (take i (m_backends inst)) m
      = (True, \<lambda>j. if j < length (m_backends inst) \<and> j < i then m_backends inst ! j else m j)" for i m
    by (rule write_slots_take [OF fits(2) len(4)])
  consider "k = 0" | "k = 1" | i where "k = Suc (Suc i)"
    by (metis One_nat_def not0_implies_Suc)
  then show ?thesis
  proof cases
    case 3
    then show ?thesis using len(1,2) [OF fits(1)]
      by (simp add: ch_calls_def ch_writes_def len(5) config_writes run_writes_append run_slots take_map take_enumerate
          tab bs ring_def [symmetric] partly_def Let_def)
        (cases st, auto simp: fun_eq_iff)
  qed (simp_all add: ch_calls_def ch_writes_def partly_def len(5) config_writes)
qed

lemma next_call:
  assumes "fits_tables inst" "k < length (ch_calls inst)" "table_view st' = table_view (partly inst k st)"
  shows "fst (ch_write_call (ch_calls inst ! k) st')"
    "table_view (snd (ch_write_call (ch_calls inst ! k) st')) = table_view (partly inst (Suc k) st)"
proof -
  have "run_writes [ch_calls inst ! k] (partly inst k st) = (True, partly inst (Suc k) st)"
    using run_calls [OF assms(1), of "Suc k" st]
    by (simp add: take_Suc_conv_app_nth [OF assms(2)] run_writes_append run_calls [OF assms(1)])
  then have "ch_write_call (ch_calls inst ! k) (partly inst k st) = (True, partly inst (Suc k) st)"
    by (auto split: prod.splits bool.splits)
  with ch_write_call_tables [OF assms(3), of "ch_calls inst ! k"]
  show "fst (ch_write_call (ch_calls inst ! k) st')"
    "table_view (snd (ch_write_call (ch_calls inst ! k) st')) = table_view (partly inst (Suc k) st)" by simp_all
qed

subsection \<open>A publication among packets\<close>

text \<open>The runs of the system from a state on until the first publication of its queue is over.\<close>

inductive publishing :: "host \<Rightarrow> concurrent_system \<Rightarrow> concurrent_system \<Rightarrow> bool" for h s where
  pub_start: "publishing h s s"
| pub_step: "publishing h s t \<Longrightarrow> length (queue s) \<le> length (queue t) \<Longrightarrow> concurrent_step h t u \<Longrightarrow> publishing h s u"

definition one_publication :: "concurrent_system \<Rightarrow> bool" where
  "one_publication s \<longleftrightarrow> concurrent_ok s \<and> (case s of (m, d, r, ws) \<Rightarrow> ws = [] \<or> \<not> reload_holds r)"

lemma one_publication_step: "concurrent_step h s t \<Longrightarrow> host_ok h \<Longrightarrow> one_publication s \<Longrightarrow> one_publication t"
  using concurrent_step_ok concurrent_step_lock unfolding one_publication_def by blast

definition kernel_of :: "concurrent_system \<Rightarrow> xdp_maps" where
  "kernel_of s = kernel (fst (snd s))"

lemma tables_kernel: "tables s = table_view (kernel_of s)"
  by (cases s) (simp add: tables_def kernel_of_def)

text \<open>How far a publication has got, with the tables it has left so far.\<close>

definition published_so_far :: "ch_instance \<Rightarrow> ch_write list list \<Rightarrow> xdp_maps \<Rightarrow> concurrent_system \<Rightarrow> bool" where
  "published_so_far inst waiting st t \<longleftrightarrow>
     (\<exists>k \<le> length (ch_calls inst). tables t = table_view (partly inst k st)
        \<and> (queue t = drop k (ch_calls inst) # waiting \<or> k = length (ch_calls inst) \<and> queue t = waiting))"

lemma publishing_state:
  assumes "publishing h s t" "host_ok h" "one_publication s" "queue s = ch_calls inst # waiting" "fits_tables inst"
  shows "one_publication t \<and> published_so_far inst waiting (kernel_of s) t"
  using assms(1)
proof (induction rule: publishing.induct)
  case pub_start
  have "partly inst 0 (kernel_of s) = kernel_of s" by (simp add: partly_def)
  then show ?case using assms(3,4) by (auto simp: published_so_far_def tables_kernel intro!: exI [of _ 0])
next
  case (pub_step t u)
  let ?st = "kernel_of s" and ?cs = "ch_calls inst"
  obtain k where k: "k \<le> length ?cs" "tables t = table_view (partly inst k ?st)" "queue t = drop k ?cs # waiting"
    using pub_step.IH pub_step.hyps(2) assms(4) by (auto simp: published_so_far_def)
  have one: "one_publication u" by (rule one_publication_step [OF pub_step.hyps(3) assms(2)]) (simp add: pub_step.IH)
  have "queue u = queue t \<and> tables u = tables t
      \<or> (\<exists>st st'. table_view st = tables t \<and> publish_next (queue t, st) = (queue u, st') \<and> tables u = table_view st')"
    using concurrent_step_queue [OF pub_step.hyps(3)] pub_step.IH k(3) by (simp add: one_publication_def)
  then have "published_so_far inst waiting ?st u"
  proof
    assume "queue u = queue t \<and> tables u = tables t"
    then show ?thesis using k by (auto simp: published_so_far_def)
  next
    assume "\<exists>st st'. table_view st = tables t \<and> publish_next (queue t, st) = (queue u, st') \<and> tables u = table_view st'"
    then obtain st st' where st: "table_view st = tables t" "publish_next (queue t, st) = (queue u, st')" "tables u = table_view st'"
      by blast
    show ?thesis
    proof (cases "k < length ?cs")
      case True
      note go = next_call [OF assms(5) True, of st ?st]
      have "drop k ?cs = ?cs ! k # drop (Suc k) ?cs" by (rule Cons_nth_drop_Suc [OF True, symmetric])
      then have "queue u = drop (Suc k) ?cs # waiting" "tables u = table_view (partly inst (Suc k) ?st)"
        using st k(2,3) go by (auto simp: split_beta Let_def)
      then show ?thesis using True unfolding published_so_far_def by (intro exI [of _ "Suc k"]) simp
    next
      case False
      then show ?thesis using k st by (auto simp: published_so_far_def)
    qed
  qed
  with one show ?case by simp
qed

text \<open>It can always make its next call, and comes through all of them.\<close>

lemma publication_goes_on:
  assumes "one_publication s" "queue s \<noteq> []"
  shows "\<exists>t. concurrent_step h s t \<and> publish_next (queue s, kernel_of s) = (queue t, kernel_of t)"
proof -
  obtain m d r ws where s: "s = (m, d, r, ws)" by (metis prod.exhaust)
  show ?thesis
  proof (cases "reload_holds r")
    case True
    then obtain conf c cs ss where r: "r = Some (conf, Rl_publish (c # cs) ss)"
      by (auto simp: reload_holds_def neq_Nil_conv split: option.splits elim!: holds_lock.elims)
    obtain pubs st where n: "publish_next (c # cs, kernel d) = (pubs, st)" by (rule prod.exhaust)
    have ws: "ws = []" using assms(1) True by (simp add: one_publication_def s)
    have "concurrent_step h s (m, d\<lparr>kernel := st\<rparr>, Some (conf, Rl_publish pubs ss), ws)"
      unfolding s r by (rule con_call) (simp_all add: n)
    then show ?thesis using n by (intro exI) (auto simp: s r ws queue_def kernel_of_def)
  next
    case False
    then have q: "queue (m, e, r, vs) = vs" for e vs
      by (auto simp: queue_def reload_holds_def split: option.split reload_point.split)
    obtain ws' st where n: "publish_next (ws, kernel d) = (ws', st)" by (rule prod.exhaust)
    have "concurrent_step h s (m, d\<lparr>kernel := st\<rparr>, r, ws')"
      unfolding s by (rule con_publish [OF _ n]) (use assms(2) q in \<open>simp add: s\<close>)
    then show ?thesis using n by (intro exI) (auto simp: s q kernel_of_def)
  qed
qed

lemma publishing_reaches:
  assumes "host_ok h" "one_publication s" "queue s = ch_calls inst # waiting" "fits_tables inst"
  shows "k \<le> length (ch_calls inst) \<Longrightarrow>
    \<exists>t. publishing h s t \<and> queue t = drop k (ch_calls inst) # waiting \<and> tables t = table_view (partly inst k (kernel_of s))"
proof (induction k)
  case 0
  have "partly inst 0 (kernel_of s) = kernel_of s" by (simp add: partly_def)
  then show ?case using assms(3) by (intro exI [of _ s]) (simp add: tables_kernel pub_start)
next
  case (Suc k)
  then obtain t where t: "publishing h s t" "queue t = drop k (ch_calls inst) # waiting"
      "tables t = table_view (partly inst k (kernel_of s))" by auto
  have k: "k < length (ch_calls inst)" using Suc.prems by simp
  obtain u where u: "concurrent_step h t u" "publish_next (queue t, kernel_of t) = (queue u, kernel_of u)"
    using publication_goes_on [of t h] publishing_state [OF t(1) assms] t(2) by auto
  have "publishing h s u" by (rule pub_step [OF t(1) _ u(1)]) (simp add: assms(3) t(2))
  moreover have "drop k (ch_calls inst) = ch_calls inst ! k # drop (Suc k) (ch_calls inst)"
    by (rule Cons_nth_drop_Suc [OF k, symmetric])
  ultimately show ?case
    using u(2) next_call [OF assms(4) k, of "kernel_of t" "kernel_of s"] t(2,3)
    by (intro exI [of _ u]) (auto simp: tables_kernel split_beta Let_def)
qed

subsection \<open>What the data path picks meanwhile\<close>

lemma pick_tables:
  assumes "table_view st = table_view st'"
  shows "fst (ch_balancer_handle env key h n l st) = fst (ch_balancer_handle env key h n l st')"
  using assms
  by (auto simp: table_view_def ch_balancer_handle_def consistent_hash_lookup_def Let_def array_lookup_def split: option.split)

lemma pick_entry:
  assumes "ch_config st 0 \<noteq> 0" "unat (h mod ch_config st 0) < MAX_CH_SLOTS"
    and "ch_curr_lookup st (unat (h mod ch_config st 0)) = of_nat j" "j < MAX_CH_BACKENDS" "ch_backends st j = b"
  shows "fst (ch_balancer_handle env key h n l st) = (if active b = 0 then None else Some b)"
proof -
  have j: "\<not> sint (of_nat j :: u32) < 0" "unat (of_nat j :: u32) = j"
    using sint_table_entry [of "int j"] assms(4) by (simp_all add: max_defs unat_of_nat)
  obtain s where s: "consistent_hash_lookup h False st = (of_nat j, s)"
    using assms(1-3) j(1) by (simp add: consistent_hash_lookup_def array_lookup_def max_defs Let_def)
  have "ch_backends s j = b" using consistent_hash_lookup_frame [OF s] assms(5) by auto
  then show ?thesis using assms(4) j by (simp add: ch_balancer_handle_def s array_lookup_def Let_def)
qed

text \<open>The server of a hash by the number of calls made: first the old one, then the new list under the old number, then the new one.\<close>

lemma partly_picks:
  assumes old: "published inst st" "fits_tables inst" "m_backends inst \<noteq> []"
    and new: "fits_tables inst'" "m_backends inst' \<noteq> []" and size: "m_config inst' = m_config inst"
  obtains i i' where "i < length (m_backends inst)" "lookupCurr h inst = Some (int i)"
    "i' < length (m_backends inst')" "lookupCurr h inst' = Some (int i')"
    "\<And>env key n l k. fst (ch_balancer_handle env key h n l (partly inst' k st)) =
       (let b = (if slot h inst + 2 + length (m_backends inst') < k then m_backends inst' ! i'
                 else if i < length (m_backends inst') \<and> i + 2 < k then m_backends inst' ! i
                 else m_backends inst ! i)
        in if active b = 0 then None else Some b)"
proof -
  have ok: "instance_ok inst" "instance_ok inst'" and room: "length (m_backends inst) \<le> MAX_CH_BACKENDS"
      "length (m_backends inst') \<le> MAX_CH_BACKENDS" "ring inst \<le> MAX_CH_SLOTS"
    using old(2) new(1) by (simp_all add: fits_tables_def)
  obtain v v' where v: "lookupCurr h inst = Some v" "0 \<le> v" "v < int (length (m_backends inst))" "m_currLookup inst ! slot h inst = v"
      "lookupCurr h inst' = Some v'" "0 \<le> v'" "v' < int (length (m_backends inst'))" "m_currLookup inst' ! slot h inst' = v'"
    using lookupCurr_backend [OF ok(1) old(3), of h] lookupCurr_backend [OF ok(2) new(2), of h] by metis
  define i i' where "i = nat v" and "i' = nat v'"
  have i: "v = int i" "v' = int i'" using v by (simp_all add: i_def i'_def)
  have slot: "slot h inst < ring inst" "slot h inst' = slot h inst" "ring inst' = ring inst"
    using slot_less [OF ok(1)] size by (simp_all add: slot_def ring_def)
  have config: "ch_config (partly inst' k st) 0 = hashring_size (m_config inst)" for k
    using old(1) size by (simp add: partly_def published_def Let_def)
  have nonzero: "hashring_size (m_config inst) \<noteq> 0"
    using ok(1) by (auto simp: instance_ok_def coprime_size_def ring_def)
  have at: "ch_curr_lookup (partly inst' k st) (slot h inst) =
      of_nat (if slot h inst + 2 + length (m_backends inst') < k then i' else i)" for k
    using old(1) slot v i by (auto simp: partly_def published_def Let_def)
  have entry: "ch_backends (partly inst' k st) j =
      (if j < length (m_backends inst') \<and> j + 2 < k then m_backends inst' ! j else ch_backends st j)" for j k
    by (simp add: partly_def Let_def)
  have old_entry: "ch_backends st i = m_backends inst ! i" using old(1) v i by (simp add: published_def)
  have index: "unat (h mod hashring_size (m_config inst)) = slot h inst" by (simp add: slot_def)
  have handle: "fst (ch_balancer_handle env key h n l (partly inst' k st)) =
       (let b = (if slot h inst + 2 + length (m_backends inst') < k then m_backends inst' ! i'
                 else if i < length (m_backends inst') \<and> i + 2 < k then m_backends inst' ! i
                 else m_backends inst ! i)
        in if active b = 0 then None else Some b)" for env key n l k
  proof (cases "slot h inst + 2 + length (m_backends inst') < k")
    case True
    then show ?thesis using at [of k] entry [of k i'] v(7) i nonzero slot(1) room
      by (subst pick_entry [where j = i']) (simp_all add: config index Let_def)
  next
    case False
    then show ?thesis using at [of k] entry [of k i] old_entry v(3) i nonzero slot(1) room
      by (subst pick_entry [where j = i]) (simp_all add: config index Let_def)
  qed
  show ?thesis by (rule that [OF _ _ _ _ handle]) (use v i in simp_all)
qed

end
