(* ===== verification/Ch_Reload.thy ===== *)
theory Ch_Reload
  imports Ch_Properties Ch_Transition Reload_Returns
begin

section \<open>Consistent-hash services after a reload\<close>

text \<open>
  A reload publishes its consistent-hash services one after the other, each over the tables of the
  one before. What it leaves are the tables of the last one that has servers.
\<close>

text \<open>The data plane makes its instances with the default configuration only.\<close>

definition default_entries :: "ch_services \<Rightarrow> bool" where
  "default_entries m \<longleftrightarrow> (\<forall>(k, e) \<in> set m. se_config e = default_instance_config)"

lemma entry_of_default:
  "default_entries m \<Longrightarrow> se_config (entry_of key default_instance_config m) = default_instance_config"
  using sk.find_mem [of key m] by (force simp: entry_of_def default_entries_def split: option.split)

lemma default_entries_put:
  "default_entries m \<Longrightarrow> se_config e = default_instance_config \<Longrightarrow> default_entries (omap_put service_key_lt key e m)"
  using put_entries [of _ _ service_key_lt key e m] by (fastforce simp: default_entries_def)

lemma default_entries_remove: "default_entries m \<Longrightarrow> default_entries (snd (removeService key m))"
  using sk.erase_subset [of _ key m] by (fastforce simp: default_entries_def removeService_def split_beta)

lemma begin_ch_service_default:
  assumes "begin_ch_service h service d = (pubs, r, e)" "default_entries (m_chManager d)"
  shows "default_entries (m_chManager e)"
  using assms default_entries_put [OF assms(2)] entry_of_default [OF assms(2)] default_entries_remove [OF assms(2)]
  by (auto simp: begin_ch_service_def updateServiceBackends_eq Let_def split: if_splits option.splits)

lemma begin_maintenance_default:
  assumes "begin_maintenance d = (pubs, e)" "default_entries (m_chManager d)"
  shows "default_entries (m_chManager e)"
proof -
  have "m_chManager e = fst (periodicMaintenance (recorder d) (m_chManager d, []))"
    using assms(1) by (auto simp: begin_maintenance_def split: prod.splits)
  then show ?thesis using assms(2) by (auto simp: default_entries_def periodicMaintenance_ticks)
qed

lemma reload_next_manager:
  "\<not> takes_lock p \<Longrightarrow> m_chManager (snd (reload_next h config (p, d))) = m_chManager d"
  by (cases "(h, config, (p, d))" rule: reload_next.cases)
    (auto simp: prepare_kernel load_ddos_def load_backends_def load_services_def switch_index_def read_index_standby
      reset_rr_def begin_ch_service_def in_kernel_def go_on_def Let_def split_beta split: option.split bool.split)

lemma concurrent_step_default:
  "concurrent_step h s t \<Longrightarrow> default_entries (m_chManager (fst (snd s))) \<Longrightarrow> default_entries (m_chManager (fst (snd t)))"
proof (induction rule: concurrent_step.induct)
  case (con_maintain r d ws e m)
  then show ?case using begin_maintenance_default by simp
next
  case (con_call p ws conf d q e m)
  show ?case
  proof (cases "takes_lock p")
    case True
    then obtain service ss where p: "p = Rl_ch (service # ss)" by (cases p rule: takes_lock.cases) auto
    obtain pubs r e' where b: "begin_ch_service h service d = (pubs, r, e')" by (rule prod_cases3)
    then have "e = e'" using con_call.hyps(3) by (simp add: p go_on_def)
    then show ?thesis using begin_ch_service_default [OF b] con_call.prems by simp
  next
    case False
    then show ?thesis using reload_next_manager [OF False, of h conf d] con_call by simp
  qed
qed simp_all

lemma reachable_default_entries: "concurrent_reachable h s \<Longrightarrow> default_entries (m_chManager (fst (snd s)))"
proof (induction rule: concurrent_reachable.induct)
  case (con_start opened)
  then show ?case by (simp add: initial_dataplane_def default_entries_def)
qed (use concurrent_step_default in blast)

subsection \<open>The services of one reload\<close>

definition ch_ready :: "backend list \<Rightarrow> xdp_dataplane \<Rightarrow> bool" where
  "ch_ready bs d \<longleftrightarrow>
     dataplane_ok d \<and> maps_opened d \<and> default_entries (m_chManager d) \<and> m_xdpBackends d = bs"

lemma update_ch_service_fields:
  "maps_opened (snd (update_ch_service h s d)) = maps_opened d"
  "m_xdpBackends (snd (update_ch_service h s d)) = m_xdpBackends d"
  by (auto simp: update_ch_service_def Let_def split: option.split)

lemma update_ch_service_default:
  "default_entries (m_chManager d) \<Longrightarrow> default_entries (m_chManager (snd (update_ch_service h s d)))"
  using begin_ch_service_default [of h s d] by (auto simp: update_ch_service_begin publish_all_def split: prod.split)

lemma update_ch_service_ready:
  assumes "ch_ready bs d" "ch_key h s \<noteq> None"
  shows "fst (update_ch_service h s d) = None" "ch_ready bs (snd (update_ch_service h s d))"
proof -
  have ok: "dataplane_ok d" using assms(1) by (simp add: ch_ready_def)
  show "ch_ready bs (snd (update_ch_service h s d))"
    using assms(1) keepsD [OF update_ch_service_keeps ok] update_ch_service_default
    by (simp add: ch_ready_def update_ch_service_fields)
  show "fst (update_ch_service h s d) = None" by (rule update_ch_service_defined [OF ok assms(2)])
qed

lemma update_ch_append: "update_ch h (ss @ ts) = and_then (update_ch h ss) (update_ch h ts)"
proof (induction ss)
  case Nil
  show ?case by (rule ext) (simp add: and_then_def)
next
  case (Cons s ss)
  have "update_ch h (t # us) = and_then (update_ch_service h t) (update_ch h us)" for t us by (rule ext) simp
  with Cons show ?case by (simp add: and_then_assoc)
qed

lemma update_ch_ready:
  "ch_ready bs d \<Longrightarrow> \<forall>s \<in> set ss. ch_key h s \<noteq> None \<Longrightarrow>
     fst (update_ch h ss d) = None \<and> ch_ready bs (snd (update_ch h ss d))"
proof (induction ss arbitrary: d)
  case (Cons s ss)
  then have one: "update_ch_service h s d = (None, snd (update_ch_service h s d))" "ch_ready bs (snd (update_ch_service h s d))"
    using update_ch_service_ready [of bs d h s] by (simp_all add: prod_eq_iff)
  have "update_ch h (s # ss) d = update_ch h ss (snd (update_ch_service h s d))"
    by (simp add: and_then_def) (subst one(1), simp)
  then show ?case using Cons one(2) by simp
qed simp

text \<open>A service without servers, or of another kind, publishes nothing.\<close>

lemma update_ch_idle:
  "ch_ready bs d \<Longrightarrow> \<forall>s \<in> set ss. ch_key h s \<noteq> None \<Longrightarrow>
     \<forall>s \<in> set ss. srv_type s \<noteq> CH \<or> collect_ch_backends h bs (reals s) = [] \<Longrightarrow>
     kernel (snd (update_ch h ss d)) = kernel d"
proof (induction ss arbitrary: d)
  case (Cons s ss)
  have one: "update_ch_service h s d = (None, snd (update_ch_service h s d))" "ch_ready bs (snd (update_ch_service h s d))"
    using Cons.prems(1,2) update_ch_service_ready [of bs d h s] by (simp_all add: prod_eq_iff)
  have "kernel (snd (update_ch_service h s d)) = kernel d"
    using Cons.prems by (auto simp: update_ch_service_def ch_ready_def Let_def split: option.split)
  moreover have "update_ch h (s # ss) d = update_ch h ss (snd (update_ch_service h s d))"
    by (simp add: and_then_def) (subst one(1), simp)
  ultimately show ?case using Cons one(2) by simp
qed simp

text \<open>One with servers, at most 257, leaves the complete table of an instance in the maps.\<close>

lemma update_ch_service_published:
  assumes ready: "ch_ready bs d" and s: "srv_type s = CH" "ch_key h s = Some key"
    and cs: "collect_ch_backends h bs (reals s) = cs" "cs \<noteq> []" "length cs \<le> MAX_CH_BACKENDS"
  obtains inst where "m_backends inst = cs" "m_config inst = default_instance_config" "instance_ok inst"
    "published inst (kernel (snd (update_ch_service h s d)))"
proof -
  let ?e = "entry_of key default_instance_config (m_chManager d)"
  have ok: "services_ok (m_chManager d)" "maps_opened d" "m_xdpBackends d = bs"
    using ready by (simp_all add: ch_ready_def dataplane_ok_def chs_ok_def)
  obtain inst m' where u: "updateBackends cs (se_instance ?e) = Some inst" "instance_ok inst"
      "updateServiceBackends (ch_callback d) key cs default_instance_config (m_chManager d, kernel d) =
         Some (True, m', call_bpf (ch_callback d) key inst (kernel d))"
    by (rule updateServiceBackends_ok [OF ok(1) coprime_default])
  have config: "m_config inst = default_instance_config"
    using updateBackends_config [OF u(1)] entry_of_ok [OF ok(1) coprime_default, of key] entry_of_default [of "m_chManager d" key] ready
    by (simp add: entry_ok_def ch_ready_def)
  have bs: "m_backends inst = cs" by (rule updateBackends_backends [OF u(1)])
  have "ring inst \<le> MAX_CH_SLOTS" by (simp add: ring_def config default_instance_config_def HASHRING_SMALL_def max_defs)
  then obtain st where st: "publish True key inst (kernel d) = (True, st)" "published inst st"
    using publish_fits [OF u(2)] cs(3) bs by metis
  have "kernel (snd (update_ch_service h s d)) = st"
    using s u(3) cs(1,2) ok(2,3) st(1) by (simp add: update_ch_service_def call_bpf_def ch_callback_def publish_def Let_def)
  then show ?thesis using that bs config u(2) st(2) by simp
qed

lemma update_ch_published:
  assumes ready: "ch_ready bs d" and ss: "ss = pre @ s # post" "\<forall>t \<in> set ss. ch_key h t \<noteq> None"
    and s: "srv_type s = CH" and cs: "collect_ch_backends h bs (reals s) = cs" "cs \<noteq> []" "length cs \<le> MAX_CH_BACKENDS"
    and post: "\<forall>t \<in> set post. srv_type t \<noteq> CH \<or> collect_ch_backends h bs (reals t) = []"
  obtains inst where "m_backends inst = cs" "m_config inst = default_instance_config" "instance_ok inst"
    "published inst (kernel (snd (update_ch h ss d)))"
proof -
  define d1 where "d1 = snd (update_ch h pre d)"
  define d2 where "d2 = snd (update_ch_service h s d1)"
  have 1: "update_ch h pre d = (None, d1)" "ch_ready bs d1"
    using update_ch_ready [OF ready, of pre h] ss by (simp_all add: d1_def prod_eq_iff)
  have 2: "update_ch_service h s d1 = (None, d2)" "ch_ready bs d2"
    using update_ch_service_ready [OF 1(2), of h s] ss by (simp_all add: d2_def prod_eq_iff)
  have run: "update_ch h ss d = update_ch h post d2"
    by (simp add: ss(1) update_ch_append and_then_def 1(1) 2(1))
  obtain key where "ch_key h s = Some key" using ss by auto
  from update_ch_service_published [OF 1(2) s this cs] obtain inst where
    "m_backends inst = cs" "m_config inst = default_instance_config" "instance_ok inst" "published inst (kernel d2)"
    unfolding d2_def by blast
  moreover have "kernel (snd (update_ch h post d2)) = kernel d2" using update_ch_idle [OF 2(2) _ post] ss by simp
  ultimately show ?thesis using that run by simp
qed

subsection \<open>The whole reload\<close>

lemma after_ch_tables: "table_view (kernel (snd (and_then clear_sessions reset_stats d))) = table_view (kernel d)"
proof -
  have b: "table_view (kernel (snd (reset_backend_stats i n d))) = table_view (kernel d)" for i n d
    by (induction n arbitrary: i d) (auto simp: in_kernel_def table_view_def split: prod.split bool.split)
  have s: "table_view (kernel (snd (reset_service_stats ks d))) = table_view (kernel d)" for ks d
    by (induction ks arbitrary: d) (auto simp: in_kernel_def table_view_def split: prod.split bool.split)
  have keeps: "table_view (kernel (snd (and_then f g d))) = table_view (kernel d)"
    if "\<And>d. table_view (kernel (snd (f d))) = table_view (kernel d)" "\<And>d. table_view (kernel (snd (g d))) = table_view (kernel d)"
    for f g d
    using that(1) [of d] that(2) [of "snd (f d)"] by (cases "f d") (simp add: and_then_def split: option.split)
  have "table_view (kernel (snd (reset_stats d))) = table_view (kernel d)" for d
    unfolding reset_stats_def by (rule keeps [OF b s])
  then show ?thesis by (rule keeps [rotated]) (simp add: clear_sessions_def in_kernel_def table_view_def)
qed

lemma published_view: "table_view st = table_view st' \<Longrightarrow> published inst st = published inst st'"
  by (simp add: published_def table_view_def)

lemma reload_publishes:
  assumes ok: "dataplane_ok d" "maps_opened d" "index_ok d" "host_ok h" "rest_of_index h = 0" "default_entries (m_chManager d)"
    and fits: "fits h config d" "length (rr_index (kernel d)) + length (services config) \<le> MAX_SERVICES"
    and ss: "services config = pre @ s # post" "srv_type s = CH"
    and cs: "collect_ch_backends h (config_backends h (services config)) (reals s) = cs" "cs \<noteq> []" "length cs \<le> MAX_CH_BACKENDS"
    and post: "\<forall>t \<in> set post. srv_type t \<noteq> CH \<or> collect_ch_backends h (config_backends h (services config)) (reals t) = []"
  obtains inst where "m_backends inst = cs" "m_config inst = default_instance_config" "instance_ok inst"
    "published inst (kernel (snd (ReloadConfig h config d)))"
proof -
  have maps: "maps_ok (kernel d)" using ok(1) by (simp add: dataplane_ok_def)
  have idx: "standby d = 0 \<or> standby d = 1" using ok(3) by (auto simp: index_ok_def)
  obtain e where e: "ReloadConfig h config d = after_switch h config e"
      "rr_index (kernel e) = rr_index (kernel d)" "m_xdpKeys e = map (the_key h) (services config)"
      "m_xdpBackends e = config_backends h (services config)" "m_chManager e = m_chManager d" "maps_opened e"
      "host_ok h \<longrightarrow> dataplane_ok d \<longrightarrow> dataplane_ok e"
    by (rule ReloadConfig_switches [OF ok(2) maps idx ok(5) fits(1)])
  obtain m where m: "hash_batch MAX_SERVICES (map (\<lambda>k. (k, 0)) (m_xdpKeys e)) (rr_index (kernel e)) = (True, m)"
    using hash_batch_fits [of MAX_SERVICES "rr_index (kernel e)" "map (\<lambda>k. (k, 0)) (m_xdpKeys e)"] fits(2) maps
    by (auto simp: e(2,3) maps_ok_def)
  define e2 where "e2 = in_kernel (\<lambda>st. st\<lparr>rr_index := m, wrr_state_map := []\<rparr>) e"
  have rr: "reset_rr e = (None, in_kernel (\<lambda>st. st\<lparr>rr_index := m\<rparr>) e)" by (simp add: reset_rr_def m)
  have wrr: "reset_wrr (in_kernel (\<lambda>st. st\<lparr>rr_index := m\<rparr>) e) = (None, e2)" by (simp add: reset_wrr_def e2_def in_kernel_def)
  have "dataplane_ok e2"
    using keepsD [OF reset_wrr_keeps keepsD [OF reset_rr_keeps, of e]] e(7) ok(1,4) by (simp add: rr wrr)
  then have ready: "ch_ready (config_backends h (services config)) e2"
    using ok(6) e(4-6) by (simp add: ch_ready_def e2_def in_kernel_def)
  have keys: "\<forall>t \<in> set (services config). ch_key h t \<noteq> None"
    using fits(1) ch_key_prepared by (force simp: fits_def resolves_def)
  obtain inst where inst: "m_backends inst = cs" "m_config inst = default_instance_config" "instance_ok inst"
      "published inst (kernel (snd (update_ch h (services config) e2)))"
    by (rule update_ch_published [OF ready ss(1) keys ss(2) cs post])
  have none: "update_ch h (services config) e2 = (None, snd (update_ch h (services config) e2))"
    using update_ch_ready [OF ready keys] by (simp add: prod_eq_iff)
  have "after_switch h config e = and_then clear_sessions reset_stats (snd (update_ch h (services config) e2))"
    unfolding after_switch_def by (simp add: and_then_def [of reset_rr] and_then_def [of reset_wrr] rr wrr)
      (simp add: and_then_def [of "update_ch h (services config)"], subst none, simp)
  then have "published inst (kernel (snd (ReloadConfig h config d)))"
    using published_view [OF after_ch_tables, of inst "snd (update_ch h (services config) e2)"] inst(4) e(1) by simp
  then show ?thesis using that inst(1-3) by blast
qed

subsection \<open>Flows\<close>

definition ch_hash :: "session_state_key \<Rightarrow> u32" where
  "ch_hash sk =
     hash_key_consistent
       (src_ipv4 sk XOR dst_ipv4 sk XOR push_bit 16 (ucast (src_port sk)) XOR ucast (dst_port sk)) 0x5737a28c"

text \<open>The first packet of a flow of a consistent-hash service gets what the lookup of its hash gives.\<close>

lemma ch_first_packet:
  assumes "hash_lookup (services_map st (atomic_index st 0)) key = Some info" "algorithm info = BALANCER_CH" "pure_syn tcp"
  shows "fst (find_tcp_backend env sk key tcp len st) = fst (ch_balancer_handle env key (ch_hash sk) len 0 st)"
proof -
  have "tcp_schedule env sk key len bm info l st = ch_balancer_handle env key (ch_hash sk) len l st" for bm l
    using assms(2) by (simp add: tcp_schedule_def balancer_alg_defs ch_hash_def)
  then show ?thesis
    using assms(1,3)
    by (cases "ch_balancer_handle env key (ch_hash sk) len 0 st")
      (auto simp: find_tcp_backend_def array_lookup_def new_session_phase_def tcp_start_def close_phase_def Let_def
        split: option.split)
qed

text \<open>The servers of a service are among those of the configuration, by their address.\<close>

lemma collect_ch_backends_real:
  "b \<in> set (collect_ch_backends h bs rs) \<Longrightarrow> b \<in> set bs \<and> (\<exists>r \<in> set rs. enabled r \<and> matches_real h r b)"
  by (induction rs) (auto split: if_splits option.splits simp: find_Some_iff)

text \<open>In a state with a published table the first packet gets the server of the table.\<close>

lemma published_first_packet:
  assumes "published inst st" "instance_ok inst" "m_config inst = default_instance_config"
    and "m_backends inst \<noteq> []" "length (m_backends inst) \<le> MAX_CH_BACKENDS"
    and "hash_lookup (services_map st (atomic_index st 0)) key = Some info" "algorithm info = BALANCER_CH" "pure_syn tcp"
  obtains i where "i < length (m_backends inst)" "lookupCurr (ch_hash sk) inst = Some (int i)"
    "fst (find_tcp_backend env sk key tcp len st) = (if active (m_backends inst ! i) = 0 then None else Some (m_backends inst ! i))"
proof -
  have "ring inst \<le> MAX_CH_SLOTS" by (simp add: ring_def assms(3) default_instance_config_def HASHRING_SMALL_def max_defs)
  from published_handle [OF assms(1,2,4,5) dataplane_reads_curr [OF assms(1,2,4,5) this], of "ch_hash sk" env key len 0]
  show ?thesis using that ch_first_packet [OF assms(6-8), of env sk len] by auto
qed

end
