(* ===== verification/Ch_Liveness.thy ===== *)
theory Ch_Liveness
  imports Ch_Transition
begin

section \<open>Every copy of a table comes to its end\<close>

text \<open>
  Infinite runs of the system in which the thread that publishes is not passed over for ever: again
  and again there is nothing to publish or a call of the publication is made.
\<close>

definition system_run :: "host \<Rightarrow> (nat \<Rightarrow> concurrent_system) \<Rightarrow> bool" where
  "system_run h run \<longleftrightarrow> (\<forall>i. concurrent_step h (run i) (run (Suc i)))"

definition publisher_fair :: "(nat \<Rightarrow> concurrent_system) \<Rightarrow> bool" where
  "publisher_fair run \<longleftrightarrow> (\<forall>i. \<exists>j \<ge> i. queue (run j) = [] \<or> queue (run (Suc j)) \<noteq> queue (run j))"

lemma run_one_publication:
  assumes "system_run h run" "host_ok h" "one_publication (run 0)"
  shows "one_publication (run i)"
  using assms by (induction i) (auto simp: system_run_def intro: one_publication_step)

lemma run_publishing:
  assumes "system_run h run" "publishing h s (run i)" "length (queue s) \<le> length (queue (run i))"
    and "\<And>m. i \<le> m \<Longrightarrow> m < j \<Longrightarrow> queue (run m) = queue (run i)" "i \<le> j"
  shows "publishing h s (run j)"
  using assms(5,4)
proof (induction j rule: dec_induct)
  case (step m)
  have "publishing h s (run m)" by (rule step.IH) (rule step.prems, simp_all)
  moreover have "length (queue s) \<le> length (queue (run m))"
    using assms(3) step.prems [OF step.hyps(1)] by simp
  moreover have "concurrent_step h (run m) (run (Suc m))" using assms(1) by (simp add: system_run_def)
  ultimately show ?case by (rule pub_step)
qed (rule assms(2))

text \<open>The first change of the queue after a moment.\<close>

lemma fair_change:
  assumes "publisher_fair run" "queue (run i) \<noteq> []"
  obtains j where "i \<le> j" "\<forall>m. i \<le> m \<and> m \<le> j \<longrightarrow> queue (run m) = queue (run i)" "queue (run (Suc j)) \<noteq> queue (run i)"
proof -
  let ?P = "\<lambda>j. i \<le> j \<and> queue (run j) \<noteq> queue (run i)"
  obtain j where "j \<ge> i" "queue (run j) = [] \<or> queue (run (Suc j)) \<noteq> queue (run j)"
    using assms(1) unfolding publisher_fair_def by blast
  then have "?P j \<or> ?P (Suc j)" using assms(2) by auto
  then have least: "?P (LEAST j. ?P j)" by (metis (mono_tags, lifting) LeastI)
  then obtain k where k: "(LEAST j. ?P j) = Suc k" using not0_implies_Suc by (metis le_0_eq)
  have "\<forall>m. i \<le> m \<and> m \<le> k \<longrightarrow> queue (run m) = queue (run i)"
  proof (intro allI impI)
    fix m assume m: "i \<le> m \<and> m \<le> k"
    then have "\<not> ?P m" by (intro not_less_Least) (simp add: k)
    then show "queue (run m) = queue (run i)" using m by simp
  qed
  moreover have "i \<le> k" using least k by (metis le_SucE)
  ultimately show ?thesis using that least k by metis
qed

text \<open>One more call is made, whatever comes in between.\<close>

definition copied_upto :: "host \<Rightarrow> ch_instance \<Rightarrow> ch_write list list \<Rightarrow> concurrent_system \<Rightarrow> nat \<Rightarrow> concurrent_system \<Rightarrow> bool" where
  "copied_upto h inst waiting s k t \<longleftrightarrow>
     publishing h s t \<and> queue t = drop k (ch_calls inst) # waiting \<and> tables t = table_view (partly inst k (kernel_of s))"

lemma fair_call:
  assumes run: "system_run h run" "publisher_fair run" "host_ok h" "one_publication (run 0)"
    and q: "queue (run 0) = ch_calls inst # waiting" "fits_tables inst"
    and i: "publishing h (run 0) (run i)" "queue (run i) = drop k (ch_calls inst) # waiting" "k \<le> length (ch_calls inst)"
  obtains j where "i < j" "publishing h (run 0) (run j)"
    "if k < length (ch_calls inst) then copied_upto h inst waiting (run 0) (Suc k) (run j) else queue (run j) = waiting"
proof -
  have ne: "queue (run i) \<noteq> []" using i(2) by simp
  obtain j where j: "i \<le> j" "\<forall>m. i \<le> m \<and> m \<le> j \<longrightarrow> queue (run m) = queue (run i)" "queue (run (Suc j)) \<noteq> queue (run i)"
    by (rule fair_change [OF run(2) ne])
  have len: "length (queue (run 0)) \<le> length (queue (run i))" by (simp add: q(1) i(2))
  have same: "queue (run j) = queue (run i)" using j(1) by (intro j(2) [rule_format]) simp
  then have now: "queue (run j) = drop k (ch_calls inst) # waiting" using i(2) by simp
  have pub: "publishing h (run 0) (run j)"
    by (rule run_publishing [OF run(1) i(1) len _ j(1)]) (rule j(2) [rule_format], simp)
  have pub': "publishing h (run 0) (run (Suc j))"
    by (rule pub_step [OF pub]) (use run(1) now q(1) in \<open>auto simp: system_run_def\<close>)
  obtain k' where k': "k' \<le> length (ch_calls inst)" "tables (run j) = table_view (partly inst k' (kernel_of (run 0)))"
      "queue (run j) = drop k' (ch_calls inst) # waiting"
    using publishing_state [OF pub run(3,4) q] now by (auto simp: published_so_far_def)
  have "length (drop k' (ch_calls inst)) = length (drop k (ch_calls inst))" using k'(3) now by simp
  then have "k' = k" using k'(1) i(3) by simp
  then have tab: "tables (run j) = table_view (partly inst k (kernel_of (run 0)))" using k'(2) by simp
  have one: "one_publication (run j)" by (rule run_one_publication [OF run(1,3,4)])
  have "concurrent_step h (run j) (run (Suc j))" using run(1) by (simp add: system_run_def)
  from concurrent_step_queue [OF this] obtain st st' where st: "table_view st = tables (run j)"
      "publish_next (queue (run j), st) = (queue (run (Suc j)), st')" "tables (run (Suc j)) = table_view st'"
    using one now same j(3) by (auto simp: one_publication_def)
  have "if k < length (ch_calls inst) then copied_upto h inst waiting (run 0) (Suc k) (run (Suc j)) else queue (run (Suc j)) = waiting"
  proof (cases "k < length (ch_calls inst)")
    case True
    have "drop k (ch_calls inst) = ch_calls inst ! k # drop (Suc k) (ch_calls inst)"
      by (rule Cons_nth_drop_Suc [OF True, symmetric])
    then show ?thesis using st now tab True pub' next_call [OF q(2) True, of st "kernel_of (run 0)"]
      by (auto simp: copied_upto_def split_beta Let_def)
  qed (use st now in auto)
  then show ?thesis using that [of "Suc j"] j(1) pub' by simp
qed

lemma fair_copy:
  assumes run: "system_run h run" "publisher_fair run" "host_ok h" "one_publication (run 0)"
    and q: "queue (run 0) = ch_calls inst # waiting" "fits_tables inst"
    and k: "k \<le> length (ch_calls inst)"
  shows "\<exists>i. copied_upto h inst waiting (run 0) k (run i) \<and> (\<forall>k' \<ge> k. k' \<le> length (ch_calls inst) \<longrightarrow>
    (\<exists>j \<ge> i. copied_upto h inst waiting (run 0) k' (run j)))"
proof -
  have more: "\<exists>j \<ge> i. copied_upto h inst waiting (run 0) k' (run j)"
    if "k \<le> k'" "k' \<le> length (ch_calls inst)" "copied_upto h inst waiting (run 0) k (run i)" for i k k'
    using that
  proof (induction k' rule: dec_induct)
    case base
    then show ?case by blast
  next
    case (step m)
    then obtain j where j: "j \<ge> i" "copied_upto h inst waiting (run 0) m (run j)" by auto
    obtain j' where "j < j'" "copied_upto h inst waiting (run 0) (Suc m) (run j')"
      by (rule fair_call [OF run q, of j m]) (use j(2) step.prems in \<open>auto simp: copied_upto_def\<close>)
    then show ?case using j(1) by (intro exI [of _ j']) simp
  qed
  have "partly inst 0 (kernel_of (run 0)) = kernel_of (run 0)" by (simp add: partly_def)
  then have "copied_upto h inst waiting (run 0) 0 (run 0)"
    by (simp add: copied_upto_def q(1) tables_kernel pub_start)
  then show ?thesis using more [of 0 k 0] more k by blast
qed

subsection \<open>There are such runs\<close>

lemma publish_next_changes: "publish_next (ws, st) = (ws', st') \<Longrightarrow> ws \<noteq> [] \<Longrightarrow> ws' \<noteq> ws"
  using publish_next_less [of ws st] by auto

lemma fair_run_exists:
  assumes "host_ok h" "one_publication s"
  obtains run where "run 0 = s" "system_run h run" "publisher_fair run"
proof -
  have "\<exists>t. one_publication t \<and> concurrent_step h s t \<and> (queue s \<noteq> [] \<longrightarrow> queue t \<noteq> queue s)" if one: "one_publication s" for s
  proof (cases "queue s = []")
    case True
    obtain m d r ws where s: "s = (m, d, r, ws)" by (metis prod.exhaust)
    have "dataplane_ok d" using one by (simp add: one_publication_def concurrent_ok_def s)
    from dataplane_packet [OF this, of undefined "[]"] obtain st where "xdp_step (kernel d) st" by (auto intro: xdp_step.intros)
    from con_packet [OF this] show ?thesis using True one_publication_step [OF _ assms(1) one] s by blast
  next
    case False
    then show ?thesis using publication_goes_on [OF one False, of h] one_publication_step [OF _ assms(1) one] publish_next_changes
      by metis
  qed
  then obtain run where run: "run 0 = s" "\<And>i. one_publication (run i)"
      "\<And>i. concurrent_step h (run i) (run (Suc i)) \<and> (queue (run i) \<noteq> [] \<longrightarrow> queue (run (Suc i)) \<noteq> queue (run i))"
    using dependent_nat_choice [of "\<lambda>n t. one_publication t \<and> (n = 0 \<longrightarrow> t = s)"
        "\<lambda>n t u. concurrent_step h t u \<and> (queue t \<noteq> [] \<longrightarrow> queue u \<noteq> queue t)"] assms(2)
    by (metis nat.distinct(1))
  show ?thesis by (rule that [of run]) (use run in \<open>auto simp: system_run_def publisher_fair_def\<close>)
qed

end
