(* ===== verification/Publication_Properties.thy ===== *)
theory Publication_Properties
  imports Ch_Reload Ch_Liveness System_Properties
begin

section \<open>Properties of the consistent-hash tables in the kernel\<close>

text \<open>
  A change of a consistent-hash service copies its new table over the old one, a call for every
  number, backend and slot, while packets are processed. Whoever makes the calls, a reload or the
  maintenance thread, they are the head of \<open>queue\<close>; the properties hold for a state of the system
  in which this is the whole copy of \<open>inst'\<close>, over the tables of \<open>inst\<close>.
\<close>

lemma reachable_one: "concurrent_reachable h s \<Longrightarrow> host_ok h \<Longrightarrow> one_publication s"
  using concurrent_reachable_inv [of h s] concurrent_reachable_lock [of h] unfolding one_publication_def
  by (cases s) auto

lemma reachable_fits:
  assumes "ch_reachable default_instance_config inst" "length (m_backends inst) \<le> MAX_CH_BACKENDS"
  shows "fits_tables inst"
  using assms reachable_default [OF assms(1)] default_ring_inst [OF assms(1)]
  by (simp add: fits_tables_def HASHRING_SMALL_def max_defs)

lemma replaced_picks:
  assumes old: "ch_reachable default_instance_config inst" "m_backends inst \<noteq> []" "length (m_backends inst) \<le> MAX_CH_BACKENDS"
    and new: "ch_reachable default_instance_config inst'" "m_backends inst' \<noteq> []" "length (m_backends inst') \<le> MAX_CH_BACKENDS"
    and pub: "published inst (kernel_of s)" and t: "tables t = table_view (partly inst' k (kernel_of s))"
  obtains i i' where "i < length (m_backends inst)" "lookupCurr h inst = Some (int i)"
    "i' < length (m_backends inst')" "lookupCurr h inst' = Some (int i')"
    "\<And>env key n l. fst (ch_balancer_handle env key h n l (kernel_of t)) =
       (let b = (if slot h inst + 2 + length (m_backends inst') < k then m_backends inst' ! i'
                 else if i < length (m_backends inst') \<and> i + 2 < k then m_backends inst' ! i
                 else m_backends inst ! i)
        in if active b = 0 then None else Some b)"
proof -
  have "m_config inst' = m_config inst" by (simp add: reachable_config [OF old(1)] reachable_config [OF new(1)])
  note picks = partly_picks [OF pub reachable_fits [OF old(1,3)] old(2) reachable_fits [OF new(1,3)] new(2) this, of h]
  obtain i i' where i: "i < length (m_backends inst)" "lookupCurr h inst = Some (int i)"
    "i' < length (m_backends inst')" "lookupCurr h inst' = Some (int i')"
    and handle: "\<And>env key n l k. fst (ch_balancer_handle env key h n l (partly inst' k (kernel_of s))) =
       (let b = (if slot h inst + 2 + length (m_backends inst') < k then m_backends inst' ! i'
                 else if i < length (m_backends inst') \<and> i + 2 < k then m_backends inst' ! i
                 else m_backends inst ! i)
        in if active b = 0 then None else Some b)"
    by (rule picks) blast
  show ?thesis
    by (rule that [OF i]) (subst pick_tables [OF t [unfolded tables_kernel]], rule handle)
qed

text \<open>A service with one backend gets a second one in front of it.\<close>

lemma demo_replacement:
  obtains inst inst' s where "ch_reachable default_instance_config inst" "m_backends inst = [demo_backend 1]"
    "ch_reachable default_instance_config inst'" "m_backends inst' = [demo_backend 2, demo_backend 1]"
    "one_publication s" "queue s = [ch_calls inst']" "published inst (kernel_of s)"
    "\<exists>hash. lookupCurr hash inst' = Some 1"
proof -
  obtain inst where u1: "updateBackends [demo_backend 1] (new_instance default_instance_config) = Some inst"
    and reach: "ch_reachable default_instance_config inst" by (rule demo_instance)
  obtain inst' where u2: "updateBackends [demo_backend 2, demo_backend 1] inst = Some inst'"
    using updateBackends_defined [OF reachable_default [OF reach]] by blast
  have reach': "ch_reachable default_instance_config inst'" by (rule reach_step [OF reach step_update [OF u2]])
  note f1 = update_fields [OF reach_new _ u1] and f2 = update_fields [OF reach _ u2]
  have b: "m_backends inst = [demo_backend 1]" "m_backends inst' = [demo_backend 2, demo_backend 1]"
    using f1(1) f2(1) by simp_all
  have ok: "backend_ok (demo_backend n)" for n by (simp add: demo_backend_def backend_ok_def)
  have "ring inst \<le> MAX_CH_SLOTS" by (simp add: default_ring_inst [OF reach] HASHRING_SMALL_def max_defs)
  then obtain st where st: "publish True demo_key inst initial_maps = (True, st)" "published inst st"
    using publish_fits [of inst demo_key initial_maps] f1(7) b(1) by (auto simp: max_defs)
  let ?d = "(initial_dataplane True)\<lparr>kernel := st\<rparr>"
  have st': "st = snd (updateChBpfMaps True demo_key [demo_backend 1] (m_currLookup inst) (m_prevLookup inst)
      (hashring_size (m_config inst)) initial_maps)"
    using st(1) b(1) by (simp add: publish_def)
  have "sessions_ok initial_maps" using dataplane_ok_initial [of True] by (simp add: dataplane_ok_def initial_dataplane_def)
  then have "maps_ok st" "sessions_ok st"
    unfolding st' using ok by (simp_all add: updateChBpfMaps_ok maps_ok_initial updateChBpfMaps_sessions)
  then have "dataplane_ok ?d" using dataplane_ok_initial [of True] by (simp add: dataplane_ok_def)
  moreover have "pubs_ok [ch_calls inst']" using ok b(2) by (simp add: ch_calls_def ch_writes_ok)
  ultimately have one: "one_publication (\<lparr>m_currConfig = None\<rparr>, ?d, None, [ch_calls inst'])"
    by (simp add: one_publication_def concurrent_ok_def reload_holds_def)
  have "card (slots_of (m_currLookup inst') HASHRING_SMALL 1) \<noteq> 0"
    using f2(6) [unfolded full_table_def] by (simp add: HASHRING_SMALL_def numeral_2_eq_2 [symmetric])
  then obtain p where p: "p < HASHRING_SMALL" "m_currLookup inst' ! p = 1"
    by (auto simp: slots_of_def card_eq_0_iff)
  have "slot (of_nat p) inst' = p" using p(1) f2(5) default_ring
    by (simp add: slot_def unat_word_ariths unat_of_nat HASHRING_SMALL_def)
  then have "lookupCurr (of_nat p) inst' = Some 1" using p(2) b(2) by (simp add: lookupCurr_def to_opt_def)
  then show ?thesis by (intro that [OF reach b(1) reach' b(2) one]) (auto simp: queue_def kernel_of_def st(2))
qed

text \<open>
  C10. While a consistent-hash table is replaced, a packet goes to one of three servers: the one
  the old table gives to its hash, the one the new table gives, or the one that has in the new list
  the number that the old table gives. When the copy is over it is the new one for every hash.
\<close>

theorem ch_replaced_among_packets:
  assumes "host_ok h" "one_publication s" "queue s = ch_calls inst' # waiting" "publishing h s t"
    and "ch_reachable default_instance_config inst" "m_backends inst \<noteq> []" "length (m_backends inst) \<le> MAX_CH_BACKENDS"
    and "ch_reachable default_instance_config inst'" "m_backends inst' \<noteq> []" "length (m_backends inst') \<le> MAX_CH_BACKENDS"
    and "published inst (kernel_of s)"
  shows "\<exists>i < length (m_backends inst). \<exists>i' < length (m_backends inst').
    lookupCurr hash inst = Some (int i) \<and> lookupCurr hash inst' = Some (int i')
    \<and> (\<forall>env key n l b. fst (ch_balancer_handle env key hash n l (kernel_of t)) = Some b \<longrightarrow>
         active b \<noteq> 0
         \<and> (b = m_backends inst ! i \<or> i < length (m_backends inst') \<and> b = m_backends inst' ! i \<or> b = m_backends inst' ! i'))
    \<and> (queue t = waiting \<longrightarrow>
         (\<forall>env key n l. fst (ch_balancer_handle env key hash n l (kernel_of t)) =
            (if active (m_backends inst' ! i') = 0 then None else Some (m_backends inst' ! i'))))"
proof -
  obtain k where k: "k \<le> length (ch_calls inst')" "tables t = table_view (partly inst' k (kernel_of s))"
      "queue t = waiting \<Longrightarrow> k = length (ch_calls inst')"
    using publishing_state [OF assms(4,1,2,3) reachable_fits [OF assms(8,10)]] by (auto simp: published_so_far_def)
  obtain i i' where i: "i < length (m_backends inst)" "lookupCurr hash inst = Some (int i)"
    "i' < length (m_backends inst')" "lookupCurr hash inst' = Some (int i')"
    "\<And>env key n l. fst (ch_balancer_handle env key hash n l (kernel_of t)) =
       (let b = (if slot hash inst + 2 + length (m_backends inst') < k then m_backends inst' ! i'
                 else if i < length (m_backends inst') \<and> i + 2 < k then m_backends inst' ! i
                 else m_backends inst ! i)
        in if active b = 0 then None else Some b)"
    by (rule replaced_picks [OF assms(5-11) k(2), of hash]) blast
  have "slot hash inst < ring inst'"
    using slot_less [OF reachable_default [OF assms(5)], of hash] default_ring_inst [OF assms(5)] default_ring_inst [OF assms(8)]
    by simp
  then have "slot hash inst + 2 + length (m_backends inst') < k" if "queue t = waiting"
    using k(3) [OF that] ch_calls_length [OF reachable_default [OF assms(8)]] by simp
  with i show ?thesis by (auto simp: Let_def split: if_splits)
qed

lemma ch_replaced_among_packets_witness:
  "\<exists>inst inst' s b. m_backends inst = [demo_backend 1] \<and> m_backends inst' = [demo_backend 2, demo_backend 1]
     \<and> queue s = [ch_calls inst'] \<and> published inst (kernel_of s)
     \<and> fst (ch_balancer_handle (demo_env 0) demo_key 7 60 0 (kernel_of s)) = Some b
     \<and> (b = demo_backend 1 \<or> b = demo_backend 2)"
proof -
  obtain inst inst' s where inst: "ch_reachable default_instance_config inst" "m_backends inst = [demo_backend 1]"
    "ch_reachable default_instance_config inst'" "m_backends inst' = [demo_backend 2, demo_backend 1]"
    "one_publication s" "queue s = [ch_calls inst']" "published inst (kernel_of s)"
    by (rule demo_replacement)
  have ne: "m_backends inst \<noteq> []" "length (m_backends inst) \<le> MAX_CH_BACKENDS"
    "m_backends inst' \<noteq> []" "length (m_backends inst') \<le> MAX_CH_BACKENDS"
    using inst(2,4) by (simp_all add: max_defs)
  have "partly inst' 0 (kernel_of s) = kernel_of s" by (simp add: partly_def)
  then have at: "tables s = table_view (partly inst' 0 (kernel_of s))" by (simp add: tables_kernel)
  obtain b where b: "fst (ch_balancer_handle (demo_env 0) demo_key 7 60 0 (kernel_of s)) = Some b"
  proof (rule replaced_picks [OF inst(1) ne(1,2) inst(3) ne(3,4) inst(7) at, of 7])
    fix i i' assume "i < length (m_backends inst)"
      "\<And>env key n l. fst (ch_balancer_handle env key 7 n l (kernel_of s)) =
         (let b = (if slot 7 inst + 2 + length (m_backends inst') < 0 then m_backends inst' ! i'
                   else if i < length (m_backends inst') \<and> i + 2 < 0 then m_backends inst' ! i
                   else m_backends inst ! i)
          in if active b = 0 then None else Some b)"
    then show thesis using that inst(2) by (simp add: demo_backend_def)
  qed
  obtain i i' where "i < length (m_backends inst)" "i' < length (m_backends inst')"
      "b = m_backends inst ! i \<or> i < length (m_backends inst') \<and> b = m_backends inst' ! i \<or> b = m_backends inst' ! i'"
    using ch_replaced_among_packets [OF demo_host_ok(1) inst(5,6) pub_start inst(1) ne(1,2) inst(3) ne(3,4) inst(7), of 7] b
    by metis
  then have "b = demo_backend 1 \<or> b = demo_backend 2" using inst(2,4) by (auto simp: less_Suc_eq)
  then show ?thesis using inst b by blast
qed

text \<open>
  C21. Every copy of a table comes to its end, unless the thread that makes it is passed over for
  ever. In every such run, whatever packets, commands and other calls come in between, there is a
  moment before at which all backends are copied and no slot is: then every hash goes to the server
  that has in the new list the number that the old table gives, if there is one. At the end
  every hash goes by the new table (\<open>ch_replaced_among_packets\<close>). Such runs exist.
\<close>

theorem ch_replacement_window:
  assumes "host_ok h" "one_publication s" "queue s = ch_calls inst' # waiting"
    and "ch_reachable default_instance_config inst" "m_backends inst \<noteq> []" "length (m_backends inst) \<le> MAX_CH_BACKENDS"
    and "ch_reachable default_instance_config inst'" "m_backends inst' \<noteq> []" "length (m_backends inst') \<le> MAX_CH_BACKENDS"
    and "published inst (kernel_of s)"
  shows "(\<forall>run. run 0 = s \<and> system_run h run \<and> publisher_fair run \<longrightarrow>
      (\<exists>j k. j \<le> k \<and> publishing h s (run j) \<and> publishing h s (run k) \<and> queue (run k) = waiting
        \<and> (\<forall>hash env key n l. \<exists>i < length (m_backends inst). lookupCurr hash inst = Some (int i)
            \<and> (i < length (m_backends inst') \<longrightarrow>
                 fst (ch_balancer_handle env key hash n l (kernel_of (run j))) =
                   (if active (m_backends inst' ! i) = 0 then None else Some (m_backends inst' ! i))))))
    \<and> (\<exists>run. run 0 = s \<and> system_run h run \<and> publisher_fair run)"
proof -
  have fits: "fits_tables inst'" by (rule reachable_fits [OF assms(7,9)])
  let ?k = "2 + length (m_backends inst')"
  have len: "?k \<le> length (ch_calls inst')" using ch_calls_length [OF reachable_default [OF assms(7)]] by simp
  have "\<exists>j k. j \<le> k \<and> publishing h s (run j) \<and> publishing h s (run k) \<and> queue (run k) = waiting
        \<and> (\<forall>hash env key n l. \<exists>i < length (m_backends inst). lookupCurr hash inst = Some (int i)
            \<and> (i < length (m_backends inst') \<longrightarrow>
                 fst (ch_balancer_handle env key hash n l (kernel_of (run j))) =
                   (if active (m_backends inst' ! i) = 0 then None else Some (m_backends inst' ! i))))"
    if r: "run 0 = s" "system_run h run" "publisher_fair run" for run
  proof -
    note start = assms(2,3) [folded r(1)]
    obtain j j' where j: "copied_upto h inst' waiting s ?k (run j)" "j \<le> j'" "copied_upto h inst' waiting s (length (ch_calls inst')) (run j')"
      using fair_copy [OF r(2,3) assms(1) start fits len] r(1) len by blast
    obtain k where k: "j' < k" "publishing h (run 0) (run k)" "queue (run k) = waiting"
      by (rule fair_call [OF r(2,3) assms(1) start fits, of j' "length (ch_calls inst')"])
        (use j(3) r(1) in \<open>simp_all add: copied_upto_def\<close>)
    have picks: "\<exists>i < length (m_backends inst). lookupCurr hash inst = Some (int i)
            \<and> (i < length (m_backends inst') \<longrightarrow>
                 fst (ch_balancer_handle env key hash n l (kernel_of (run j))) =
                   (if active (m_backends inst' ! i) = 0 then None else Some (m_backends inst' ! i)))" for hash env key n l
      by (rule replaced_picks [OF assms(4-10), of "run j" ?k hash]) (use j(1) in \<open>auto simp: copied_upto_def Let_def\<close>)
    have "j \<le> k" "publishing h s (run j)" "publishing h s (run k)"
      using j(1,2) k(1,2) r(1) by (simp_all add: copied_upto_def)
    then show ?thesis using k(3) picks by blast
  qed
  moreover have "\<exists>run. run 0 = s \<and> system_run h run \<and> publisher_fair run"
    by (rule fair_run_exists [OF assms(1,2)]) blast
  ultimately show ?thesis by blast
qed

lemma ch_replacement_window_witness:
  "\<exists>inst inst' s t hash. m_backends inst = [demo_backend 1] \<and> m_backends inst' = [demo_backend 2, demo_backend 1]
     \<and> published inst (kernel_of s) \<and> queue s = [ch_calls inst'] \<and> publishing demo_host s t
     \<and> lookupCurr hash inst = Some 0 \<and> lookupCurr hash inst' = Some 1
     \<and> fst (ch_balancer_handle (demo_env 0) demo_key hash 60 0 (kernel_of t)) = Some (demo_backend 2)"
proof -
  obtain inst inst' s where inst: "ch_reachable default_instance_config inst" "m_backends inst = [demo_backend 1]"
    "ch_reachable default_instance_config inst'" "m_backends inst' = [demo_backend 2, demo_backend 1]"
    "one_publication s" "queue s = [ch_calls inst']" "published inst (kernel_of s)"
    and hash: "\<exists>hash. lookupCurr hash inst' = Some 1"
    by (rule demo_replacement)
  obtain hash where hash: "lookupCurr hash inst' = Some 1" using hash by blast
  have ne: "m_backends inst \<noteq> []" "length (m_backends inst) \<le> MAX_CH_BACKENDS"
    "m_backends inst' \<noteq> []" "length (m_backends inst') \<le> MAX_CH_BACKENDS"
    using inst(2,4) by (simp_all add: max_defs)
  note window = ch_replacement_window [OF demo_host_ok(1) inst(5,6,1) ne(1,2) inst(3) ne(3,4) inst(7)]
  then obtain run where run: "run 0 = s" "system_run demo_host run" "publisher_fair run" by blast
  obtain t where t: "publishing demo_host s t"
      "\<forall>hash env key n l. \<exists>i < length (m_backends inst). lookupCurr hash inst = Some (int i)
          \<and> (i < length (m_backends inst') \<longrightarrow>
               fst (ch_balancer_handle env key hash n l (kernel_of t)) =
                 (if active (m_backends inst' ! i) = 0 then None else Some (m_backends inst' ! i)))"
    using window [THEN conjunct1, rule_format, of run] run by blast
  from t(2) have "lookupCurr hash inst = Some 0
      \<and> fst (ch_balancer_handle (demo_env 0) demo_key hash 60 0 (kernel_of t)) = Some (demo_backend 2)"
    using inst(2,4) by (fastforce simp: demo_backend_def)
  then show ?thesis using inst hash t(1) by blast
qed

subsection \<open>After a reload\<close>

text \<open>
  C9. A reload leaves the data path with the table of one consistent-hash service, the last one of
  the configuration that has servers, and every new TCP flow of every consistent-hash service goes
  by it: to the server that the hash of the flow selects in this complete table, which belongs to
  that last service. With one such service this is what the reload is for; with several, the flows
  of the others go to servers that are not theirs. (As in \<open>reload_installs\<close>, everything resolves,
  there is room and the bytes behind the new index are zero.)
\<close>

theorem reload_ch_flows:
  assumes "concurrent_reachable h (m, d, None, [])" "host_ok h" "rest_of_index h = 0" "maps_opened d"
    and "fits h config d" "length (rr_index (kernel d)) + length (services config) \<le> MAX_SERVICES"
    and "services config = pre @ s # post" "srv_type s = CH"
    and "collect_ch_backends h (config_backends h (services config)) (reals s) = cs" "cs \<noteq> []" "length cs \<le> MAX_CH_BACKENDS"
    and "\<forall>t \<in> set post. srv_type t \<noteq> CH \<or> collect_ch_backends h (config_backends h (services config)) (reals t) = []"
  shows "\<exists>inst. m_backends inst = cs \<and> full_table HASHRING_SMALL (length cs) (m_currLookup inst)
    \<and> (\<forall>b \<in> set cs. \<exists>r \<in> set (reals s). enabled r \<and> matches_real h r b)
    \<and> (\<forall>t \<in> set (services config). \<forall>env sk tcp len. srv_type t = CH \<longrightarrow> pure_syn tcp \<longrightarrow>
         (\<exists>i < length cs. lookupCurr (ch_hash sk) inst = Some (int i)
            \<and> fst (find_tcp_backend env sk (the_key h t) tcp len (kernel (snd (ReloadConfig h config d)))) =
                (if active (cs ! i) = 0 then None else Some (cs ! i))))"
proof -
  let ?st = "kernel (snd (ReloadConfig h config d))"
  note ok = concurrent_reachable_start [OF assms(1-3)]
  have default: "default_entries (m_chManager d)" using reachable_default_entries [OF assms(1)] by simp
  obtain inst where inst: "m_backends inst = cs" "m_config inst = default_instance_config" "instance_ok inst" "published inst ?st"
    by (rule reload_publishes [OF ok(1) assms(4) ok(2) assms(2,3) default assms(5-12)])
  have full: "full_table HASHRING_SMALL (length cs) (m_currLookup inst)"
    using inst assms(10) default_ring by (simp add: instance_ok_def tables_ok_def ring_def HASHRING_SMALL_def)
  have idx: "standby d = 0 \<or> standby d = 1" and maps: "maps_ok (kernel d)" using ok by (auto simp: index_ok_def dataplane_ok_def)
  note serves = ReloadConfig_installs(1) [OF assms(4) maps idx assms(3,5)]
  have ne: "m_backends inst \<noteq> []" "length (m_backends inst) \<le> MAX_CH_BACKENDS" using inst(1) assms(10,11) by simp_all
  have "\<exists>i < length cs. lookupCurr (ch_hash sk) inst = Some (int i)
          \<and> fst (find_tcp_backend env sk (the_key h t) tcp len ?st) = (if active (cs ! i) = 0 then None else Some (cs ! i))"
    if t: "t \<in> set (services config)" "srv_type t = CH" "pure_syn tcp" for t env sk tcp len
  proof -
    obtain j where j: "j < length (services config)" "t = services config ! j" using t(1) by (auto simp: in_set_conv_nth)
    then have look: "hash_lookup (services_map ?st (atomic_index ?st 0)) (the_key h t)
        = Some (prepare_info t (service_start (services config) j) j)"
      using serves by (simp add: serves_def)
    show ?thesis
      by (rule published_first_packet [OF inst(4,3,2) ne look _ t(3), of sk env len])
        (auto simp: t(2) inst(1) prepare_info_def algorithm_number_def balancer_alg_defs)
  qed
  moreover have "\<forall>b \<in> set cs. \<exists>r \<in> set (reals s). enabled r \<and> matches_real h r b"
    using collect_ch_backends_real unfolding assms(9) [symmetric] by blast
  ultimately show ?thesis using inst(1) full by (intro exI [of _ inst]) blast
qed

text \<open>Two services with one server each: the flows of the first go to the server of the second.\<close>

definition demo_ch_config :: base_config where
  "demo_ch_config = \<lparr>services = [demo_service4\<lparr>srv_type := CH\<rparr>,
     demo_service4\<lparr>srv_type := CH, srv_port := 81,
       reals := [\<lparr>real_ip = ''10.0.0.1'', enabled = True, real_weight = 1, real_ip_version = 4, real_port = 80\<rparr>]\<rparr>],
     ddosConf = None\<rparr>"

lemma demo_ch_fits: "fits demo_host demo_ch_config (initial_dataplane True)"
  by (simp add: fits_def demo_ch_config_def standby_services_def standby_def initial_dataplane_def initial_maps_def
      config_backends_def service_backends_def max_defs resolves_def demo_service4_def demo_host_def prepare_key_def
      prepare_backend_def lookup_mac_def the_key_def protocol_number_def bytes32_def)

lemma demo_ch_backends:
  "\<exists>b. collect_ch_backends demo_host (config_backends demo_host (services demo_ch_config)) (reals (services demo_ch_config ! 1)) = [b]
     \<and> be_ipv4 b = 0x0100000A \<and> active b \<noteq> 0"
  by (simp add: demo_ch_config_def config_backends_def service_backends_def the_backend_def prepare_backend_def lookup_mac_def
      demo_service4_def demo_host_def matches_real_def be_ipv4_def bytes32_def)

lemma reload_ch_flows_witness:
  "\<exists>b. fst (find_tcp_backend (demo_env 0) demo_session (the_key demo_host (services demo_ch_config ! 0)) (demo_flags True False) 54
       (kernel (snd (ReloadConfig demo_host demo_ch_config (initial_dataplane True))))) = Some b
     \<and> \<not> (\<exists>r \<in> set (reals (services demo_ch_config ! 0)). matches_real demo_host r b)"
proof -
  obtain b where b: "collect_ch_backends demo_host (config_backends demo_host (services demo_ch_config))
      (reals (services demo_ch_config ! 1)) = [b]" "be_ipv4 b = 0x0100000A" "active b \<noteq> 0"
    using demo_ch_backends by blast
  have ss: "services demo_ch_config = [services demo_ch_config ! 0] @ services demo_ch_config ! 1 # []"
    by (simp add: demo_ch_config_def)
  have new: "pure_syn (demo_flags True False)" by (simp add: demo_flags_def pure_syn_def)
  have "\<exists>inst. m_backends inst = [b] \<and> full_table HASHRING_SMALL (length [b]) (m_currLookup inst)
    \<and> (\<forall>c \<in> set [b]. \<exists>r \<in> set (reals (services demo_ch_config ! 1)). enabled r \<and> matches_real demo_host r c)
    \<and> (\<forall>t \<in> set (services demo_ch_config). \<forall>env sk tcp len. srv_type t = CH \<longrightarrow> pure_syn tcp \<longrightarrow>
         (\<exists>i < length [b]. lookupCurr (ch_hash sk) inst = Some (int i)
            \<and> fst (find_tcp_backend env sk (the_key demo_host t) tcp len
                 (kernel (snd (ReloadConfig demo_host demo_ch_config (initial_dataplane True))))) =
                (if active ([b] ! i) = 0 then None else Some ([b] ! i))))"
    by (rule reload_ch_flows [OF con_start demo_host_ok demo_start(1) demo_ch_fits _ ss _ b(1)])
      (simp_all add: demo_ch_config_def initial_dataplane_def initial_maps_def max_defs)
  moreover have "services demo_ch_config ! 0 \<in> set (services demo_ch_config)" "srv_type (services demo_ch_config ! 0) = CH"
    by (simp_all add: demo_ch_config_def)
  ultimately have "fst (find_tcp_backend (demo_env 0) demo_session (the_key demo_host (services demo_ch_config ! 0)) (demo_flags True False) 54
      (kernel (snd (ReloadConfig demo_host demo_ch_config (initial_dataplane True))))) = Some b"
    using new b(3) by fastforce
  moreover have "\<not> matches_real demo_host r b" if "r \<in> set (reals (services demo_ch_config ! 0))" for r
    using that b(2) by (simp add: demo_ch_config_def demo_service4_def matches_real_def demo_host_def)
  ultimately show ?thesis by blast
qed

end
