(* ===== verification/Dataplane_Properties.thy ===== *)
theory Dataplane_Properties
  imports Example_State Scheduler_Fairness
begin

section \<open>Properties of the XDP program\<close>

subsection \<open>The program as a whole\<close>

text \<open>
  On every byte sequence, at every reachable state of the maps, the program runs to a
  verdict without an access outside the packet; the verdict is pass, drop or transmit, the
  packet keeps its length and is unchanged unless it is transmitted, and the invariants of the
  maps are kept.
\<close>

theorem xdp_memory_safe:
  assumes "maps_ok st" and "sessions_ok st"
  shows "\<exists>v p' st'. balancer_handler env p st = Some (v, p', st') \<and> v \<in> {XDP_PASS, XDP_DROP, XDP_TX}
    \<and> length p' = length p \<and> (v \<noteq> XDP_TX \<longrightarrow> p' = p) \<and> maps_ok st' \<and> sessions_ok st'"
proof -
  have post: "xdp_post st p (balancer_handler env p st)" using assms by (rule balancer_handler_post)
  then obtain v p' st' where run: "balancer_handler env p st = Some (v, p', st')"
    by (auto simp: xdp_post_def split: option.splits)
  have "length p' = length p" if "well_forwarded st p p'"
    using that configured_ok [OF assms(1)] by (auto simp: well_forwarded_def v6_rewritten_def l2_forwarded_def backend_ok_def
        load16_def load_def split: if_splits)
  then show ?thesis using post run by (auto simp: xdp_post_def)
qed

lemma xdp_memory_safe_witness:
  "\<exists>v p' st'. balancer_handler (demo_env 0) (demo_packet 2) (demo_maps BALANCER_RR) = Some (v, p', st')
    \<and> v \<in> {XDP_PASS, XDP_DROP, XDP_TX} \<and> length p' = length (demo_packet 2)
    \<and> (v \<noteq> XDP_TX \<longrightarrow> p' = demo_packet 2) \<and> maps_ok st' \<and> sessions_ok st'"
  by (rule xdp_memory_safe [OF demo_maps_ok demo_sessions_ok])

text \<open>
  C6. A transmitted packet is the received one with the Ethernet header rewritten for a backend of
  the configuration: IPv4 packets change in the two MAC addresses only, IPv6 packets also in
  destination address, destination port and checksum. (The README has it that only the destination
  MAC address is rewritten, for IPv6 as for IPv4.)
\<close>

theorem xdp_forwards:
  assumes "maps_ok st" and "sessions_ok st" and "balancer_handler env p st = Some (XDP_TX, p', st')"
  shows "well_forwarded st p p'"
  using balancer_handler_post [OF assms(1,2), of p env] assms(3) by (simp add: xdp_post_def)

lemma xdp_forwards_witness:
  "\<exists>p' st'. balancer_handler (demo_env 0) (demo_packet 2) (demo_maps BALANCER_RR) = Some (XDP_TX, p', st')
     \<and> well_forwarded (demo_maps BALANCER_RR) (demo_packet 2) p'"
proof -
  obtain st' where run: "balancer_handler (demo_env 0) (demo_packet 2) (demo_maps BALANCER_RR) =
       Some (XDP_TX, [2, 0, 0, 0, 0, 2, 2, 0, 0, 0, 0, 0xAA] @ drop 12 (demo_packet 2), st')"
    by (rule demo_syn_transmitted)
  show ?thesis using run xdp_forwards [OF demo_maps_ok demo_sessions_ok run] by blast
qed

text \<open>
  C23. An IPv6 TCP packet leaves with the checksum its new address and port call for (the ones'
  complement sum with address, port and checksum is unchanged), except when the port
  replacement meets the one value at which \<open>csum_replace16\<close> is off by one.
\<close>

theorem tcp_v6_checksum:
  assumes ok: "maps_ok st" "sessions_ok st" and tx: "balancer_handler env p st = Some (XDP_TX, p', st')"
    and v6: "load16 p 12 = Some (bswap16 ETH_P_IPV6)" "load8 p 20 = Some IPPROTO_TCP"
    and old: "load16 p 70 = Some check" "load p 38 16 = Some daddr" "load16 p 56 = Some dport"
    and new: "load16 p' 70 = Some check'" "load p' 38 16 = Some daddr'" "load16 p' 56 = Some dport'"
    and safe: "unat dport' \<noteq> unat (csum_replace_ipv6 check daddr daddr') + unat dport + 1"
  shows "(unat check' + (addr_sum daddr' + unat dport')) mod 65535 =
    (unat check + (addr_sum daddr + unat dport)) mod 65535"
proof -
  have "IPPROTO_TCP \<noteq> IPPROTO_UDP" "bswap16 ETH_P_IP \<noteq> bswap16 ETH_P_IPV6"
    by (simp_all add: IPPROTO_TCP_def IPPROTO_UDP_def ETH_P_IP_def ETH_P_IPV6_def bswap16_def)
  then obtain b where "v6_rewritten update_tcp_checksum_v6 70 b p p'"
    using balancer_handler_post [OF ok, of p env] tx v6 by (auto simp: xdp_post_def well_forwarded_def)
  then have "check' = update_tcp_checksum_v6 check daddr daddr' dport dport'"
    using old new by (simp add: v6_rewritten_def)
  then show ?thesis using update_tcp_checksum_v6_correct [OF safe] by simp
qed

lemma tcp_v6_checksum_witness:
  "\<exists>p' st' c. balancer_handler (demo_env 0) demo6_packet demo6_maps = Some (XDP_TX, p', st')
     \<and> load16 p' 70 = Some c
     \<and> (unat c + (addr_sum [0, 0, 0, 0, 0, 0, 0, 0, 0, 0, 0, 0, 0, 0, 0, 2] + unat (0x5000 :: u16))) mod 65535 =
        (unat (0x3412 :: u16) + (addr_sum [0xFD, 0, 0, 0, 0, 0, 0, 0, 0, 0, 0, 0, 0, 0, 0, 1]
          + unat (0x5000 :: u16))) mod 65535"
proof -
  obtain p' st' c where run: "balancer_handler (demo_env 0) demo6_packet demo6_maps = Some (XDP_TX, p', st')"
    and new: "load16 p' 70 = Some c"
    "load p' 38 16 = Some [0, 0, 0, 0, 0, 0, 0, 0, 0, 0, 0, 0, 0, 0, 0, 2]" "load16 p' 56 = Some 0x5000"
    by (rule demo6_syn_transmitted)
  have old: "load16 demo6_packet 12 = Some (bswap16 ETH_P_IPV6)" "load8 demo6_packet 20 = Some IPPROTO_TCP"
      "load16 demo6_packet 70 = Some 0x3412"
      "load demo6_packet 38 16 = Some [0xFD, 0, 0, 0, 0, 0, 0, 0, 0, 0, 0, 0, 0, 0, 0, 1]"
      "load16 demo6_packet 56 = Some 0x5000"
    by (simp_all add: demo6_packet_def load16_def load8_def load_def bswap16_def ETH_P_IPV6_def IPPROTO_TCP_def)
  show ?thesis
    using run new(1) tcp_v6_checksum [OF demo6_maps_ok run old new] by simp
qed

subsection \<open>Sessions\<close>

text \<open>
  C2. A SYN that gets a backend from a round-robin or weighted service, with room in the session
  table, binds its flow: whatever packets of other flows come in between, every later packet of
  the flow goes to the same backend, as long as the flow does not start again, close, or pause
  for longer than the timeout.
\<close>

theorem flow_keeps_backend:
  assumes ok: "maps_ok st" "sessions_ok st" and syn: "pure_syn tcp"
    and f: "find_tcp_backend env sk key tcp len st = (Some b, st1)"
    and info: "hash_lookup (services_map st (atomic_index st 0)) key = Some info"
      "algorithm info \<noteq> BALANCER_CH"
    and room: "length (tcp_session_state st) < MAX_SESSIONS"
    and as: "steady sk (ktime_new env) as" "run_tcp as st1 = (rs, st2)"
    and k: "k < length as" "ar_session (as ! k) = sk"
  shows "rs ! k = Some b"
proof -
  obtain info' i where s: "hash_lookup (services_map st (atomic_index st 0)) key = Some info'"
      "unat i < MAX_BACKENDS"
      "b = (if algorithm info' = BALANCER_CH then ch_backends st (unat i)
            else backends_map st (atomic_index st 0) (unat i))"
      "hash_lookup (tcp_session_state st) sk \<noteq> None \<or> length (tcp_session_state st) < MAX_SESSIONS \<longrightarrow>
       hash_lookup (tcp_session_state st1) sk =
         Some \<lparr>ss_backend_idx = i, ss_service_idx = service_idx info', created = ktime_new env,
               timeout = TCP_STATE_TIMEOUT\<rparr>"
    by (rule find_tcp_backend_syn [OF ok syn f])
  have i: "unat i < MAX_BACKENDS" "b = backends_map st (atomic_index st 0) (unat i)"
      "hash_lookup (tcp_session_state st1) sk =
         Some \<lparr>ss_backend_idx = i, ss_service_idx = service_idx info, created = ktime_new env,
               timeout = TCP_STATE_TIMEOUT\<rparr>"
    using s info room by simp_all
  have step: "maps_ok st1" "sessions_ok st1" and fr: "data_frame st st1"
    using find_tcp_backend_step [OF ok f] by simp_all
  have "backends_map st1 (atomic_index st1 0) = backends_map st (atomic_index st 0)"
    unfolding data_frame_maps(2) [OF fr] data_frame_fields(3) [OF fr] ..
  then show ?thesis using run_tcp_affinity [OF step i(3) _ _ as(2) k] as(1) i(2) by simp
qed

definition demo_later :: "tcp_arrival list" where
  "demo_later = [\<lparr>ar_env = demo_env 7, ar_session = demo_session, ar_key = demo_key,
     ar_tcp = demo_flags False True, ar_len = 60\<rparr>]"

lemma flow_keeps_backend_witness:
  "\<exists>st1. find_tcp_backend (demo_env 0) demo_session demo_key (demo_flags True False) 54 (demo_maps BALANCER_RR)
       = (Some (demo_backend 2), st1)
     \<and> fst (run_tcp demo_later st1) ! 0 = Some (demo_backend 2)"
proof -
  obtain st1 where st1: "find_tcp_backend (demo_env 0) demo_session demo_key (demo_flags True False) 54
      (demo_maps BALANCER_RR) = (Some (demo_backend 2), st1)"
    by (rule demo_first_syn)
  have "fst (run_tcp demo_later st1) ! 0 = Some (demo_backend 2)"
    by (rule flow_keeps_backend [OF demo_maps_ok demo_sessions_ok _ st1 _ _ _ _ prod.collapse [symmetric],
          where info = "demo_info BALANCER_RR"])
      (simp_all add: demo_eval demo_later_def balancer_alg_defs TCP_STATE_TIMEOUT_def)
  with st1 show ?thesis by blast
qed

text \<open>
  C7. The account of the connection counters: with room in the session table, the connections
  counted for a backend over all CPUs exceed its sessions by the same number before and after
  any TCP packet, except when a SYN replaces a session, which leaves one connection too many.
\<close>

theorem connection_account:
  assumes "maps_ok st" "sessions_ok st" and "cpu env < n"
    and "length (tcp_session_state st) < MAX_SESSIONS"
    and "find_tcp_backend env sk key tcp len st = (r, st')"
  shows "conn_total n st' i - of_nat (session_count st' i) =
    conn_total n st i - of_nat (session_count st i)
    + (case hash_lookup (tcp_session_state st) sk of
         None \<Rightarrow> 0
       | Some v \<Rightarrow> if pure_syn tcp \<and> r \<noteq> None \<and> unat (ss_backend_idx v) = i then 1 else 0)"
  using find_tcp_backend_balance [OF assms, of i]
  by (simp add: balance_def hit_def at_backend_def split: option.splits)

lemma connection_account_witness:
  "\<exists>st'. find_tcp_backend (demo_env 0) demo_session demo_key (demo_flags True False) 54 (demo_maps BALANCER_RR)
       = (Some (demo_backend 2), st')
     \<and> conn_total 1 st' 1 - of_nat (session_count st' 1) = 0"
proof -
  obtain st' where st': "find_tcp_backend (demo_env 0) demo_session demo_key (demo_flags True False) 54
      (demo_maps BALANCER_RR) = (Some (demo_backend 2), st')"
    by (rule demo_first_syn)
  have "conn_total 1 st' 1 - of_nat (session_count st' 1) =
      conn_total 1 (demo_maps BALANCER_RR) 1 - of_nat (session_count (demo_maps BALANCER_RR) 1)
      + (case hash_lookup (tcp_session_state (demo_maps BALANCER_RR)) demo_session of
           None \<Rightarrow> 0
         | Some v \<Rightarrow> if pure_syn (demo_flags True False) \<and> Some (demo_backend 2) \<noteq> None
             \<and> unat (ss_backend_idx v) = 1 then 1 else 0)"
    by (rule connection_account [OF demo_maps_ok demo_sessions_ok _ _ st'])
      (simp_all add: demo_env_def demo_maps_def initial_maps_def MAX_SESSIONS_def)
  then show ?thesis using st'
    by (simp add: conn_total_def session_count_def count_values_def demo_maps_def initial_maps_def
        zero_stats_def hash_lookup_def)
qed

text \<open>
  A packet that closes a live session still goes to the session's backend; afterwards the
  session is gone, and every other flow has the session it had.
\<close>

theorem fin_closes_session:
  assumes ok: "maps_ok st" "sessions_ok st"
    and live: "hash_lookup (tcp_session_state st) sk = Some v" "\<not> ktime_hit env - created v > timeout v"
    and tcp: "\<not> pure_syn tcp" "fin tcp \<or> rst tcp"
    and f: "find_tcp_backend env sk key tcp len st = (r, st')"
  shows "r = Some (backends_map st (atomic_index st 0) (unat (ss_backend_idx v)))
    \<and> hash_lookup (tcp_session_state st') j =
        (if j = sk then None else hash_lookup (tcp_session_state st) j)"
  using find_tcp_backend_live [OF live(1) sessions_okD [OF ok(2) live(1)] tcp(1) live(2) f] tcp(2)
    find_tcp_backend_other [OF ok _ f, of j] by simp

definition demo_live :: xdp_maps where
  "demo_live = (demo_maps BALANCER_RR)\<lparr>tcp_session_state :=
     [(demo_session, \<lparr>ss_backend_idx = 1, ss_service_idx = 0, created = 5, timeout = TCP_STATE_TIMEOUT\<rparr>)]\<rparr>"

lemma demo_live_ok: "maps_ok demo_live" "sessions_ok demo_live"
  using demo_maps_ok [of BALANCER_RR]
  by (simp_all add: demo_live_def maps_ok_def hash_ok_def max_defs sessions_ok_def hash_lookup_def)

lemma fin_closes_session_witness:
  "\<exists>st'. find_tcp_backend (demo_env 9) demo_session demo_key ((demo_flags False True)\<lparr>fin := True\<rparr>) 54 demo_live
       = (Some (demo_backend 2), st') \<and> hash_lookup (tcp_session_state st') demo_session = None"
proof -
  obtain r st' where f: "find_tcp_backend (demo_env 9) demo_session demo_key
      ((demo_flags False True)\<lparr>fin := True\<rparr>) 54 demo_live = (r, st')" by (rule prod.exhaust)
  show ?thesis
    using fin_closes_session [OF demo_live_ok _ _ _ _ f, of _ demo_session] f
    by (simp add: demo_live_def hash_lookup_def demo_env_def demo_flags_def pure_syn_def
        TCP_STATE_TIMEOUT_def demo_maps_def initial_maps_def backends_map_def)
qed

text \<open>
  A packet of a session older than its timeout is handled exactly as if the session had been
  removed and its connection taken back from the backend's and the service's counters.
\<close>

theorem expired_session_forgotten:
  assumes "hash_lookup (tcp_session_state st) sk = Some v" "\<not> pure_syn tcp"
    and "ktime_hit env - created v > timeout v"
  shows "find_tcp_backend env sk key tcp len st =
    find_tcp_backend env sk key tcp len (forget_session env sk v st)"
  using assms by (rule find_tcp_backend_expired)

lemma expired_session_forgotten_witness:
  "find_tcp_backend (demo_env 60000000006) demo_session demo_key (demo_flags False True) 54 demo_live =
   find_tcp_backend (demo_env 60000000006) demo_session demo_key (demo_flags False True) 54
     (forget_session (demo_env 60000000006) demo_session
       \<lparr>ss_backend_idx = 1, ss_service_idx = 0, created = 5, timeout = TCP_STATE_TIMEOUT\<rparr> demo_live)"
  by (rule expired_session_forgotten)
    (simp_all add: demo_live_def hash_lookup_def demo_flags_def pure_syn_def demo_env_def TCP_STATE_TIMEOUT_def)

text \<open>
  A new flow of a round-robin or weighted service gets an active backend of that service, and
  its session names that backend's index.
\<close>

theorem new_flow_backend:
  assumes ok: "maps_ok st" "sessions_ok st" and syn: "pure_syn tcp"
    and info: "hash_lookup (services_map st (atomic_index st 0)) key = Some info"
      "info_ok info" "algorithm info \<noteq> BALANCER_CH" "wrr_cursor_ok info key st"
    and room: "length (tcp_session_state st) < MAX_SESSIONS"
    and f: "find_tcp_backend env sk key tcp len st = (Some b, st')"
  shows "\<exists>i. in_service info i \<and> active b \<noteq> 0
    \<and> b = backends_map st (atomic_index st 0) (unat i)
    \<and> (\<exists>v. hash_lookup (tcp_session_state st') sk = Some v \<and> ss_backend_idx v = i
          \<and> ss_service_idx v = service_idx info)"
proof -
  obtain info' i t where s: "hash_lookup (services_map st (atomic_index st 0)) key = Some info'"
      "tcp_schedule env sk key len (backends_map st (atomic_index st 0)) info' 0 st = (Some b, i, t)"
      "hash_lookup (tcp_session_state st) sk \<noteq> None \<or> length (tcp_session_state st) < MAX_SESSIONS \<longrightarrow>
       hash_lookup (tcp_session_state st') sk =
         Some \<lparr>ss_backend_idx = i, ss_service_idx = service_idx info', created = ktime_new env,
               timeout = TCP_STATE_TIMEOUT\<rparr>"
    by (rule find_tcp_backend_syn [OF ok syn f])
  have "info' = info" using s(1) info(1) by simp
  then show ?thesis using tcp_schedule_in_service [OF s(2)] info(2-4) s(3) room by auto
qed

lemma new_flow_backend_witness:
  "\<exists>st' i. find_tcp_backend (demo_env 0) demo_session demo_key (demo_flags True False) 54 (demo_maps BALANCER_RR)
       = (Some (demo_backend 2), st') \<and> in_service (demo_info BALANCER_RR) i"
proof -
  obtain st' where f: "find_tcp_backend (demo_env 0) demo_session demo_key (demo_flags True False) 54
      (demo_maps BALANCER_RR) = (Some (demo_backend 2), st')"
    by (rule demo_first_syn)
  have "\<exists>i. in_service (demo_info BALANCER_RR) i \<and> active (demo_backend 2) \<noteq> 0
    \<and> demo_backend 2 = backends_map (demo_maps BALANCER_RR) (atomic_index (demo_maps BALANCER_RR) 0) (unat i)
    \<and> (\<exists>v. hash_lookup (tcp_session_state st') demo_session = Some v \<and> ss_backend_idx v = i
          \<and> ss_service_idx v = service_idx (demo_info BALANCER_RR))"
    by (rule new_flow_backend [OF demo_maps_ok demo_sessions_ok _ _ _ _ _ _ f])
      (simp_all add: demo_eval balancer_alg_defs info_ok_def wrr_cursor_ok_def)
  with f show ?thesis by blast
qed

text \<open>
  Flows do not disturb each other: a packet of one flow leaves the session of every other flow
  as it was, and keeps the configuration and the DDoS maps.
\<close>

theorem flows_independent:
  assumes "maps_ok st" "sessions_ok st" and "find_tcp_backend env sk key tcp len st = (r, st')"
  shows "(j \<noteq> sk \<longrightarrow> hash_lookup (tcp_session_state st') j = hash_lookup (tcp_session_state st) j)
    \<and> services_first st' = services_first st \<and> services_second st' = services_second st
    \<and> backends_first st' = backends_first st \<and> backends_second st' = backends_second st
    \<and> atomic_index st' = atomic_index st \<and> blacklist st' = blacklist st"
proof -
  have "data_frame st st'" using find_tcp_backend_step [OF assms] by simp
  then show ?thesis
    using find_tcp_backend_other [OF assms(1,2) _ assms(3), of j] by (simp add: data_frame_fields)
qed

lemma flows_independent_witness:
  "\<exists>st'. find_tcp_backend (demo_env 0) (demo_session\<lparr>src_port := 1\<rparr>) demo_key (demo_flags True False) 54 demo_live = st'
     \<and> hash_lookup (tcp_session_state (snd st')) demo_session = hash_lookup (tcp_session_state demo_live) demo_session"
  using flows_independent [OF demo_live_ok prod.collapse [symmetric], of demo_session "demo_session\<lparr>src_port := 1\<rparr>"]
  by (simp add: demo_session_def)

text \<open>
  A UDP packet gets an active backend of the configuration or none, never one of a
  consistent-hash service, and leaves the session table alone.
\<close>

theorem udp_backend:
  assumes "maps_ok st" "sessions_ok st" and "find_udp_backend env key len st = (r, st')"
  shows "tcp_session_state st' = tcp_session_state st
    \<and> (\<forall>b. r = Some b \<longrightarrow> active b \<noteq> 0 \<and> configured st b
        \<and> (\<exists>info. hash_lookup (services_map st (atomic_index st 0)) key = Some info
              \<and> algorithm info \<noteq> BALANCER_CH))"
proof -
  have "\<exists>info. hash_lookup (services_map st (atomic_index st 0)) key = Some info \<and> algorithm info \<noteq> BALANCER_CH"
    if "r = Some b" for b
    using that assms(3)
    by (auto simp: find_udp_backend_def udp_schedule_def array_lookup_def balancer_alg_defs
        split: option.splits if_splits)
  then show ?thesis using find_udp_backend_step [OF assms] by blast
qed

definition demo_udp :: xdp_maps where
  "demo_udp = (demo_maps BALANCER_RR)
     \<lparr>services_first := [(demo_key\<lparr>sk_protocol := IPPROTO_UDP\<rparr>, demo_info BALANCER_RR)],
      rr_index := [(demo_key\<lparr>sk_protocol := IPPROTO_UDP\<rparr>, 0)]\<rparr>"

lemma udp_backend_witness:
  "\<exists>st'. find_udp_backend (demo_env 0) (demo_key\<lparr>sk_protocol := IPPROTO_UDP\<rparr>) 60 demo_udp = (Some (demo_backend 2), st')
     \<and> tcp_session_state st' = [] \<and> configured demo_udp (demo_backend 2)"
proof -
  have ok: "maps_ok demo_udp" "sessions_ok demo_udp"
    using demo_maps_ok [of BALANCER_RR] demo_sessions_ok [of BALANCER_RR]
    by (simp_all add: demo_udp_def maps_ok_def sessions_ok_def hash_ok_def max_defs)
  obtain st' where f: "find_udp_backend (demo_env 0) (demo_key\<lparr>sk_protocol := IPPROTO_UDP\<rparr>) 60 demo_udp
      = (Some (demo_backend 2), st')"
    by (simp add: find_udp_backend_def udp_schedule_def demo_udp_def demo_eval balancer_alg_defs)
  show ?thesis using udp_backend [OF ok f] f by (simp add: demo_udp_def demo_maps_def initial_maps_def)
qed

lemma new_session_service_stats:
  assumes "new_session_phase env sk key len sm bm tcp_start s = (found, s')"
    and "\<forall>info. hash_lookup sm key = Some info \<longrightarrow> algorithm info \<noteq> BALANCER_CH"
  shows "services_packets_stats s' = services_packets_stats s"
proof (cases "hash_lookup sm key")
  case None
  then show ?thesis using assms(1) by (simp add: new_session_phase_def)
next
  case (Some info)
  obtain x l t where sched: "tcp_schedule env sk key len bm info 0 s = (x, l, t)" by (metis prod_cases3)
  have "services_packets_stats t = services_packets_stats s"
    using sched
  proof (cases rule: tcp_schedule_cases)
    case RR
    show ?thesis by (rule sched_frame_fields(9) [OF rr.loop_frame [OF RR(1)]])
  next
    case WRR
    show ?thesis by (rule sched_frame_fields(9) [OF wrr.loop_frame [OF WRR(1)]])
  next
    case (CH h)
    then show ?thesis using assms(2) Some by simp
  qed simp
  then show ?thesis using assms(1) Some sched by (auto simp: new_session_phase_def tcp_start_def split: option.splits)
qed

text \<open>
  The service counters of TCP miss the bytes: outside consistent hashing no TCP packet changes
  any service's byte counter, on any CPU.
\<close>

theorem tcp_service_bytes_missing:
  assumes ok: "maps_ok st" "sessions_ok st" and f: "find_tcp_backend env sk key tcp len st = (r, st')"
    and alg: "\<forall>info. hash_lookup (services_map st (atomic_index st 0)) key = Some info \<longrightarrow>
      algorithm info \<noteq> BALANCER_CH"
  shows "total_bytes (services_packets_stats st' c i) = total_bytes (services_packets_stats st c i)"
proof -
  have stats: "total_bytes (services_packets_stats (service_stats env g k s) c i) =
      total_bytes (services_packets_stats s c i)"
    if "\<And>p. total_bytes (g p) = total_bytes p" for g k s
    using that by (simp add: service_stats_def percpu_modify_apply)
  have last: "total_bytes (services_packets_stats (tcp_stats_phase env tcp len lv s) c i) =
      total_bytes (services_packets_stats s c i)" for lv s
    by (simp add: tcp_stats_phase_def stats tcp_count_service_def)
  have first: "total_bytes (services_packets_stats s c i) = total_bytes (services_packets_stats st c i)"
    if "tcp_lookup env bm sk tcp st = (lv, s)" for bm lv s
    using that by (auto simp: tcp_lookup_def session_phase_def Let_def stats drop_connection_def
        split: if_splits option.splits)
  have new: "total_bytes (services_packets_stats s' c i) = total_bytes (services_packets_stats s c i)"
    if "new_session_phase env sk key len (services_map st (atomic_index st 0)) bm tcp_start s = (found, s')"
    for bm s found s'
    using new_session_service_stats [OF that alg] by simp
  from ok f show ?thesis
  proof (cases rule: find_tcp_cases)
    case (Live lv s lv' s')
    have "services_packets_stats s' = services_packets_stats s"
      using Live(7) by (auto simp: close_phase_def split: if_splits)
    then show ?thesis using first [OF Live(1)] by (simp add: Live(8) last)
  next
    case (New s lv s')
    then show ?thesis using first [OF New(1)] new [OF New(3)] by (simp add: last)
  next
    case (Nothing s)
    then show ?thesis using first [OF Nothing(1)] new [OF Nothing(2)] by simp
  qed
qed

lemma tcp_service_bytes_missing_witness:
  "\<exists>st'. find_tcp_backend (demo_env 0) demo_session demo_key (demo_flags True False) 54 (demo_maps BALANCER_RR)
       = (Some (demo_backend 2), st') \<and> total_bytes (services_packets_stats st' 0 0) = 0"
proof -
  obtain st' where f: "find_tcp_backend (demo_env 0) demo_session demo_key (demo_flags True False) 54
      (demo_maps BALANCER_RR) = (Some (demo_backend 2), st')"
    by (rule demo_first_syn)
  have "total_bytes (services_packets_stats st' 0 0) = total_bytes (services_packets_stats (demo_maps BALANCER_RR) 0 0)"
    by (rule tcp_service_bytes_missing [OF demo_maps_ok demo_sessions_ok f])
      (simp add: demo_maps_def initial_maps_def services_map_def hash_lookup_def demo_info_def balancer_alg_defs)
  then show ?thesis using f by (simp add: demo_maps_def initial_maps_def zero_stats_def)
qed

end
