(* ===== verification/Rr_Concurrency.thy ===== *)
theory Rr_Concurrency
  imports Schedulers
begin

section \<open>Round robin on several CPUs\<close>

text \<open>
  The program runs on every CPU, and the cursor of a service is in a map that the CPUs share:
  \<open>rr_balancer_handle\<close> reads it, and writes the next one with a second call. Here a CPU is at one
  of three points, and a schedule says which CPU makes the next call. Everything else that the
  handler reads does not change between its calls. Weighted round robin writes through a pointer
  into its map; what the kernel does with that element when another CPU replaces it is not
  modelled.
\<close>

datatype rr_point = Rr_lookup | Rr_update u32 | Rr_picked "u32 option"

fun rr_cpu :: "service_info \<Rightarrow> service_key \<Rightarrow> rr_point \<times> xdp_maps \<Rightarrow> rr_point \<times> xdp_maps" where
  "rr_cpu info key (Rr_lookup, st) =
     (case hash_lookup (rr_index st) key of
        None \<Rightarrow> (Rr_picked None, st)
      | Some cur \<Rightarrow>
          (let new_index = cur + 1
           in (Rr_update (if new_index \<ge> backend_count info then 0 else new_index), st)))"
| "rr_cpu info key (Rr_update new_index, st) =
     (Rr_picked (Some (backend_start_idx info + new_index)),
      st\<lparr>rr_index := snd (hash_update MAX_SERVICES (rr_index st) key new_index)\<rparr>)"
| "rr_cpu info key (Rr_picked r, st) = (Rr_picked r, st)"

fun run_cpus :: "('p \<times> 's \<Rightarrow> 'p \<times> 's) \<Rightarrow> nat list \<Rightarrow> (nat \<Rightarrow> 'p) \<times> 's \<Rightarrow> (nat \<Rightarrow> 'p) \<times> 's" where
  "run_cpus cpu_step [] s = s"
| "run_cpus cpu_step (c # cs) (ps, st) =
     (let (p, st') = cpu_step (ps c, st) in run_cpus cpu_step cs (ps(c := p), st'))"

subsection \<open>Programs on several CPUs\<close>

text \<open>
  What a step keeps of the point and of the shared state, it keeps on every schedule; and a
  program that gets nearer to its end in every step ends after so many turns of its CPU, whatever
  the other CPUs do.
\<close>

locale cpu_program =
  fixes cpu_step :: "'p \<times> 's \<Rightarrow> 'p \<times> 's" and point_ok :: "'s \<Rightarrow> 'p \<Rightarrow> bool" and shared_ok :: "'s \<Rightarrow> bool" and turns_left :: "'p \<Rightarrow> nat"
  assumes step_keeps: "shared_ok st \<Longrightarrow> point_ok st p \<Longrightarrow> cpu_step (p, st) = (q, st') \<Longrightarrow> shared_ok st' \<and> point_ok st' q"
    and others_keep: "shared_ok st \<Longrightarrow> point_ok st p \<Longrightarrow> cpu_step (p, st) = (q, st') \<Longrightarrow> point_ok st p' \<Longrightarrow> point_ok st' p'"
    and step_nearer: "cpu_step (p, st) = (q, st') \<Longrightarrow> turns_left q \<le> turns_left p - 1"
begin

lemma run_ok:
  "shared_ok st \<Longrightarrow> \<forall>c. point_ok st (ps c) \<Longrightarrow> run_cpus cpu_step cs (ps, st) = (qs, st') \<Longrightarrow>
     shared_ok st' \<and> (\<forall>c. point_ok st' (qs c))"
proof (induction cs arbitrary: ps st)
  case (Cons c cs)
  obtain p s where p: "cpu_step (ps c, st) = (p, s)" by (rule prod.exhaust)
  have "shared_ok s \<and> point_ok s p" using step_keeps Cons.prems(1,2) p by blast
  moreover have "point_ok s (ps c')" for c' using others_keep Cons.prems(1,2) p by blast
  ultimately have "shared_ok s" "\<forall>c'. point_ok s ((ps(c := p)) c')" by simp_all
  moreover have "run_cpus cpu_step cs (ps(c := p), s) = (qs, st')" using Cons.prems(3) by (simp add: p)
  ultimately show ?case by (rule Cons.IH)
qed simp

lemma run_ends:
  "run_cpus cpu_step cs (ps, st) = (qs, st') \<Longrightarrow> turns_left (qs c) \<le> turns_left (ps c) - count_list cs c"
proof (induction cs arbitrary: ps st)
  case (Cons d cs)
  obtain p s where p: "cpu_step (ps d, st) = (p, s)" by (rule prod.exhaust)
  have "run_cpus cpu_step cs (ps(d := p), s) = (qs, st')" using Cons.prems by (simp add: p)
  then have "turns_left (qs c) \<le> turns_left ((ps(d := p)) c) - count_list cs c" by (rule Cons.IH)
  then show ?case using step_nearer [OF p] by (auto split: if_splits)
qed simp

end

subsection \<open>The handler as such a program\<close>

definition rr_point_ok :: "service_info \<Rightarrow> bool \<Rightarrow> rr_point \<Rightarrow> bool" where
  "rr_point_ok info known p \<longleftrightarrow>
     (case p of
        Rr_lookup \<Rightarrow> True
      | Rr_update n \<Rightarrow> known \<and> unat n < unat (backend_count info)
      | Rr_picked None \<Rightarrow> \<not> known
      | Rr_picked (Some i) \<Rightarrow> known \<and> in_service info i)"

definition rr_known :: "service_key \<Rightarrow> xdp_maps \<Rightarrow> bool" where
  "rr_known key st \<longleftrightarrow> hash_lookup (rr_index st) key \<noteq> None"

fun rr_turns :: "rr_point \<Rightarrow> nat" where
  "rr_turns Rr_lookup = 2"
| "rr_turns (Rr_update n) = 1"
| "rr_turns (Rr_picked r) = 0"

lemma rr_cpu_known:
  assumes "rr_cpu info key (p, st) = (q, st')" "rr_known key st \<or> (\<forall>n. p \<noteq> Rr_update n)"
  shows "rr_known key st' = rr_known key st"
proof -
  have "hash_lookup (snd (hash_update MAX_SERVICES m key n)) key \<noteq> None" if "hash_lookup m key \<noteq> None"
    for m :: "(service_key, u32) bpf_hash" and n
    using that hash_update_lookup [OF prod.collapse [symmetric], of MAX_SERVICES m key n key] by simp
  then show ?thesis using assms by (cases p) (auto simp: rr_known_def Let_def split: option.splits)
qed

interpretation rr_cpus: cpu_program "rr_cpu info key" "\<lambda>st. rr_point_ok info (rr_known key st)" "\<lambda>st. info_ok info" rr_turns
  for info key
proof
  fix st st' p q
  assume a: "info_ok info" "rr_point_ok info (rr_known key st) p" "rr_cpu info key (p, st) = (q, st')"
  have k: "rr_known key st' = rr_known key st"
    by (rule rr_cpu_known [OF a(3)]) (use a(2) in \<open>auto simp: rr_point_ok_def\<close>)
  show "info_ok info \<and> rr_point_ok info (rr_known key st') q"
    unfolding k using a wrap_next_lt [of "backend_count info"] rr_next_in_service(1) [OF a(1)]
    by (cases p) (auto simp: rr_point_ok_def rr_known_def Let_def info_ok_def split: option.splits)
  show "rr_point_ok info (rr_known key st') p'" if "rr_point_ok info (rr_known key st) p'" for p'
    using that by (simp add: k)
next
  fix st st' p q
  assume "rr_cpu info key (p, st) = (q, st')"
  then show "rr_turns q \<le> rr_turns p - 1" by (cases p) (auto simp: Let_def split: option.splits)
qed

text \<open>A late write of the value that is there already changes nothing.\<close>

lemma hash_update_again: "snd (hash_update n (snd (hash_update n m k v)) k v) = snd (hash_update n m k v)"
  by (auto simp: hash_update_def update_conv' update_triv)

text \<open>Two turns in a row are the handler.\<close>

lemma rr_cpu_alone:
  assumes "rr_balancer_handle bm info key l st = (b, l', st')"
  shows "run_cpus (rr_cpu info key) [c, c] (ps(c := Rr_lookup), st)
    = (ps(c := Rr_picked (if rr_known key st then Some l' else None)), st')"
  using assms by (auto simp: rr_balancer_handle_def rr_known_def Let_def split: option.splits)

lemma rr_run_known:
  "run_cpus (rr_cpu info key) cs (ps, st) = (qs, st') \<Longrightarrow> \<forall>c. rr_point_ok info (rr_known key st) (ps c) \<Longrightarrow> info_ok info \<Longrightarrow>
     rr_known key st' = rr_known key st"
proof (induction cs arbitrary: ps st)
  case (Cons c cs)
  obtain p s where p: "rr_cpu info key (ps c, st) = (p, s)" by (rule prod.exhaust)
  have at: "rr_point_ok info (rr_known key st) (ps c)" using Cons.prems(2) by blast
  have k: "rr_known key s = rr_known key st"
    by (rule rr_cpu_known [OF p]) (use at in \<open>auto simp: rr_point_ok_def\<close>)
  have "\<forall>d. rr_point_ok info (rr_known key s) ((ps(c := p)) d)"
    using rr_cpus.step_keeps [OF Cons.prems(3) at p] Cons.prems(2) by (simp add: k)
  moreover have "run_cpus (rr_cpu info key) cs (ps(c := p), s) = (qs, st')" using Cons.prems(1) by (simp add: p)
  ultimately show ?case using Cons.IH Cons.prems(3) k by metis
qed simp

end
