(* ===== verification/Component_Properties.thy ===== *)
theory Component_Properties
  imports Example_State Scheduler_Fairness Rr_Concurrency
begin

section \<open>Properties of the schedulers, the DDoS check and the checksums\<close>

subsection \<open>Round robin\<close>

text \<open>
  C13. Round robin is fair: from any position, as many picks as the service has backends visit
  every backend exactly once, each pick returns the backend it names, and the cursor is back
  where it was.
\<close>

theorem rr_fair:
  assumes ok: "info_ok info" and at: "rr_at key c st" "c < unat (backend_count info)"
    and run: "run_picks (rr_balancer_handle bm info key) (unat (backend_count info)) l st = (bs, st')"
  shows "mset (map snd bs) = mset (map (\<lambda>i. unat (backend_start_idx info) + i) [0..<unat (backend_count info)])
    \<and> (\<forall>(b, i) \<in> set bs. b = Some (bm i)) \<and> rr_at key c st'"
proof -
  let ?n = "unat (backend_count info)" and ?s = "unat (backend_start_idx info)"
  have bs: "bs = map (\<lambda>j. let i = ?s + (c + 1 + j) mod ?n in (Some (bm i), i)) [0..<?n]"
    and st': "rr_at key ((c + ?n) mod ?n) st'"
    using rr_run [OF ok at run] by simp_all
  have "mset (map snd bs) = mset (map (\<lambda>i. ?s + i) [0..<?n])"
    unfolding bs map_residues mset_map [of "\<lambda>i. ?s + i"] mset_residues ..
  moreover have "\<forall>(b, i) \<in> set bs. b = Some (bm i)" by (auto simp: bs Let_def)
  ultimately show ?thesis using st' at(2) by simp
qed

lemma rr_fair_witness:
  "\<exists>bs st'. run_picks (rr_balancer_handle (backends_first (demo_maps BALANCER_RR)) (demo_info BALANCER_RR) demo_key)
       2 0 (demo_maps BALANCER_RR) = (bs, st') \<and> mset (map snd bs) = {#0, 1#}"
proof -
  obtain bs st' where run: "run_picks (rr_balancer_handle (backends_first (demo_maps BALANCER_RR))
      (demo_info BALANCER_RR) demo_key) (unat (backend_count (demo_info BALANCER_RR))) 0
      (demo_maps BALANCER_RR) = (bs, st')" by (rule prod.exhaust)
  have "mset (map snd bs) = {#0, 1#}"
    using rr_fair [OF demo_info_fields(3) demo_cursors(1) _ run]
    unfolding demo_info_fields by (simp add: numeral_2_eq_2)
  then show ?thesis using run unfolding demo_info_fields by blast
qed

text \<open>
  What the retry loop around round robin returns: the first active one of the next four
  backends, or no backend when these four are inactive, even if another one is active.
\<close>

theorem rr_retry_exact:
  assumes "info_ok info" and "rr_at key c st" "c < unat (backend_count info)"
    and "pick_loop (rr_balancer_handle bm info key) 0 l st = (r, l', st')"
  shows "r = map_option bm (List.find (\<lambda>i. active (bm i) \<noteq> 0)
    (map (\<lambda>j. unat (backend_start_idx info) + (c + 1 + j) mod unat (backend_count info)) [0..<4]))"
  using rr_retry [OF assms(1) _ assms(2-4)] by (simp add: rr_try_def)

lemma rr_retry_exact_witness:
  "\<exists>l' st'. pick_loop (rr_balancer_handle (\<lambda>i. if i = 5 then demo_backend 5 else zero_backend)
      (demo_info BALANCER_RR\<lparr>backend_count := 6\<rparr>) demo_key) 0 0 (demo_maps BALANCER_RR) = (None, l', st')"
proof -
  obtain r l' st' where run: "pick_loop (rr_balancer_handle (\<lambda>i. if i = 5 then demo_backend 5 else zero_backend)
      (demo_info BALANCER_RR\<lparr>backend_count := 6\<rparr>) demo_key) 0 0 (demo_maps BALANCER_RR) = (r, l', st')"
    by (metis prod_cases3)
  have upt: "[0..<4] = [0, 1, 2, 3 :: nat]" by (simp add: upt_rec)
  show ?thesis
    using run rr_retry_exact [OF _ _ _ run, of 0]
    by (simp add: upt info_ok_def rr_at_def zero_backend_def demo_info_def demo_maps_def initial_maps_def
        hash_lookup_def MAX_BACKENDS_def)
qed

text \<open>
  A service without backends still gets one: round robin then returns the entry at the start
  index, the first backend of the service stored after it.
\<close>

theorem rr_empty_service:
  assumes "backend_count info = 0" and "hash_lookup (rr_index st) key = Some cur"
  shows "fst (rr_balancer_handle bm info key l st) = array_lookup MAX_BACKENDS bm (backend_start_idx info)
    \<and> \<not> in_service info (fst (snd (rr_balancer_handle bm info key l st)))"
  using assms by (simp add: rr_balancer_handle_def in_service_def Let_def)

lemma rr_empty_service_witness:
  "fst (rr_balancer_handle (backends_first (demo_maps 0)) (demo_info 0\<lparr>backend_count := 0\<rparr>) demo_key 0 (demo_maps 0)) =
     array_lookup MAX_BACKENDS (backends_first (demo_maps 0)) 0
   \<and> \<not> in_service (demo_info 0\<lparr>backend_count := 0\<rparr>) (fst (snd (rr_balancer_handle
        (backends_first (demo_maps 0)) (demo_info 0\<lparr>backend_count := 0\<rparr>) demo_key 0 (demo_maps 0))))"
  using rr_empty_service [of "demo_info 0\<lparr>backend_count := 0\<rparr>" "demo_maps 0" demo_key 0]
  by (simp add: demo_info_def demo_maps_def initial_maps_def hash_lookup_def)

subsection \<open>Weighted round robin\<close>

text \<open>
  C12. Weighted round robin keeps the weights: for a service of at most 32 backends, from the
  start of a cycle, the picks of \<open>k\<close> cycles are \<open>k\<close> times the sequence in which every active
  backend in turn appears as often as its weight, and inactive ones never.
\<close>

theorem wrr_fair:
  assumes "info_ok info" and "unat (backend_count info) \<le> 32" and "wrr_pos key 0 0 st"
    and "run_picks (wrr_balancer_handle bm info key)
      (k * (\<Sum>i\<leftarrow>[0..<unat (backend_count info)]. wrr_due bm info i)) l st = (bs, st')"
  shows "bs = concat (replicate k (concat (map (\<lambda>i. replicate
      (if active (bm (unat (backend_start_idx info) + i)) \<noteq> 0
       then unat (weight (bm (unat (backend_start_idx info) + i))) else 0)
      (Some (bm (unat (backend_start_idx info) + i)), unat (backend_start_idx info) + i))
    [0..<unat (backend_count info)])))"
proof -
  have "0 < unat (backend_count info)" using assms(1) by (simp add: info_ok_def)
  then show ?thesis
    using wrr_cycles [OF assms(1,2) wrr_ready_pos [OF assms(3)] assms(4)]
    by (simp add: wrr_serve_def [abs_def] wrr_due_def)
qed

lemma wrr_fair_witness:
  "map snd (fst (run_picks (wrr_balancer_handle (backends_first (demo_maps BALANCER_WRR)) (demo_info BALANCER_WRR) demo_key)
     6 0 (demo_maps BALANCER_WRR))) = [0, 1, 1, 0, 1, 1]"
proof -
  let ?bm = "backends_first (demo_maps BALANCER_WRR)" and ?info = "demo_info BALANCER_WRR"
  obtain bs st' where run: "run_picks (wrr_balancer_handle ?bm ?info demo_key)
      (2 * (\<Sum>i\<leftarrow>[0..<unat (backend_count ?info)]. wrr_due ?bm ?info i)) 0 (demo_maps BALANCER_WRR) = (bs, st')"
    by (rule prod.exhaust)
  have bm: "active (?bm 0) = 1" "active (?bm (Suc 0)) = 1" "weight (?bm 0) = 1" "weight (?bm (Suc 0)) = 2"
    by (simp_all add: demo_maps_def demo_backend_def)
  have upt: "[0..<2] = [0, Suc 0]" by (simp add: upt_rec)
  have rep: "replicate 2 x = [x, x]" for x :: "backend option \<times> nat" by (simp add: numeral_2_eq_2)
  have rep2: "replicate 2 x = [x, x]" for x :: "(backend option \<times> nat) list" by (simp add: numeral_2_eq_2)
  have "map snd bs = [0, 1, 1, 0, 1, 1]"
    using wrr_fair [OF demo_info_fields(3) _ demo_cursors(2) run]
    unfolding demo_info_fields upt by (simp add: bm rep rep2)
  moreover have "2 * (\<Sum>i\<leftarrow>[0..<unat (backend_count ?info)]. wrr_due ?bm ?info i) = 6"
    unfolding demo_info_fields upt by (simp add: wrr_due_def bm demo_info_fields)
  ultimately show ?thesis using run by simp
qed

subsection \<open>Consistent hashing\<close>

text \<open>
  The flow hash loses nothing: for a fixed seed it is a bijection of the 32-bit words, so two
  flows meet in a slot only through the reduction to the table size.
\<close>

theorem hash_key_bijective: "bij (\<lambda>key. hash_key_consistent key seed)"
proof (rule bijI)
  show "inj (\<lambda>key. hash_key_consistent key seed)"
    by (rule inj_on_inverseI [where g = "\<lambda>h. unhash_key_consistent h seed"]) (rule unhash_hash)
  then show "surj (\<lambda>key. hash_key_consistent key seed)"
    by (intro finite_UNIV_inj_surj) simp_all
qed

text \<open>
  A lookup that finds a backend is counted as stable exactly when
  \<open>consistent_hash_is_stable\<close> says the slot did not change, and nothing else in the maps moves.
\<close>

theorem ch_lookup_counts:
  assumes "consistent_hash_lookup h False st = (b, st')" and "0 \<le> sint b"
  shows "st' = st\<lparr>ch_stats_map := ch_stats_map st'\<rparr>
    \<and> total_lookups (ch_stats_map st' 0) = total_lookups (ch_stats_map st 0) + 1
    \<and> stable_lookups (ch_stats_map st' 0) = stable_lookups (ch_stats_map st 0)
        + (if consistent_hash_is_stable h st then 1 else 0)
    \<and> unstable_lookups (ch_stats_map st' 0) = unstable_lookups (ch_stats_map st 0)
        + (if consistent_hash_is_stable h st then 0 else 1)
    \<and> b = ch_curr_lookup st (unat (h mod ch_config st 0))"
  using consistent_hash_lookup_stats [OF assms] consistent_hash_lookup_frame [OF assms(1)]
    consistent_hash_lookup_slot(2) [OF assms]
  by (auto simp: Let_def array_lookup_def split: if_splits)

definition demo_ch :: xdp_maps where
  "demo_ch = (demo_maps BALANCER_CH)\<lparr>ch_config := (\<lambda>_. 7), ch_curr_lookup := (\<lambda>_. 1),
     ch_backends := (\<lambda>_. zero_backend)(1 := demo_backend 9)\<rparr>"

lemma ch_lookup_counts_witness:
  "total_lookups (ch_stats_map (snd (consistent_hash_lookup 100 False demo_ch)) 0) = 1
   \<and> unstable_lookups (ch_stats_map (snd (consistent_hash_lookup 100 False demo_ch)) 0) = 1"
proof -
  obtain b st' where run: "consistent_hash_lookup 100 False demo_ch = (b, st')" by (rule prod.exhaust)
  have "b = 1"
    using run by (simp add: consistent_hash_lookup_def demo_ch_def array_lookup_def max_defs Let_def
        unat_mod_distrib split: if_splits)
  then show ?thesis
    using ch_lookup_counts [OF run] run
    by (simp add: demo_ch_def demo_maps_def initial_maps_def consistent_hash_is_stable_def
        array_lookup_def max_defs unat_mod_distrib Let_def)
qed

lemma demo_ch_pick:
  obtains t where "ch_balancer_handle env demo_key h len l demo_ch = (Some (demo_backend 9), 1, t)"
  using that by (simp add: ch_balancer_handle_def consistent_hash_lookup_def demo_ch_def array_lookup_def
      max_defs Let_def unat_mod_distrib demo_backend_def order_less_trans [OF mod_less_divisor])

lemma demo_ch_ok: "maps_ok demo_ch" "sessions_ok demo_ch"
  using demo_maps_ok [of BALANCER_CH] demo_sessions_ok [of BALANCER_CH]
  by (simp_all add: demo_ch_def maps_ok_def sessions_ok_def backend_ok_def demo_backend_def zero_backend_def)

lemma demo_ch_syn:
  obtains st1 where "find_tcp_backend (demo_env 0) demo_session demo_key (demo_flags True False) 54 demo_ch
     = (Some (demo_backend 9), st1)"
proof -
  define h where "h = hash_key_consistent (src_ipv4 demo_session XOR dst_ipv4 demo_session
      XOR push_bit 16 (ucast (src_port demo_session)) XOR ucast (dst_port demo_session)) 0x5737a28c"
  obtain t where t: "ch_balancer_handle (demo_env 0) demo_key h 54 0 demo_ch = (Some (demo_backend 9), 1, t)"
    by (rule demo_ch_pick)
  have sched: "tcp_schedule (demo_env 0) demo_session demo_key 54 bm (demo_info BALANCER_CH) 0 demo_ch
      = (Some (demo_backend 9), 1, t)" for bm
    using t by (simp add: tcp_schedule_def balancer_alg_defs demo_info_def h_def)
  show ?thesis
    by (rule that) (simp add: find_tcp_backend_def new_session_phase_def close_phase_def array_lookup_def
        demo_flags_def pure_syn_def tcp_start_def services_map_def sched hash_lookup_def
        demo_ch_def [THEN arg_cong [where f = services_first]] demo_ch_def [THEN arg_cong [where f = atomic_index]]
        demo_maps_def initial_maps_def)
qed

text \<open>
  C25. A flow of a consistent-hash service does not keep its backend: its first packet goes to the
  entry of \<open>ch_backends\<close> that its hash names, every later one to the entry of the backends map
  with the same index.
\<close>

theorem ch_second_packet:
  assumes ok: "maps_ok st" "sessions_ok st" and syn: "pure_syn tcp"
    and f: "find_tcp_backend env sk key tcp len st = (Some b, st1)"
    and info: "hash_lookup (services_map st (atomic_index st 0)) key = Some info"
      "algorithm info = BALANCER_CH"
    and room: "length (tcp_session_state st) < MAX_SESSIONS"
    and later: "\<not> pure_syn tcp2" "ktime_hit env2 - ktime_new env \<le> TCP_STATE_TIMEOUT"
    and f2: "find_tcp_backend env2 sk key tcp2 len2 st1 = (r2, st2)"
  shows "\<exists>i < MAX_CH_BACKENDS. b = ch_backends st i \<and> r2 = Some (backends_map st (atomic_index st 0) i)"
proof -
  obtain info' i t where s: "hash_lookup (services_map st (atomic_index st 0)) key = Some info'"
      "tcp_schedule env sk key len (backends_map st (atomic_index st 0)) info' 0 st = (Some b, i, t)"
      "unat i < MAX_BACKENDS"
      "hash_lookup (tcp_session_state st) sk \<noteq> None \<or> length (tcp_session_state st) < MAX_SESSIONS \<longrightarrow>
       hash_lookup (tcp_session_state st1) sk =
         Some \<lparr>ss_backend_idx = i, ss_service_idx = service_idx info', created = ktime_new env,
               timeout = TCP_STATE_TIMEOUT\<rparr>"
    by (rule find_tcp_backend_syn [OF ok syn f])
  have alg: "algorithm info' = BALANCER_CH" using s(1) info by simp
  from s(2) obtain h where "ch_balancer_handle env key h len 0 st = (Some b, i, t)"
    by (cases rule: tcp_schedule_cases) (use alg in \<open>auto simp: balancer_alg_defs\<close>)
  then have "b = ch_backends st (unat i)" "unat i < MAX_CH_BACKENDS" by (rule ch_balancer_slot)+
  moreover have fr: "data_frame st st1" using find_tcp_backend_step [OF ok f] by simp
  have "backends_map st1 (atomic_index st1 0) = backends_map st (atomic_index st 0)"
    unfolding data_frame_maps(2) [OF fr] data_frame_fields(3) [OF fr] ..
  then have "r2 = Some (backends_map st (atomic_index st 0) (unat i))"
    using find_tcp_backend_live(1) [OF _ _ later(1) _ f2] s(3,4) room later(2) by (simp add: not_less)
  ultimately show ?thesis by blast
qed

lemma ch_second_packet_witness:
  "\<exists>st1 r2 st2 i. find_tcp_backend (demo_env 0) demo_session demo_key (demo_flags True False) 54 demo_ch
       = (Some (demo_backend 9), st1)
     \<and> find_tcp_backend (demo_env 1) demo_session demo_key (demo_flags False True) 54 st1 = (r2, st2)
     \<and> r2 = Some (backends_map demo_ch 0 i) \<and> r2 \<noteq> Some (demo_backend 9)"
proof -
  obtain st1 where f: "find_tcp_backend (demo_env 0) demo_session demo_key (demo_flags True False) 54 demo_ch
     = (Some (demo_backend 9), st1)" by (rule demo_ch_syn)
  obtain r2 st2 where f2: "find_tcp_backend (demo_env 1) demo_session demo_key (demo_flags False True) 54 st1 = (r2, st2)"
    by (rule prod.exhaust)
  have idx: "atomic_index demo_ch 0 = 0" by (simp add: demo_ch_def demo_maps_def initial_maps_def)
  have "\<exists>i < MAX_CH_BACKENDS. demo_backend 9 = ch_backends demo_ch i
      \<and> r2 = Some (backends_map demo_ch (atomic_index demo_ch 0) i)"
    by (rule ch_second_packet [OF demo_ch_ok _ f _ _ _ _ _ f2, of "demo_info BALANCER_CH"])
      (simp_all add: demo_flags_def pure_syn_def demo_ch_def demo_maps_def initial_maps_def services_map_def
        hash_lookup_def demo_info_def MAX_SESSIONS_def demo_env_def TCP_STATE_TIMEOUT_def)
  then obtain i where i: "r2 = Some (backends_map demo_ch 0 i)" unfolding idx by blast
  have "backends_map demo_ch 0 i \<noteq> demo_backend 9"
    by (simp add: backends_map_def demo_ch_def demo_maps_def demo_backend_def zero_backend_def)
  then show ?thesis using f f2 i by blast
qed

text \<open>
  For a consistent-hash service with a virtual address of 256 or more read as a number, the
  service's counters are not touched when a backend is chosen: the lookup takes the address for
  an index.
\<close>

theorem ch_service_uncounted:
  assumes "ch_balancer_handle env key h len l st = (Some b, i, st')" and "MAX_SERVICES \<le> unat (vip4 key)"
  shows "services_packets_stats st' = services_packets_stats st
    \<and> total_packets (backends_packets_stats st' (cpu env) (unat i)) =
        total_packets (backends_packets_stats st (cpu env) (unat i)) + 1"
proof -
  obtain bi s where look: "consistent_hash_lookup h False st = (bi, s)" by (rule prod.exhaust)
  from consistent_hash_lookup_frame [OF look] obtain x where s: "s = st\<lparr>ch_stats_map := x\<rparr>" ..
  have "unat i < MAX_BACKENDS" using ch_balancer_slot(2) [OF assms(1)] by (simp add: max_defs)
  then have "total_packets (backends_packets_stats st' (cpu env) (unat i)) =
      total_packets (backends_packets_stats st (cpu env) (unat i)) + 1"
    using assms(1)
    by (auto simp: ch_balancer_handle_def look s Let_def backend_stats_def service_stats_def
        percpu_modify_apply count_packet_def split: if_splits option.splits)
  with ch_service_counter_missed [OF assms] show ?thesis by simp
qed

lemma ch_service_uncounted_witness:
  "\<exists>t. ch_balancer_handle (demo_env 0) demo_key 100 54 0 demo_ch = (Some (demo_backend 9), 1, t)
     \<and> services_packets_stats t = services_packets_stats demo_ch
     \<and> total_packets (backends_packets_stats t 0 1) = 1"
proof -
  obtain t where t: "ch_balancer_handle (demo_env 0) demo_key 100 54 0 demo_ch = (Some (demo_backend 9), 1, t)"
    by (rule demo_ch_pick)
  have "vip4 demo_key = 0x0100000A" by (simp add: demo_key_def make_service_key_def vip4_def)
  then have "MAX_SERVICES \<le> unat (vip4 demo_key)" by (simp add: MAX_SERVICES_def)
  from ch_service_uncounted [OF t this] show ?thesis using t
    by (simp add: demo_env_def demo_ch_def demo_maps_def initial_maps_def zero_stats_def)
qed

subsection \<open>SYN-flood protection\<close>

text \<open>
  C22. The per-source limit of \<open>ddos_check_v4\<close>: with only a threshold \<open>T\<close> configured and room in the
  blacklist, of \<open>T + 1\<close> SYNs a new source sends within one window the first \<open>T\<close> pass, the last is
  dropped, and the source is blacklisted from that moment.
\<close>

theorem ddos_flood_blocked:
  assumes "maps_ok st" "threshold_only (ddos_cfg st 0)" "pure_syn tcp"
    and "hash_lookup (blacklist st) src = None" "length (blacklist st) < MAX_BLACKLIST"
    and "hash_lookup (syn_tracker st) src = None"
    and "length es = unat (syn_threshold (ddos_cfg st 0)) + 1"
    and "\<forall>e \<in> set es. ktime_ddos e - ktime_ddos (hd es) \<le> DDOS_WINDOW_NS"
    and "ddos_run es src tcp st = (vs, st')"
  shows "vs = replicate (unat (syn_threshold (ddos_cfg st 0))) XDP_PASS @ [XDP_DROP]
    \<and> hash_lookup (blacklist st') src = Some (ktime_ddos (last es))"
proof -
  have "es \<noteq> []" using assms(7) by auto
  then show ?thesis
    using ddos_flood [OF assms(1-5), of es 0 "ktime_ddos (hd es)" vs st'] assms(6-9)
    by (simp add: counter_of_def ddos_new_counter_def)
qed

definition demo_limited :: xdp_maps where
  "demo_limited = (demo_maps BALANCER_RR)\<lparr>ddos_cfg := (\<lambda>_. \<lparr>syn_threshold = 2, syn_ack_ratio = 0,
     global_syn_threshold = 0, ban_duration_ns = 1000\<rparr>)\<rparr>"

lemma demo_limited_ok: "maps_ok demo_limited"
  using demo_maps_ok [of BALANCER_RR] by (simp add: demo_limited_def maps_ok_def)

lemma ddos_flood_blocked_witness:
  "\<exists>st'. ddos_run [demo_env 1, demo_env 2, demo_env 3] 7 (demo_flags True False) demo_limited =
     ([XDP_PASS, XDP_PASS, XDP_DROP], st') \<and> hash_lookup (blacklist st') 7 = Some 3"
proof -
  obtain vs st' where run: "ddos_run [demo_env 1, demo_env 2, demo_env 3] 7 (demo_flags True False) demo_limited = (vs, st')"
    by (rule prod.exhaust)
  have "vs = replicate (unat (syn_threshold (ddos_cfg demo_limited 0))) XDP_PASS @ [XDP_DROP]
    \<and> hash_lookup (blacklist st') 7 = Some (ktime_ddos (last [demo_env 1, demo_env 2, demo_env 3]))"
    by (rule ddos_flood_blocked [OF demo_limited_ok _ _ _ _ _ _ _ run])
      (simp_all add: demo_limited_def threshold_only_def demo_flags_def pure_syn_def demo_maps_def
        initial_maps_def hash_lookup_def MAX_BLACKLIST_def demo_env_def DDOS_WINDOW_NS_def)
  moreover have "replicate 2 XDP_PASS = [XDP_PASS, XDP_PASS]" by (simp add: numeral_2_eq_2)
  ultimately show ?thesis using run by (simp add: demo_limited_def demo_env_def)
qed

text \<open>
  A blacklisted source is dropped without a trace in the maps as long as the ban lasts, and
  handled as an unlisted source, its entry deleted, from the end of the ban on.
\<close>

theorem ddos_ban_period:
  assumes "hash_lookup (blacklist st) src = Some t"
  shows "ddos_check_v4 env src tcp st =
    (if ktime_ddos env - t < ban_duration_ns (ddos_cfg st 0) then (XDP_DROP, st)
     else ddos_check_v4 env src tcp (st\<lparr>blacklist := hash_delete (blacklist st) src\<rparr>))"
proof (cases "ktime_ddos env - t < ban_duration_ns (ddos_cfg st 0)")
  case True
  then show ?thesis using ddos_check_banned [OF assms] by simp
next
  case False
  let ?st = "st\<lparr>blacklist := hash_delete (blacklist st) src\<rparr>"
  have none: "hash_lookup (blacklist ?st) src = None" by (simp add: map_simps)
  have "unban src st = ?st" using assms by (simp add: unban_def)
  then have "ddos_check_v4 env src tcp st = ddos_track env (Some (ddos_cfg st 0)) src tcp ?st"
    using ddos_check_not_banned [of st src env tcp] assms False by simp
  also have "\<dots> = ddos_check_v4 env src tcp ?st"
    using ddos_check_not_banned [of ?st src env tcp] unban_same [OF none] none by simp
  finally show ?thesis using False by simp
qed

lemma ddos_ban_period_witness:
  "fst (ddos_check_v4 (demo_env 900) 7 (demo_flags False True) (demo_limited\<lparr>blacklist := [(7, 3)]\<rparr>)) = XDP_DROP
   \<and> ddos_check_v4 (demo_env 1003) 7 (demo_flags False True) (demo_limited\<lparr>blacklist := [(7, 3)]\<rparr>) =
     ddos_check_v4 (demo_env 1003) 7 (demo_flags False True) (demo_limited\<lparr>blacklist := []\<rparr>)"
  using ddos_ban_period [of "demo_limited\<lparr>blacklist := [(7, 3)]\<rparr>" 7 3 "demo_env 900" "demo_flags False True"]
    ddos_ban_period [of "demo_limited\<lparr>blacklist := [(7, 3)]\<rparr>" 7 3 "demo_env 1003" "demo_flags False True"]
  by (simp add: hash_lookup_def demo_limited_def demo_env_def hash_delete_def)

text \<open>
  C15. The protection never acts: whatever the configuration, from empty DDoS tables no sequence of
  packets makes the program drop one, because the check is only reached by packets that are not
  SYNs and so never counts one.
\<close>

theorem ddos_never_acts:
  assumes "xdp_reachable st0 st" and "maps_ok st0" "sessions_ok st0"
    and "blacklist st0 = []" "syn_tracker st0 = []"
    and "balancer_handler env p st = Some (v, p', st')"
  shows "v \<noteq> XDP_DROP \<and> blacklist st' = []"
proof -
  have "quiet st0" using assms(4,5) by (simp add: quiet_def hash_lookup_def)
  then have st: "maps_ok st" "sessions_ok st" "quiet st"
    using xdp_reachable_invariant [OF assms(1-3)] by simp_all
  show ?thesis
    using balancer_handler_post [OF st(1,2), of p env] st(3) assms(6) by (auto simp: xdp_post_def quiet_def)
qed

lemma ddos_never_acts_witness:
  "\<exists>p' st'. balancer_handler (demo_env 0) (demo_packet 2) (demo_maps BALANCER_RR) = Some (XDP_TX, p', st')
     \<and> blacklist st' = []"
proof -
  obtain st' where run: "balancer_handler (demo_env 0) (demo_packet 2) (demo_maps BALANCER_RR) =
       Some (XDP_TX, [2, 0, 0, 0, 0, 2, 2, 0, 0, 0, 0, 0xAA] @ drop 12 (demo_packet 2), st')"
    by (rule demo_syn_transmitted)
  have "blacklist (demo_maps BALANCER_RR) = []" "syn_tracker (demo_maps BALANCER_RR) = []"
    by (simp_all add: demo_maps_def initial_maps_def)
  from ddos_never_acts [OF xdp_reachable.start demo_maps_ok demo_sessions_ok this run] run
  show ?thesis by blast
qed

subsection \<open>Checksums\<close>

text \<open>
  C24. Replacing a 16-bit field keeps the ones' complement sum, and so a valid checksum valid,
  except at exactly one new value, where the single fold loses a carry.
\<close>

theorem csum_replace16_exact:
  "(unat (csum_replace16 check old new) + unat new) mod 65535 = (unat check + unat old) mod 65535
     \<longleftrightarrow> unat new \<noteq> unat check + unat old + 1"
  by (rule csum_replace16_correct_iff)

text \<open>Replacing a 32-bit address always keeps it.\<close>

theorem csum_replace32_exact:
  "(unat (csum_replace32 check old new) + unat new) mod 65535 = (unat check + unat old) mod 65535"
  by (rule csum_replace32_correct)

text \<open>
  \<open>ip_checksum\<close> of a header is the ones' complement of its sum: words and checksum together
  add up to zero, for any header shorter than 64 K words.
\<close>

theorem ip_checksum_exact:
  assumes "length ws \<le> 65536"
  shows "(unat (ip_checksum ws) + (\<Sum>w\<leftarrow>ws. unat w)) mod 65535 = 0"
  using assms by (rule ip_checksum_correct)

lemma ip_checksum_exact_witness: "(unat (ip_checksum [0x4500, 0x0028, 0xFFFF]) + 83239) mod 65535 = 0"
  using ip_checksum_exact [of "[0x4500, 0x0028, 0xFFFF]"] by simp

text \<open>
  A UDP checksum is never updated to zero, the value that means none: over IPv6 always, over
  IPv4 unless the packet came without one, which stays so.
\<close>

theorem udp_checksum_never_zero:
  "update_udp_checksum_v6 check old_daddr6 new_daddr6 old_dport new_dport \<noteq> 0
   \<and> (update_udp_checksum_v4 check old_daddr new_daddr old_dport new_dport = 0 \<longleftrightarrow> check = 0)"
  by (simp add: update_udp_checksum_v6_nonzero update_udp_checksum_v4_zero_iff)

subsection \<open>Several CPUs\<close>

text \<open>
  C14. Round robin on several CPUs, whatever the order of their calls: a CPU that gets two turns has
  picked, and what it picks is in the service; it picks nothing only if the service has no cursor.
  The turns are not kept apart, though: two CPUs that both read before one writes pick the same
  server, and the cursor moves by one.
\<close>

theorem rr_on_many_cpus:
  assumes "info_ok info"
  shows "(\<forall>sched c. 2 \<le> count_list sched c \<longrightarrow>
      (\<exists>r. fst (run_cpus (rr_cpu info key) sched (\<lambda>_. Rr_lookup, st)) c = Rr_picked r
         \<and> (r = None \<longleftrightarrow> hash_lookup (rr_index st) key = None) \<and> (\<forall>i. r = Some i \<longrightarrow> in_service info i)))
    \<and> (\<forall>a b. a \<noteq> b \<longrightarrow> (let (ps, st') = run_cpus (rr_cpu info key) [a, b, a, b] (\<lambda>_. Rr_lookup, st)
         in ps a = ps b \<and> st' = snd (run_cpus (rr_cpu info key) [a, a] (\<lambda>_. Rr_lookup, st))))"
proof (intro conjI allI impI)
  fix sched :: "nat list" and c
  assume n: "2 \<le> count_list sched c"
  obtain ps st' where run: "run_cpus (rr_cpu info key) sched (\<lambda>_. Rr_lookup, st) = (ps, st')" by (rule prod.exhaust)
  have start: "\<forall>c. rr_point_ok info (rr_known key st) Rr_lookup" by (simp add: rr_point_ok_def)
  have "rr_turns (ps c) = 0" using rr_cpus.run_ends [OF run, of c] n by simp
  then obtain r where r: "ps c = Rr_picked r" by (cases "ps c") simp_all
  have "rr_point_ok info (rr_known key st) (ps c)"
    using rr_cpus.run_ok [OF assms start run] rr_run_known [OF run start assms] by simp
  then show "\<exists>r. fst (run_cpus (rr_cpu info key) sched (\<lambda>_. Rr_lookup, st)) c = Rr_picked r
      \<and> (r = None \<longleftrightarrow> hash_lookup (rr_index st) key = None) \<and> (\<forall>i. r = Some i \<longrightarrow> in_service info i)"
    by (auto simp: run r rr_point_ok_def rr_known_def split: option.splits)
next
  fix a b :: nat
  assume "a \<noteq> b"
  then show "let (ps, st') = run_cpus (rr_cpu info key) [a, b, a, b] (\<lambda>_. Rr_lookup, st)
      in ps a = ps b \<and> st' = snd (run_cpus (rr_cpu info key) [a, a] (\<lambda>_. Rr_lookup, st))"
    by (auto simp: Let_def hash_update_again split: option.split)
qed

lemma rr_on_many_cpus_witness:
  "\<exists>i. fst (run_cpus (rr_cpu (demo_info BALANCER_RR) demo_key) [0, 1, 0, 1] (\<lambda>_. Rr_lookup, demo_maps BALANCER_RR)) 0 = Rr_picked (Some i)
     \<and> fst (run_cpus (rr_cpu (demo_info BALANCER_RR) demo_key) [0, 1, 0, 1] (\<lambda>_. Rr_lookup, demo_maps BALANCER_RR)) 1 = Rr_picked (Some i)
     \<and> in_service (demo_info BALANCER_RR) i"
proof -
  let ?run = "run_cpus (rr_cpu (demo_info BALANCER_RR) demo_key) [0, 1, 0, 1] (\<lambda>_. Rr_lookup, demo_maps BALANCER_RR)"
  note both = rr_on_many_cpus [OF demo_info_fields(3) [of BALANCER_RR], of demo_key "demo_maps BALANCER_RR"]
  have "hash_lookup (rr_index (demo_maps BALANCER_RR)) demo_key \<noteq> None" by (simp add: demo_maps_def hash_lookup_def)
  moreover have "2 \<le> count_list [0, 1, 0, 1 :: nat] 0" by simp
  ultimately obtain i where i: "fst ?run 0 = Rr_picked (Some i)" "in_service (demo_info BALANCER_RR) i"
    using conjunct1 [OF both, rule_format, of "[0, 1, 0, 1]" 0] by auto
  have "fst ?run 1 = fst ?run 0"
    using conjunct2 [OF both, rule_format, of 0 1] by (simp only: Let_def split_beta)
  then show ?thesis using i by auto
qed

end
