(* ===== verification/Spec2Isabelle.thy ===== *)
theory Spec2Isabelle
  imports Process_Properties Layout_Properties Publication_Properties Dataplane_Properties Component_Properties
begin

text \<open>
  A layer-4 load balancer on XDP: the program in the kernel that rewrites packets
  (\<open>src/xdp/balancer.bpf.c\<close>) and the control plane that configures and observes it
  (\<open>src/controlplane\<close>). The two share BPF maps. The development models both, and their steps on
  the shared maps.

  \<^bold>\<open>Parts and theories.\<close> Names of definitions are those of the code; a suffix or a prefix
  distinguishes what HOL has already.

  \<^item> \<open>Prelude\<close>: machine words, byte order, the collections \<open>byte_simps\<close>, \<open>map_simps\<close>,
    \<open>pkt_simps\<close>. \<open>Bpf_Maps\<close>: arrays, per-CPU arrays, hash maps and LRU maps with their capacity,
    as the kernel documents them; the locales \<open>bpf_keyed_map\<close> and \<open>bpf_exact_map\<close> are what
    clients rely on. \<open>Packet\<close>: a packet is a byte list, a load or store outside it is \<open>None\<close>.

  \<^item> The data path: \<open>Checksum\<close>, \<open>Balancer_State\<close> (the structs and the record \<open>xdp_maps\<close> of all
    maps, with the double buffer that \<open>atomic_index\<close> selects), \<open>Schedulers\<close> (round robin and
    weighted round robin under the locale \<open>scheduler\<close>), \<open>Consistent_Lookup\<close>, \<open>Session_Table\<close>
    (\<open>find_tcp_backend\<close>, \<open>find_udp_backend\<close>), \<open>Ddos\<close>, \<open>Xdp_Handler\<close> (\<open>balancer_handler\<close>). About
    them: \<open>Scheduler_Fairness\<close>, \<open>Rr_Concurrency\<close> (round robin on several CPUs),
    \<open>Session_Accounting\<close>, \<open>Session_Affinity\<close>, \<open>Xdp_Safety\<close>.

  \<^item> Consistent hashing in the control plane (\<open>consistent_hash.cpp\<close>): \<open>Maglev\<close> (the tables),
    \<open>Xxh3\<close> (the one path of xxHash that is taken), \<open>Ch_Instance\<close> (current and previous table, the
    merge timer, as a step relation), \<open>Ordered_Map\<close> (\<open>std::map\<close> under the locale
    \<open>ranked_order\<close>), \<open>Ch_Manager\<close>, \<open>Ch_Publish\<close> (\<open>updateChBpfMaps\<close>).

  \<^item> Configuration: \<open>Config\<close> (\<open>baseconfig.h\<close>, the file loader), \<open>Regex\<close> and \<open>Validator\<close>,
    \<open>Json_Parser\<close>, \<open>Config_Manager\<close> (whose locale \<open>dataplane\<close> is what it asks of \<open>ReloadConfig\<close>),
    \<open>Grpc_Server\<close> (handlers and mappers).

  \<^item> \<open>XdpDataplane\<close> (\<open>xdpdataplane.cpp\<close>): \<open>Xdp_Dataplane\<close> and \<open>Xdp_Reload\<close> (\<open>ReloadConfig\<close>,
    phase by phase), \<open>Bpf_Loader\<close> (loading, attaching, destroying), \<open>Metrics\<close> and \<open>Text_Format\<close>
    (the counters under readable labels). \<open>Reload_Spec\<close> is the contract of a reload,
    \<open>Reload_Returns\<close> and \<open>Reload_Blocked\<close> say when a reload comes back: always, but for a lookup of
    a neighbour that does not.

  \<^item> Around it: \<open>Metrics_Server\<close>, \<open>Arp\<close>, \<open>Ndp\<close>, \<open>Startup\<close> (\<open>main\<close>). \<open>Balancer_System\<close> composes
    packets, commands and maintenance into one step relation; \<open>Packet_Effect\<close> (a locale for what
    one packet does to a part of the maps) and \<open>Wrr_Cursors\<close> add invariants of its runs.
    \<open>Example_State\<close> is a small configuration for concrete evaluations.

  \<^item> A reload among packets: \<open>Ch_Writes\<close> takes \<open>updateChBpfMaps\<close> apart into its system calls and
    \<open>Reload_Steps\<close> \<open>ReloadConfig\<close>, \<open>Reload_Interleaving\<close> lets packets and maintenance come between
    them, under the lock of the consistent-hash manager, and shows what stays,
    \<open>Reload_Progress\<close> what has been reached at every point, \<open>Reload_Window\<close> what the flows of both
    configurations meet after the switch, \<open>Reload_Capacity\<close> what happens when a map is full.
    \<open>Concurrent_System\<close> is \<open>Balancer_System\<close> with reloads and publications in progress,
    \<open>Ch_Transition\<close> what packets meet while a consistent-hash table is replaced, \<open>Ch_Liveness\<close>
    that every replacement comes to its end when its thread is not passed over for ever, \<open>Ch_Reload\<close>
    which tables a whole reload leaves, \<open>Control_Process\<close> the process with its threads.

  \<^item> The bytes that the two sides exchange: \<open>C_Layout\<close> (offsets and sizes of C structs) and
    \<open>Shared_Structs\<close> (the packet headers, the structs of both sides, the maps, the buffers of
    every call).

  \<^item> The properties, each with an evaluation at a concrete input where it has hypotheses:
    \<open>Dataplane_Properties\<close>, \<open>Component_Properties\<close>, \<open>Ch_Properties\<close>, \<open>Publication_Properties\<close>,
    \<open>Config_Properties\<close>, \<open>Host_Properties\<close>, \<open>System_Properties\<close>, \<open>Interleaving_Properties\<close>,
    \<open>Process_Properties\<close>, \<open>Layout_Properties\<close>.

  \<^bold>\<open>How the code is modelled.\<close> Integers keep their width. The per-CPU statistics are functions of
  the CPU; \<open>xdp_env\<close> is what a run of the program reads from outside (its CPU, the clock at each
  reading, the victim an LRU map evicts). A function that changes maps takes and returns the state;
  one that can return early gives an option or an error; an early \<open>return\<close> of \<open>ReloadConfig\<close>
  keeps what was written before it (\<open>and_then\<close>). Behaviour that C or C++ leaves undefined is a
  value of its own where the code reaches it (\<open>None\<close>, \<open>Undefined\<close>, \<open>Overread\<close>), so that a theorem
  about a result says that it is not reached.

  \<^bold>\<open>Loops.\<close> Bounded loops are recursive functions with a measure: the retry loop ends after five
  picks, the weighted loop after the 32 turns of the code, a Maglev table when every slot is taken
  (\<open>place_all\<close>, which needs every permutation to reach every slot, so a table size prime to the
  steps), the walks over netlink messages at the end of the buffer. Loops without a bound in the
  code (\<open>read_blacklist\<close>, \<open>count_keys\<close>, \<open>recv_loop\<close>, \<open>datagram_loop\<close>) are partial functions whose
  value \<open>None\<close> means that they never end; there are theorems for both outcomes. A reload that waits
  for such a lookup ends with the value \<open>Never_returns\<close>, at which no step of the system goes on. The loops of a
  reload that empty a map are functions where nothing comes in between; among packets they are
  steps, and how often they go round is bounded by the packets. A publication is a list of calls
  that gets shorter. No definition uses fuel.

  \<^bold>\<open>What is proved.\<close> Memory safety of the XDP program on every packet, at every state the whole
  system reaches, between any two system calls of a reload, with the invariants of all maps. What
  a forwarded packet looks like, and its checksum. Session affinity under any interleaving of
  flows; the account of the connection counters; fairness of both schedulers, and what is left of
  it on several CPUs. The completeness and balance of Maglev tables, the time a merge takes, that
  the data path implements the published table, which servers packets meet while it is copied and
  which ones a reload gives to the flows of consistent-hash services. The exact language of the
  validator, the round trip of the gRPC mappers. What a reload installs, that it leaves the kernel
  alone when it is refused, that packets see the old configuration until one call and the new one
  after it, and that a new flow of a round-robin service from then on, and of a weighted service
  once the old cursors are deleted, only reaches enabled servers of that service. That both sides give the bytes of the maps the same meaning.
  What the exported counters add up to. That an answering neighbour is found. And the places where
  the code does something else than it means to: the SYN-flood check that is never reached by a
  SYN, the flows of consistent hashing that change their backend, the tables that all
  consistent-hash services share, the servers that a flow meets for the time of a copy, the reload
  that fails after it succeeded, the old flows that a reload redirects, the cursors that run out,
  the queries and the reloads that never return, the object that is freed twice, the shutdown that
  is never reached.

  \<^bold>\<open>Parameters.\<close> What the code calls and the repository does not contain: the JSON library
  (\<open>json_api\<close>), address conversion and what the lookups of neighbours give a reload (\<open>host\<close>, which
  \<open>asking_neighbours\<close> fills with the lookups of \<open>Arp\<close> and \<open>Ndp\<close>), libbpf and the attaching of
  programs (\<open>bpf_host\<close>), sockets (\<open>arp_host\<close>, \<open>ndp_host\<close>), the clock, floating-point
  arithmetic (\<open>double_ops\<close>). Bytes that the code leaves uninitialised are parameters, too
  (\<open>rest_of_union\<close>, \<open>rest_of_index\<close>, the ports of \<open>FromProtoBackend\<close>). The general assumption on
  them is \<open>host_ok\<close>, that addresses have the length of addresses; theorems that need more say so.
  Those about what a reload installs need \<open>rest_of_index h = 0\<close>: the kernel copies eight bytes from
  the four of \<open>newIndex\<close>, and what lies behind them is up to the compiler.

  \<^bold>\<open>Not modelled.\<close> The command-line client (Go), generated protobuf and gRPC code, the rest of
  xxHash, kernel headers, tests and dashboards. Steps are whole runs of the XDP program (only for
  round robin there is a model of CPUs that run it at the same time) and single system calls of the
  control plane, a batch counting as one. What the control plane does in memory between two calls
  is part of a step; the other threads cannot see it, except in the data race that follows.
  Requests that change the configuration come one after the other; nothing in the code makes them,
  and two at once, or a query during the preparation, are a data race on \<open>m_currConfig\<close> and
  \<open>m_xdpBackends\<close> without a meaning in C++. So after a request whose reload blocks the model has no
  other one. Log output and signal handling are left out.
\<close>

end
